(* ===== verification/Prelude.thy ===== *)
theory Prelude
  imports Complex_Main "HOL-Library.AList" "HOL-Library.Multiset" "HOL-Library.Char_ord" "HOL-Library.List_Lexorder"
    "HOL-Library.Sublist" "HOL-Library.Word"
begin

text \<open>
  Shared vocabulary of the development: the parts of the Go language and of its standard
  library that the gateway's packages use (byte strings and the functions of package
  \<^verbatim>\<open>strings\<close>, maps that are iterated over, 64-bit counters), the collections of simplification
  rules of the component theories, and the generic lemmas on lists and association lists they
  share.

  A Go string is a sequence of bytes and is a \<^typ>\<open>string\<close> here (\<^typ>\<open>char\<close> has 256 values).
  A Go map that the code iterates over is an association list with distinct keys: the order of
  the list is the order in which one run of \<^verbatim>\<open>range\<close> visits the keys, which Go leaves open, so a
  theorem about all such lists is a theorem about all iteration orders. A Go map that is only
  looked up and updated is a HOL map.
\<close>

named_theorems go_string \<open>evaluation rules for the string functions\<close>
named_theorems config_simps \<open>rules for configuration records\<close>
named_theorems limiter_simps \<open>rules for the admission limiter\<close>
named_theorems gateway_simps \<open>rules for the request handlers\<close>

type_synonym byte = "8 word"
type_synonym uint64 = "64 word"
type_synonym 'v gomap = "(string \<times> 'v) list"

text \<open>
  A value of Go type \<^verbatim>\<open>any\<close>. Package \<^verbatim>\<open>encoding/json\<close> builds \<^verbatim>\<open>nil\<close>, booleans, \<^verbatim>\<open>float64\<close> numbers, strings, slices and maps. The
  YAML decoder also builds integers, and values that have no JSON form (not-a-number, infinities,
  maps with keys that are not strings), which are one value \<open>AUnsupported\<close> here; a timestamp is the
  string that encoding it gives.
\<close>

datatype any =
    ANil | ABool bool | ANum rat | ANegZero | AInt int | AStr string | AArr "any list" | AObj "(string \<times> any) list"
  | AUnsupported


section \<open>Package strings\<close>

definition hasPrefix :: "string \<Rightarrow> string \<Rightarrow> bool" where
  "hasPrefix s p \<longleftrightarrow> take (length p) s = p"

definition hasSuffix :: "string \<Rightarrow> string \<Rightarrow> bool" where
  "hasSuffix s p \<longleftrightarrow> length p \<le> length s \<and> drop (length s - length p) s = p"

definition trimPrefix :: "string \<Rightarrow> string \<Rightarrow> string" where
  "trimPrefix s p = (if hasPrefix s p then drop (length p) s else s)"

definition trimSuffix :: "string \<Rightarrow> string \<Rightarrow> string" where
  "trimSuffix s p = (if hasSuffix s p then take (length s - length p) s else s)"

fun indexByte :: "char \<Rightarrow> string \<Rightarrow> nat option" where
  "indexByte c [] = None"
| "indexByte c (x # xs) = (if x = c then Some 0 else map_option Suc (indexByte c xs))"

fun lastIndexByte :: "char \<Rightarrow> string \<Rightarrow> nat option" where
  "lastIndexByte c [] = None"
| "lastIndexByte c (x # xs) =
     (case lastIndexByte c xs of Some i \<Rightarrow> Some (Suc i) | None \<Rightarrow> if x = c then Some 0 else None)"

fun containsStr :: "string \<Rightarrow> string \<Rightarrow> bool" where
  "containsStr [] sub = (sub = [])"
| "containsStr (x # xs) sub = (hasPrefix (x # xs) sub \<or> containsStr xs sub)"

text \<open>\<^verbatim>\<open>strings.Split\<close> for a one-byte separator: \<open>n\<close> separators give \<open>n + 1\<close> parts.\<close>

fun splitOn :: "char \<Rightarrow> string \<Rightarrow> string list" where
  "splitOn c [] = [[]]"
| "splitOn c (x # xs) =
     (if x = c then [] # splitOn c xs
      else (case splitOn c xs of [] \<Rightarrow> [[x]] | p # ps \<Rightarrow> (x # p) # ps))"

fun joinWith :: "string \<Rightarrow> string list \<Rightarrow> string" where
  "joinWith sep [] = []"
| "joinWith sep [p] = p"
| "joinWith sep (p # q # ps) = p @ sep @ joinWith sep (q # ps)"

definition lowerChar :: "char \<Rightarrow> char" where
  "lowerChar c = (if CHR ''A'' \<le> c \<and> c \<le> CHR ''Z'' then char_of (of_char c + (32::nat)) else c)"

text \<open>\<^verbatim>\<open>strings.ToLower\<close> on the ASCII names the code applies it to (HTTP header names).\<close>

definition toLower :: "string \<Rightarrow> string" where
  "toLower s = map lowerChar s"

text \<open>
  \<^verbatim>\<open>strings.TrimSpace\<close>: the byte sequences that encode Unicode white space in UTF-8. Each begins
  with a byte that starts a rune, so stripping them as prefixes and suffixes agrees with decoding.
\<close>

definition spaceRunes :: "string list" where
  "spaceRunes =
     [[CHR 0x20], [CHR 0x09], [CHR 0x0A], [CHR 0x0B], [CHR 0x0C], [CHR 0x0D],
      [CHR 0xC2, CHR 0x85], [CHR 0xC2, CHR 0xA0], [CHR 0xE1, CHR 0x9A, CHR 0x80],
      [CHR 0xE2, CHR 0x80, CHR 0x80], [CHR 0xE2, CHR 0x80, CHR 0x81], [CHR 0xE2, CHR 0x80, CHR 0x82],
      [CHR 0xE2, CHR 0x80, CHR 0x83], [CHR 0xE2, CHR 0x80, CHR 0x84], [CHR 0xE2, CHR 0x80, CHR 0x85],
      [CHR 0xE2, CHR 0x80, CHR 0x86], [CHR 0xE2, CHR 0x80, CHR 0x87], [CHR 0xE2, CHR 0x80, CHR 0x88],
      [CHR 0xE2, CHR 0x80, CHR 0x89], [CHR 0xE2, CHR 0x80, CHR 0x8A], [CHR 0xE2, CHR 0x80, CHR 0xA8],
      [CHR 0xE2, CHR 0x80, CHR 0xA9], [CHR 0xE2, CHR 0x80, CHR 0xAF], [CHR 0xE2, CHR 0x81, CHR 0x9F],
      [CHR 0xE3, CHR 0x80, CHR 0x80]]"

function stripRunes :: "string list \<Rightarrow> string \<Rightarrow> string" where
  "stripRunes ws s =
     (case find (\<lambda>w. w \<noteq> [] \<and> hasPrefix s w) ws of
        None \<Rightarrow> s
      | Some w \<Rightarrow> stripRunes ws (drop (length w) s))"
  by pat_completeness auto
termination
  by (relation "measure (\<lambda>(ws, s). length s)")
     (auto simp: find_Some_iff hasPrefix_def, metis length_greater_0_conv take_eq_Nil diff_less)

declare stripRunes.simps [simp del]

definition trimLeftSpace :: "string \<Rightarrow> string" where
  "trimLeftSpace s = stripRunes spaceRunes s"

definition trimRightSpace :: "string \<Rightarrow> string" where
  "trimRightSpace s = rev (stripRunes (map rev spaceRunes) (rev s))"

definition trimSpace :: "string \<Rightarrow> string" where
  "trimSpace s = trimRightSpace (trimLeftSpace s)"

text \<open>\<^verbatim>\<open>strings.Trim\<close> for a cutset of ASCII bytes.\<close>

definition trimCut :: "char list \<Rightarrow> string \<Rightarrow> string" where
  "trimCut cs s = rev (dropWhile (\<lambda>c. c \<in> set cs) (rev (dropWhile (\<lambda>c. c \<in> set cs) s)))"

text \<open>Decimal form of a number.\<close>

fun showNat :: "nat \<Rightarrow> string" where
  "showNat n = (if n < 10 then [char_of (48 + n)] else showNat (n div 10) @ [char_of (48 + n mod 10)])"

declare showNat.simps [simp del]

section \<open>Maps that are iterated over\<close>

definition mapKeys :: "'v gomap \<Rightarrow> string list" where
  "mapKeys m = map fst m"

definition wfMap :: "'v gomap \<Rightarrow> bool" where
  "wfMap m \<longleftrightarrow> distinct (map fst m)"

text \<open>Overwriting the value of every key, as \<^verbatim>\<open>for k, v := range m { m[k] = f(k, v) }\<close> does.\<close>

definition mapValues :: "(string \<Rightarrow> 'v \<Rightarrow> 'w) \<Rightarrow> 'v gomap \<Rightarrow> 'w gomap" where
  "mapValues f m = map (\<lambda>(k, v). (k, f k v)) m"

section \<open>String lemmas\<close>

lemma hasPrefix_iff_prefix: "hasPrefix s p \<longleftrightarrow> prefix p s"
  by (auto simp: hasPrefix_def prefix_def) (metis append_take_drop_id)

lemma hasPrefix_Nil [simp]: "hasPrefix s []"
  by (simp add: hasPrefix_def)

lemma hasPrefix_append [simp]: "hasPrefix (p @ s) p"
  by (simp add: hasPrefix_def)

lemma hasPrefix_Cons [simp]: "hasPrefix (x # xs) (p # ps) \<longleftrightarrow> x = p \<and> hasPrefix xs ps"
  by (auto simp: hasPrefix_def)

lemma hasPrefix_Nil_left [simp]: "hasPrefix [] p \<longleftrightarrow> p = []"
  by (cases p) (auto simp: hasPrefix_def)

lemma trimPrefix_append [simp]: "trimPrefix (p @ s) p = s"
  by (simp add: trimPrefix_def)

lemma containsStr_char: "containsStr s [c] \<longleftrightarrow> c \<in> set s"
  by (induction s) auto

lemma splitOn_nonempty [simp]: "splitOn c s \<noteq> []"
  by (cases s) (auto split: list.splits)

lemma length_splitOn: "length (splitOn c s) = Suc (count_list s c)"
  by (induction s) (auto split: list.splits)

lemma splitOn_no_sep: "p \<in> set (splitOn c s) \<Longrightarrow> c \<notin> set p"
proof (induction s arbitrary: p)
  case (Cons x xs)
  obtain q qs where q: "splitOn c xs = q # qs"
    by (cases "splitOn c xs") auto
  with Cons.prems consider "p = []" | "p \<in> set (splitOn c xs)" | "x \<noteq> c" "p = x # q"
    by (auto split: if_splits)
  then show ?case
    using Cons.IH q by cases auto
qed simp

lemma joinWith_splitOn: "joinWith [c] (splitOn c s) = s"
proof (induction s)
  case (Cons x xs)
  obtain q qs where q: "splitOn c xs = q # qs"
    by (cases "splitOn c xs") auto
  with Cons show ?case
    by (cases qs) auto
qed simp

lemma splitOn_joinWith:
  "ps \<noteq> [] \<Longrightarrow> \<forall>p \<in> set ps. c \<notin> set p \<Longrightarrow> splitOn c (joinWith [c] ps) = ps"
proof (induction "[c]" ps rule: joinWith.induct)
  case (2 p)
  then have "c \<notin> set p" by simp
  then have "splitOn c p = [p]"
    by (induction p) auto
  then show ?case by simp
next
  case (3 p q ps)
  then have c: "c \<notin> set p" and rest: "splitOn c (joinWith [c] (q # ps)) = q # ps"
    by auto
  from c have "splitOn c (p @ c # r) = p # splitOn c r" for r
    by (induction p) auto
  with rest show ?case by simp
qed simp

lemma splitOn_append: "splitOn c (s @ c # t) = splitOn c s @ splitOn c t"
proof (induction s)
  case (Cons x xs)
  then show ?case by (cases "splitOn c xs") auto
qed simp

lemma splitOn_notin: "c \<notin> set s \<Longrightarrow> splitOn c s = [s]"
  by (induction s) auto

lemma joinWith_Cons: "ps \<noteq> [] \<Longrightarrow> joinWith sep (p # ps) = p @ sep @ joinWith sep ps"
  by (cases ps) auto

lemma stripRunes_id:
  "(\<And>w. w \<in> set ws \<Longrightarrow> w \<noteq> [] \<Longrightarrow> \<not> hasPrefix s w) \<Longrightarrow> stripRunes ws s = s"
  by (subst stripRunes.simps) (auto simp: find_Some_iff split: option.splits)

lemma stripRunes_suffix: "suffix (stripRunes ws s) s"
proof (induction ws s rule: stripRunes.induct)
  case (1 ws s)
  show ?case
  proof (cases "find (\<lambda>w. w \<noteq> [] \<and> hasPrefix s w) ws")
    case None
    then show ?thesis by (subst stripRunes.simps) simp
  next
    case (Some w)
    with "1.IH" have "suffix (stripRunes ws (drop (length w) s)) (drop (length w) s)"
      by simp
    with Some show ?thesis
      by (subst stripRunes.simps) (auto intro: suffix_order.trans suffix_drop)
  qed
qed

lemma trimSpace_Nil [simp]: "trimSpace [] = []"
  by (simp add: trimSpace_def trimRightSpace_def trimLeftSpace_def stripRunes_id spaceRunes_def)

lemma length_stripRunes_le: "length (stripRunes ws s) \<le> length s"
  using stripRunes_suffix suffix_length_le by blast

lemma set_stripRunes_subset: "set (stripRunes ws s) \<subseteq> set s"
  using stripRunes_suffix set_mono_suffix by blast

lemma length_trimSpace_le: "length (trimSpace s) \<le> length s"
  unfolding trimSpace_def trimRightSpace_def trimLeftSpace_def
  by (metis length_rev length_stripRunes_le order_trans)

lemma set_trimSpace_subset: "set (trimSpace s) \<subseteq> set s"
  unfolding trimSpace_def trimRightSpace_def trimLeftSpace_def
  by (metis set_rev set_stripRunes_subset subset_trans)

lemma stripRunes_unfold [go_string]:
  "stripRunes ws s =
     (case find (\<lambda>w. w \<noteq> [] \<and> hasPrefix s w) ws of
        None \<Rightarrow> s | Some w \<Rightarrow> stripRunes ws (drop (length w) s))"
  by (rule stripRunes.simps)

lemmas trim_eval = trimSpace_def trimLeftSpace_def trimRightSpace_def spaceRunes_def
  stripRunes_unfold hasPrefix_def

section \<open>Chained error checks\<close>

lemma first_failure_None [simp]:
  "(case x of None \<Rightarrow> y | Some e \<Rightarrow> Some e) = None \<longleftrightarrow> x = None \<and> y = None"
  by (cases x) auto

section \<open>Map lemmas\<close>

lemma map_of_mapValues: "map_of (mapValues f m) k = map_option (f k) (map_of m k)"
  by (induction m) (auto simp: mapValues_def)

lemma wfMap_mapValues [simp]: "wfMap (mapValues f m) \<longleftrightarrow> wfMap m"
  by (simp add: wfMap_def mapValues_def case_prod_beta comp_def)

lemma mapKeys_mapValues [simp]: "mapKeys (mapValues f m) = mapKeys m"
  by (simp add: mapKeys_def mapValues_def case_prod_beta comp_def)

lemma wfMap_map_of: "wfMap m \<Longrightarrow> (k, v) \<in> set m \<longleftrightarrow> map_of m k = Some v"
  by (auto simp: wfMap_def)

text \<open>Filling a map from the entries of another whose keys it does not have yet.\<close>

lemma update_fresh: "k \<notin> fst ` set m \<Longrightarrow> AList.update k v m = m @ [(k, v)]"
  by (induction m) auto

lemma fold_update_fresh:
  "distinct (map fst m) \<Longrightarrow> fst ` set m \<inter> fst ` set r = {} \<Longrightarrow>
   fold (\<lambda>(k, v) r. AList.update k (f k v) r) m r = r @ mapValues f m"
proof (induction m arbitrary: r)
  case (Cons x m)
  obtain k v where x: "x = (k, v)" by force
  have "AList.update k (f k v) r = r @ [(k, f k v)]"
    using Cons.prems x by (intro update_fresh) auto
  moreover have "fst ` set m \<inter> fst ` set (r @ [(k, f k v)]) = {}"
    using Cons.prems x by auto
  ultimately show ?case using Cons x by (simp add: mapValues_def)
qed (simp add: mapValues_def)

end
