(* ===== verification/GoNet.thy ===== *)
theory GoNet
  imports Prelude
begin

unbundle bit_operations_syntax

text \<open>
  The functions of the Go packages \<^verbatim>\<open>net\<close> and \<^verbatim>\<open>net/netip\<close> that the gateway calls: parsing of
  textual IPv4 and IPv6 addresses (\<^verbatim>\<open>net.ParseIP\<close>), of CIDR networks (\<^verbatim>\<open>net.ParseCIDR\<close>) and of
  host/port pairs (\<^verbatim>\<open>net.SplitHostPort\<close>), and membership of an address in a network
  (\<^verbatim>\<open>IPNet.Contains\<close>). An address is a list of 4 or 16 bytes, as in Go; a failed parse is \<open>None\<close>.
  The lemmas give the shape of parsed values and show that the byte loop of \<^verbatim>\<open>Contains\<close> compares
  exactly the leading bits that the prefix length asks for.
\<close>

type_synonym ip = "byte list"

record ipnet =
  net_ip :: ip
  net_mask :: "byte list"

text \<open>A parsed address keeps whether its text was IPv4 or IPv6, as \<^verbatim>\<open>netip.Addr\<close> does.\<close>

datatype addr = Addr4 "byte list" | Addr6 "byte list" string

section \<open>Address parsing\<close>

definition isDigit :: "char \<Rightarrow> bool" where
  "isDigit c \<longleftrightarrow> c \<in> set ''0123456789''"

definition hexVal :: "char \<Rightarrow> nat option" where
  "hexVal c =
     (case indexByte c ''0123456789abcdef'' of
        Some d \<Rightarrow> Some d
      | None \<Rightarrow> map_option (\<lambda>d. d + 10) (indexByte c ''ABCDEF''))"

definition digitVal :: "char \<Rightarrow> nat" where
  "digitVal c = (case indexByte c ''0123456789'' of Some d \<Rightarrow> d | None \<Rightarrow> 0)"

text \<open>
  \<^verbatim>\<open>parseIPv4Fields\<close>: the state of the loop is the value and the number of digits of the current
  field and the fields read so far. A dot is refused at the start, at the end and after a dot,
  that is when no digit of the current field was read or nothing follows.
\<close>

fun parseIPv4Loop :: "string \<Rightarrow> nat \<Rightarrow> nat \<Rightarrow> byte list \<Rightarrow> byte list option" where
  "parseIPv4Loop [] val digLen fs =
     (if length fs < 3 then None else Some (fs @ [of_nat val]))"
| "parseIPv4Loop (c # cs) val digLen fs =
     (if isDigit c then
        (if digLen = 1 \<and> val = 0 then None
         else let v = val * 10 + digitVal c in
           if v > 255 then None else parseIPv4Loop cs v (digLen + 1) fs)
      else if c = CHR ''.'' then
        (if digLen = 0 \<or> cs = [] then None
         else if length fs = 3 then None
         else parseIPv4Loop cs 0 0 (fs @ [of_nat val]))
      else None)"

definition parseIPv4Fields :: "string \<Rightarrow> byte list option" where
  "parseIPv4Fields s = parseIPv4Loop s 0 0 []"

text \<open>The inner loop of \<^verbatim>\<open>parseIPv6\<close>: up to four hexadecimal digits.\<close>

fun scanHex :: "string \<Rightarrow> nat \<Rightarrow> nat \<Rightarrow> (nat \<times> nat \<times> string) option" where
  "scanHex [] off acc = Some (off, acc, [])"
| "scanHex (c # cs) off acc =
     (case hexVal c of
        None \<Rightarrow> Some (off, acc, c # cs)
      | Some d \<Rightarrow>
          (if off > 3 then None
           else if acc * 16 + d > 65535 then None
           else scanHex cs (Suc off) (acc * 16 + d)))"

text \<open>
  The outer loop: \<open>bs\<close> holds the bytes written so far, \<open>ell\<close> the position of the ellipsis. The
  result is the bytes, the ellipsis and the unread rest of the text.
\<close>

function parseIPv6Loop ::
    "string \<Rightarrow> byte list \<Rightarrow> nat option \<Rightarrow> (byte list \<times> nat option \<times> string) option" where
  "parseIPv6Loop s bs ell =
     (if length bs \<ge> 16 then Some (bs, ell, s)
      else case scanHex s 0 0 of
        None \<Rightarrow> None
      | Some (off, acc, rest) \<Rightarrow>
          if off = 0 then None
          else if rest \<noteq> [] \<and> hd rest = CHR ''.'' then
            (if ell = None \<and> length bs \<noteq> 12 then None
             else if length bs + 4 > 16 then None
             else map_option (\<lambda>f. (bs @ f, ell, [])) (parseIPv4Fields s))
          else let bs' = bs @ [of_nat (acc div 256), of_nat (acc mod 256)] in
            (case rest of
               [] \<Rightarrow> Some (bs', ell, [])
             | c # r1 \<Rightarrow>
                 if c \<noteq> CHR '':'' then None
                 else (case r1 of
                         [] \<Rightarrow> None
                       | d # r2 \<Rightarrow>
                           if d = CHR '':'' then
                             (if ell \<noteq> None then None
                              else if r2 = [] then Some (bs', Some (length bs'), [])
                              else parseIPv6Loop r2 bs' (Some (length bs')))
                           else parseIPv6Loop r1 bs' ell)))"
  by pat_completeness auto
termination
  by (relation "measure (\<lambda>(s, bs, ell). 16 - length bs)") auto

declare parseIPv6Loop.simps [simp del]

definition expandEllipsis :: "byte list \<Rightarrow> nat \<Rightarrow> byte list" where
  "expandEllipsis bs e = take e bs @ replicate (16 - length bs) 0 @ drop e bs"

definition finishIPv6 :: "string \<Rightarrow> byte list \<times> nat option \<times> string \<Rightarrow> addr option" where
  "finishIPv6 zone r =
     (case r of (bs, ell, rest) \<Rightarrow>
        if rest \<noteq> [] then None
        else if length bs < 16 then
          (case ell of None \<Rightarrow> None | Some e \<Rightarrow> Some (Addr6 (expandEllipsis bs e) zone))
        else if ell \<noteq> None then None
        else Some (Addr6 bs zone))"

definition parseIPv6Body :: "string \<Rightarrow> string \<Rightarrow> addr option" where
  "parseIPv6Body s zone =
     (if hasPrefix s ''::'' then
        (if drop 2 s = [] then Some (Addr6 (replicate 16 0) zone)
         else Option.bind (parseIPv6Loop (drop 2 s) [] (Some 0)) (finishIPv6 zone))
      else Option.bind (parseIPv6Loop s [] None) (finishIPv6 zone))"

definition parseIPv6 :: "string \<Rightarrow> addr option" where
  "parseIPv6 s =
     (case indexByte CHR ''%'' s of
        None \<Rightarrow> parseIPv6Body s []
      | Some i \<Rightarrow> if drop (Suc i) s = [] then None else parseIPv6Body (take i s) (drop (Suc i) s))"

text \<open>\<^verbatim>\<open>netip.ParseAddr\<close> dispatches on the first of the bytes \<^verbatim>\<open>.\<close>, \<^verbatim>\<open>:\<close> and \<^verbatim>\<open>%\<close>.\<close>

definition parseAddr :: "string \<Rightarrow> addr option" where
  "parseAddr s =
     (case find (\<lambda>c. c = CHR ''.'' \<or> c = CHR '':'' \<or> c = CHR ''%'') s of
        None \<Rightarrow> None
      | Some c \<Rightarrow>
          if c = CHR ''.'' then map_option Addr4 (parseIPv4Fields s)
          else if c = CHR '':'' then parseIPv6 s
          else None)"

definition v4InV6Prefix :: "byte list" where
  "v4InV6Prefix = [0, 0, 0, 0, 0, 0, 0, 0, 0, 0, 255, 255]"

fun addrZone :: "addr \<Rightarrow> string" where
  "addrZone (Addr4 _) = []"
| "addrZone (Addr6 _ z) = z"

fun addrBitLen :: "addr \<Rightarrow> nat" where
  "addrBitLen (Addr4 _) = 32"
| "addrBitLen (Addr6 _ _) = 128"

fun addrAs16 :: "addr \<Rightarrow> byte list" where
  "addrAs16 (Addr4 b) = v4InV6Prefix @ b"
| "addrAs16 (Addr6 b _) = b"

definition parseIP :: "string \<Rightarrow> ip option" where
  "parseIP s =
     (case parseAddr s of
        None \<Rightarrow> None
      | Some a \<Rightarrow> if addrZone a \<noteq> [] then None else Some (addrAs16 a))"

text \<open>\<^verbatim>\<open>IP.To4\<close>: the 4-byte form of an IPv4 or IPv4-mapped address.\<close>

definition to4 :: "ip \<Rightarrow> ip option" where
  "to4 b =
     (if length b = 4 then Some b
      else if length b = 16 \<and> take 12 b = v4InV6Prefix then Some (drop 12 b)
      else None)"

definition isUnspecified :: "ip \<Rightarrow> bool" where
  "isUnspecified b \<longleftrightarrow>
     (case to4 b of Some q \<Rightarrow> q = [0, 0, 0, 0] | None \<Rightarrow> b = replicate 16 0)"

section \<open>Networks\<close>

fun dtoiLoop :: "string \<Rightarrow> nat \<Rightarrow> nat option" where
  "dtoiLoop [] n = Some n"
| "dtoiLoop (c # cs) n =
     (if isDigit c then
        (let m = n * 10 + digitVal c in if m \<ge> 0xFFFFFF then None else dtoiLoop cs m)
      else None)"

text \<open>\<^verbatim>\<open>dtoi\<close> together with the caller's check that it consumed the whole text.\<close>

definition dtoiAll :: "string \<Rightarrow> nat option" where
  "dtoiAll s = (if s = [] then None else dtoiLoop s 0)"

text \<open>\<^verbatim>\<open>CIDRMask(ones, bits)\<close>, a mask of \<open>l\<close> bytes whose first \<open>n\<close> bits are set.\<close>

definition maskByte :: "nat \<Rightarrow> byte" where
  "maskByte n = (if n \<ge> 8 then 255 else NOT (drop_bit n 255))"

fun cidrMask :: "nat \<Rightarrow> nat \<Rightarrow> byte list" where
  "cidrMask n 0 = []"
| "cidrMask n (Suc l) = maskByte n # cidrMask (n - 8) l"

definition ipMask :: "ip \<Rightarrow> byte list \<Rightarrow> ip option" where
  "ipMask b m =
     (let m1 = (if length m = 16 \<and> length b = 4 \<and> take 12 m = replicate 12 255 then drop 12 m else m);
          b1 = (if length m1 = 4 \<and> length b = 16 \<and> take 12 b = v4InV6Prefix then drop 12 b else b)
      in if length b1 \<noteq> length m1 then None else Some (map2 (AND) b1 m1))"

definition parseCIDR :: "string \<Rightarrow> ipnet option" where
  "parseCIDR s =
     (case indexByte CHR ''/'' s of
        None \<Rightarrow> None
      | Some i \<Rightarrow>
          (case parseAddr (take i s) of
             None \<Rightarrow> None
           | Some a \<Rightarrow>
               if addrZone a \<noteq> [] then None
               else (case dtoiAll (drop (Suc i) s) of
                       None \<Rightarrow> None
                     | Some n \<Rightarrow>
                         if n > addrBitLen a then None
                         else let m = cidrMask n (addrBitLen a div 8)
                           in map_option (\<lambda>b. \<lparr>net_ip = b, net_mask = m\<rparr>) (ipMask (addrAs16 a) m))))"

definition networkNumberAndMask :: "ipnet \<Rightarrow> (ip \<times> byte list) option" where
  "networkNumberAndMask n =
     (let b = (case to4 (net_ip n) of Some q \<Rightarrow> q | None \<Rightarrow> net_ip n) in
      if length b \<noteq> 4 \<and> length b \<noteq> 16 then None
      else if length (net_mask n) = 4 then (if length b \<noteq> 4 then None else Some (b, net_mask n))
      else if length (net_mask n) = 16 then
        Some (b, if length b = 4 then drop 12 (net_mask n) else net_mask n)
      else None)"

definition netContains :: "ipnet \<Rightarrow> ip \<Rightarrow> bool" where
  "netContains n x =
     (let y = (case to4 x of Some q \<Rightarrow> q | None \<Rightarrow> x) in
      case networkNumberAndMask n of
        None \<Rightarrow> y = []
      | Some (nn, m) \<Rightarrow> length y = length nn \<and>
          (\<forall>i \<in> set [0..<length y]. nn ! i AND m ! i = y ! i AND m ! i))"

section \<open>Host and port\<close>

definition splitHostPort :: "string \<Rightarrow> (string \<times> string) option" where
  "splitHostPort hp =
     (case lastIndexByte CHR '':'' hp of
        None \<Rightarrow> None
      | Some i \<Rightarrow>
          if hp ! 0 = CHR ''['' then
            (case indexByte CHR '']'' hp of
               None \<Rightarrow> None
             | Some e \<Rightarrow>
                 if e + 1 = length hp \<or> e + 1 \<noteq> i then None
                 else if CHR ''['' \<in> set (drop 1 hp) \<or> CHR '']'' \<in> set (drop (e + 1) hp) then None
                 else Some (take (e - 1) (drop 1 hp), drop (i + 1) hp))
          else if CHR '':'' \<in> set (take i hp) then None
          else if CHR ''['' \<in> set hp \<or> CHR '']'' \<in> set hp then None
          else Some (take i hp, drop (i + 1) hp))"

section \<open>Printing\<close>

definition digitChar :: "nat \<Rightarrow> char" where
  "digitChar d = ''0123456789abcdef'' ! d"

fun natStr :: "nat \<Rightarrow> nat \<Rightarrow> string" where
  "natStr base n =
     (if n < base \<or> base < 2 then [digitChar n] else natStr base (n div base) @ [digitChar (n mod base)])"

declare natStr.simps [simp del]

definition ipv4String :: "ip \<Rightarrow> string" where
  "ipv4String b = joinWith ''.'' (map (\<lambda>w. natStr 10 (unat w)) b)"

fun v6groups :: "ip \<Rightarrow> nat list" where
  "v6groups (h # l # bs) = (unat h * 256 + unat l) # v6groups bs"
| "v6groups _ = []"

text \<open>
  The zero run that \<^verbatim>\<open>appendTo6\<close> elides: the first longest run of at least two zero groups, as its
  start and end.
\<close>

definition zeroRunAt :: "nat list \<Rightarrow> nat \<Rightarrow> nat" where
  "zeroRunAt gs i = length (takeWhile (\<lambda>g. g = 0) (drop i gs))"

definition elideStep :: "nat list \<Rightarrow> nat \<Rightarrow> nat \<times> nat \<Rightarrow> nat \<times> nat" where
  "elideStep gs i z =
     (let l = zeroRunAt gs i in if 2 \<le> l \<and> snd z - fst z < l then (i, i + l) else z)"

definition elidedRun :: "nat list \<Rightarrow> nat \<times> nat" where
  "elidedRun gs = fold (elideStep gs) [0..<length gs] (255, 255)"

definition ipv6String :: "ip \<Rightarrow> string" where
  "ipv6String b =
     (let gs = v6groups b; (zs, ze) = elidedRun gs;
          hex = (\<lambda>xs. joinWith '':'' (map (natStr 16) xs))
      in if zs = 255 then hex gs else hex (take zs gs) @ ''::'' @ hex (drop ze gs))"

definition ipString :: "ip \<Rightarrow> string" where
  "ipString b =
     (if b = [] then ''<nil>''
      else case to4 b of Some q \<Rightarrow> ipv4String q | None \<Rightarrow> ipv6String b)"

section \<open>Evaluation on concrete text\<close>

lemma replicate_numeral_Cons: "replicate (numeral k) x = x # replicate (pred_numeral k) x"
  by (simp add: numeral_eq_Suc)

lemma cidrMask_numeral: "cidrMask n (numeral k) = maskByte n # cidrMask (n - 8) (pred_numeral k)"
  by (simp add: numeral_eq_Suc)

lemma digit_char: "n < 10 \<Longrightarrow> isDigit (char_of (48 + n)) \<and> digitVal (char_of (48 + n)) = n"
proof -
  have "list_all (\<lambda>n. isDigit (char_of (48 + n)) \<and> digitVal (char_of (48 + n)) = n) [0..<10]"
    by (simp add: upt_rec isDigit_def digitVal_def char_of_def bit_0)
  then show "n < 10 \<Longrightarrow> ?thesis" by (simp add: list_all_iff)
qed

lemmas net_eval = parseIP_def parseAddr_def parseIPv4Fields_def isDigit_def digitVal_def
  hexVal_def Let_def v4InV6Prefix_def parseIPv6_def parseIPv6Body_def finishIPv6_def
  expandEllipsis_def parseIPv6Loop.simps hasPrefix_def parseCIDR_def dtoiAll_def maskByte_def
  ipMask_def to4_def networkNumberAndMask_def netContains_def replicate_numeral_Cons
  cidrMask_numeral upt_conv_Cons splitHostPort_def

section \<open>Shape of parsed addresses\<close>

lemma parseIPv4Loop_length:
  "parseIPv4Loop s val digLen fs = Some r \<Longrightarrow> length fs \<le> 3 \<Longrightarrow> length r = 4"
  by (induction s val digLen fs rule: parseIPv4Loop.induct)
     (auto simp: Let_def split: if_splits)

lemma parseIPv4Fields_length: "parseIPv4Fields s = Some r \<Longrightarrow> length r = 4"
  unfolding parseIPv4Fields_def by (drule parseIPv4Loop_length) simp_all

lemma parseIPv6Loop_length:
  assumes "parseIPv6Loop s bs ell = Some (r, e, rest)"
    and "even (length bs)" and "length bs \<le> 16" and "\<And>p. ell = Some p \<Longrightarrow> p \<le> length bs"
  shows "length r \<le> 16 \<and> (\<forall>p. e = Some p \<longrightarrow> p \<le> length r)"
  using assms
proof (induction s bs ell arbitrary: r e rest rule: parseIPv6Loop.induct)
  case (1 s bs ell)
  show ?case
  proof (cases "length bs \<ge> 16")
    case True
    with "1.prems" show ?thesis by (simp add: parseIPv6Loop.simps [of s bs ell])
  next
    case False
    then have lt: "length bs \<le> 14" using "1.prems"(2) by presburger
    obtain off acc rst where sc: "scanHex s 0 0 = Some (off, acc, rst)" and off: "off \<noteq> 0"
      using "1.prems"(1) False
      by (auto simp: parseIPv6Loop.simps [of s bs ell] split: option.splits if_splits)
    let ?bs = "bs @ [of_nat (acc div 256), of_nat (acc mod 256)]"
    note step = "1.prems"(1) [unfolded parseIPv6Loop.simps [of s bs ell] sc]
    show ?thesis
    proof (cases "rst \<noteq> [] \<and> hd rst = CHR ''.''")
      case True
      with step False off "1.prems"(4) show ?thesis
        by (fastforce dest: parseIPv4Fields_length split: if_splits)
    next
      case ndot: False
      show ?thesis
      proof (cases rst)
        case Nil
        with step False off ndot lt "1.prems"(4) show ?thesis by (force simp: Let_def)
      next
        case (Cons c r1)
        with step False off ndot obtain d r2 where r1: "r1 = d # r2" and c: "c = CHR '':''"
          by (auto simp: Let_def split: if_splits list.splits)
        show ?thesis
        proof (cases "d = CHR '':''")
          case True
          show ?thesis
          proof (cases "r2 = []")
            case True
            with step False off ndot Cons r1 c \<open>d = CHR '':''\<close> lt show ?thesis
              by (auto simp: Let_def split: if_splits)
          next
            case r2: False
            with step False off ndot Cons r1 c True
            have "parseIPv6Loop r2 ?bs (Some (length ?bs)) = Some (r, e, rest)" and ell: "ell = None"
              by (auto simp: Let_def split: if_splits)
            then show ?thesis
              using "1.IH"(1) [OF False sc refl refl off ndot refl Cons] "1.prems"(2) lt c r1 True r2 ell
              by (simp add: Let_def)
          qed
        next
          case nd: False
          with step False off ndot Cons r1 c
          have "parseIPv6Loop r1 ?bs ell = Some (r, e, rest)"
            by (auto simp: Let_def split: if_splits)
          then show ?thesis
            using "1.IH"(2) [OF False sc refl refl off ndot refl Cons] "1.prems"(2,4) lt c r1 nd
            by (force simp: Let_def)
        qed
      qed
    qed
  qed
qed

lemma finishIPv6_length:
  "finishIPv6 zone (bs, e, rest) = Some a \<Longrightarrow> length bs \<le> 16 \<Longrightarrow>
   (\<And>p. e = Some p \<Longrightarrow> p \<le> length bs) \<Longrightarrow> \<exists>b. a = Addr6 b zone \<and> length b = 16"
  by (auto simp: finishIPv6_def expandEllipsis_def split: if_splits option.splits)

lemma parseIPv6Loop_finish:
  assumes "parseIPv6Loop s [] ell = Some x" and "ell = None \<or> ell = Some 0"
    and "finishIPv6 zone x = Some a"
  shows "\<exists>b. a = Addr6 b zone \<and> length b = 16"
proof (cases x)
  case (fields r e rest)
  with assms(1,2) parseIPv6Loop_length [of s "[]" ell r e rest]
  have "length r \<le> 16" and "\<And>p. e = Some p \<Longrightarrow> p \<le> length r" by auto
  with assms(3) fields show ?thesis by (auto dest!: finishIPv6_length)
qed

lemma parseIPv6Body_length: "parseIPv6Body s zone = Some a \<Longrightarrow> \<exists>b. a = Addr6 b zone \<and> length b = 16"
  unfolding parseIPv6Body_def
  by (auto simp: bind_eq_Some_conv split: if_splits dest: parseIPv6Loop_finish)

lemma parseAddr_cases:
  assumes "parseAddr s = Some a"
  obtains b where "a = Addr4 b" "length b = 4" | b z where "a = Addr6 b z" "length b = 16"
  using assms
  by (auto simp: parseAddr_def parseIPv6_def split: option.splits if_splits
           dest: parseIPv4Fields_length parseIPv6Body_length)

lemma length_v4InV6Prefix [simp]: "length v4InV6Prefix = 12"
  by (simp add: v4InV6Prefix_def)

lemma parseIP_length: "parseIP s = Some b \<Longrightarrow> length b = 16"
  by (auto simp: parseIP_def split: option.splits if_splits elim!: parseAddr_cases)

lemma length_cidrMask [simp]: "length (cidrMask n l) = l"
  by (induction n l rule: cidrMask.induct) auto

lemma to4_cases:
  "length b = 16 \<Longrightarrow> (\<exists>q. length q = 4 \<and> b = v4InV6Prefix @ q \<and> to4 b = Some q) \<or> to4 b = None"
  by (auto simp: to4_def) (metis append_take_drop_id length_drop diff_Suc_Suc numeral_eq_Suc)

section \<open>Prefix lengths\<close>

text \<open>The bits of an address, most significant first.\<close>

definition byteBits :: "byte \<Rightarrow> bool list" where
  "byteBits w = map (bit w) [7, 6, 5, 4, 3, 2, 1, 0]"

definition ipBits :: "ip \<Rightarrow> bool list" where
  "ipBits b = concat (map byteBits b)"

lemma length_byteBits [simp]: "length (byteBits w) = 8"
  by (simp add: byteBits_def)

lemma byte_eq_iff_bits: "a = b \<longleftrightarrow> (\<forall>i < 8. bit a i = bit b i)" for a b :: byte
  by (auto simp: bit_eq_iff)

lemma bit_byte_255: "bit (255 :: byte) j \<longleftrightarrow> j < 8"
  using bit_mask_iff [of 8 j, where 'a = "8 word"] by (simp add: mask_eq_exp_minus_1)

lemma bit_maskByte: "i < 8 \<Longrightarrow> bit (maskByte n) i \<longleftrightarrow> 8 \<le> i + n"
  unfolding maskByte_def
  by (auto simp only: bit_not_iff bit_drop_bit_eq bit_byte_255 comp_def not_less add.commute
           if_split possible_bit_word split: if_splits) simp

lemma byteBits_nth: "j < 8 \<Longrightarrow> byteBits w ! j = bit w (7 - j)"
proof -
  assume "j < 8"
  then have "j \<in> {0, 1, 2, 3, 4, 5, 6, 7}" by auto
  then show ?thesis by (auto simp: byteBits_def)
qed

lemma maskByte_eq_iff:
  "a AND maskByte n = b AND maskByte n \<longleftrightarrow> take n (byteBits a) = take n (byteBits b)"
proof -
  have "a AND maskByte n = b AND maskByte n \<longleftrightarrow> (\<forall>i < 8. 8 \<le> i + n \<longrightarrow> bit a i = bit b i)"
    by (auto simp: byte_eq_iff_bits [of "a AND _"] bit_and_iff bit_maskByte)
  also have "\<dots> \<longleftrightarrow> (\<forall>j. j < 8 \<and> j < n \<longrightarrow> bit a (7 - j) = bit b (7 - j))"
  proof (rule iffI; intro allI impI)
    fix i assume all: "\<forall>j. j < 8 \<and> j < n \<longrightarrow> bit a (7 - j) = bit b (7 - j)" and i: "i < 8" "8 \<le> i + n"
    then have "7 - (7 - i) = i" and "7 - i < 8 \<and> 7 - i < n" by arith+
    with all [rule_format, of "7 - i"] show "bit a i = bit b i" by simp
  qed auto
  also have "\<dots> \<longleftrightarrow> take n (byteBits a) = take n (byteBits b)"
    by (auto simp: list_eq_iff_nth_eq byteBits_nth)
  finally show ?thesis .
qed

lemma cidrMask_eq_iff:
  "length a = l \<Longrightarrow> length b = l \<Longrightarrow>
   (\<forall>i < l. a ! i AND cidrMask n l ! i = b ! i AND cidrMask n l ! i)
     \<longleftrightarrow> take n (ipBits a) = take n (ipBits b)"
proof (induction n l arbitrary: a b rule: cidrMask.induct)
  case (2 n l)
  then obtain x a' y b' where ab: "a = x # a'" "b = y # b'" "length a' = l" "length b' = l"
    by (metis length_Suc_conv)
  have "take n (ipBits a) = take n (ipBits b) \<longleftrightarrow>
        take n (byteBits x) = take n (byteBits y) \<and> take (n - 8) (ipBits a') = take (n - 8) (ipBits b')"
    using ab by (simp add: ipBits_def append_eq_append_conv)
  then show ?case
    using "2.IH" [OF ab(3,4)] ab by (simp add: All_less_Suc2 maskByte_eq_iff)
qed (simp add: ipBits_def)

text \<open>
  The address and prefix length of a network text, as \<^verbatim>\<open>ParseCIDR\<close> reads them, and the 4-byte or
  16-byte form in which \<^verbatim>\<open>Contains\<close> compares addresses.
\<close>

definition cidrParts :: "string \<Rightarrow> (addr \<times> nat) option" where
  "cidrParts s =
     (case indexByte CHR ''/'' s of
        None \<Rightarrow> None
      | Some i \<Rightarrow>
          (case (parseAddr (take i s), dtoiAll (drop (Suc i) s)) of
             (Some a, Some n) \<Rightarrow> if addrZone a = [] \<and> n \<le> addrBitLen a then Some (a, n) else None
           | _ \<Rightarrow> None))"

definition canonicalIP :: "ip \<Rightarrow> ip" where
  "canonicalIP b = (case to4 b of Some q \<Rightarrow> q | None \<Rightarrow> b)"

fun addrBytes :: "addr \<Rightarrow> byte list" where
  "addrBytes (Addr4 b) = b"
| "addrBytes (Addr6 b _) = b"

lemma parseCIDR_parts:
  "parseCIDR s =
     (case cidrParts s of
        None \<Rightarrow> None
      | Some (a, n) \<Rightarrow> Some \<lparr>net_ip = map2 (AND) (addrBytes a) (cidrMask n (addrBitLen a div 8)),
                            net_mask = cidrMask n (addrBitLen a div 8)\<rparr>)"
proof (cases "indexByte CHR ''/'' s")
  case None
  then show ?thesis by (simp add: parseCIDR_def cidrParts_def)
next
  case (Some i)
  show ?thesis
  proof (cases "parseAddr (take i s)")
    case None
    with Some show ?thesis by (simp add: parseCIDR_def cidrParts_def)
  next
    case a: (Some a)
    then have "(\<exists>b. a = Addr4 b \<and> length b = 4) \<or> (\<exists>b z. a = Addr6 b z \<and> length b = 16)"
      by (auto elim: parseAddr_cases)
    with a Some show ?thesis
      by (cases "dtoiAll (drop (Suc i) s)")
         (auto simp: parseCIDR_def cidrParts_def ipMask_def Let_def)
  qed
qed

lemma cidrParts_bounds: "cidrParts s = Some (a, n) \<Longrightarrow> n \<le> addrBitLen a \<and> length (addrBytes a) * 8 = addrBitLen a"
  by (auto simp: cidrParts_def split: option.splits if_splits elim!: parseAddr_cases)

lemma length_canonicalIP: "length b = 16 \<Longrightarrow> length (canonicalIP b) = 4 \<or> length (canonicalIP b) = 16"
  using to4_cases [of b] by (auto simp: canonicalIP_def)

lemma indexByte_append_notin: "c \<notin> set s \<Longrightarrow> indexByte c (s @ c # t) = Some (length s)"
  by (induction s) auto

lemma cidrParts_append:
  "CHR ''/'' \<notin> set s \<Longrightarrow>
   cidrParts (s @ CHR ''/'' # t) =
     (case (parseAddr s, dtoiAll t) of
        (Some a, Some n) \<Rightarrow> if addrZone a = [] \<and> n \<le> addrBitLen a then Some (a, n) else None
      | _ \<Rightarrow> None)"
  by (simp add: cidrParts_def indexByte_append_notin)

lemma cidrParts_length: "cidrParts s = Some (a, n) \<Longrightarrow> addrBitLen a div 8 = length (addrBytes a)"
  using cidrParts_bounds by fastforce

text \<open>The network that \<^verbatim>\<open>ParseCIDR\<close> builds from an address and a prefix length.\<close>

definition maskedNet :: "ip \<Rightarrow> nat \<Rightarrow> ipnet" where
  "maskedNet b n = \<lparr>net_ip = map2 (AND) b (cidrMask n (length b)), net_mask = cidrMask n (length b)\<rparr>"

text \<open>
  Membership, for a network whose masked number is not an IPv4-mapped IPv6 address: an address
  is inside exactly when it has the same family and the same leading bits.
\<close>

lemma netContains_prefix:
  assumes b: "length b = 4 \<or> length b = 16"
    and plain: "length b = 16 \<Longrightarrow> to4 (net_ip (maskedNet b n)) = None"
  shows "netContains (maskedNet b n) x \<longleftrightarrow>
           length (canonicalIP x) = length b \<and> take n (ipBits b) = take n (ipBits (canonicalIP x))"
proof -
  let ?m = "cidrMask n (length b)"
  have nm: "networkNumberAndMask (maskedNet b n) = Some (map2 (AND) b ?m, ?m)"
    using b plain by (auto simp: networkNumberAndMask_def maskedNet_def Let_def to4_def)
  show ?thesis
  proof (cases "length (canonicalIP x) = length b")
    case True
    have "netContains (maskedNet b n) x \<longleftrightarrow>
            (\<forall>i < length b. b ! i AND ?m ! i = canonicalIP x ! i AND ?m ! i)"
      using True by (auto simp: netContains_def nm canonicalIP_def [symmetric])
    with True show ?thesis by (simp add: cidrMask_eq_iff)
  next
    case False
    then show ?thesis by (simp add: netContains_def nm canonicalIP_def [symmetric])
  qed
qed

text \<open>Masking cannot turn an address into an IPv4-mapped one, and a mapped one stays so only under a long mask.\<close>

lemma cidrMask_nth: "i < l \<Longrightarrow> cidrMask n l ! i = maskByte (n - 8 * i)"
proof (induction n l arbitrary: i rule: cidrMask.induct)
  case (2 n l)
  then show ?case by (cases i) (auto simp: diff_diff_add)
qed simp

lemma and_eq_255: "a AND m = (255 :: byte) \<Longrightarrow> m = 255"
  unfolding byte_eq_iff_bits [of "a AND m"] byte_eq_iff_bits [of m]
  by (simp only: bit_and_iff bit_byte_255) blast

lemma and_255: "a AND (255 :: byte) = a"
  unfolding byte_eq_iff_bits [of "a AND 255"] by (simp only: bit_and_iff bit_byte_255) blast

lemma maskByte_255: "maskByte k = 255 \<longleftrightarrow> 8 \<le> k"
proof
  assume "maskByte k = 255"
  then have "bit (maskByte k) 0" by (simp add: bit_byte_255)
  then show "8 \<le> k" using bit_maskByte [of 0 k] by simp
qed (simp add: maskByte_def)

lemma masked_mapped:
  assumes len: "length b = 16" and mapped: "to4 (net_ip (maskedNet b n)) \<noteq> None"
  shows "take 12 b = v4InV6Prefix \<and> 96 \<le> n"
proof -
  let ?m = "cidrMask n 16"
  have pre: "take 12 (map2 (AND) b ?m) = v4InV6Prefix"
    using mapped len by (auto simp: to4_def maskedNet_def split: if_splits)
  have nth: "b ! i AND maskByte (n - 8 * i) = v4InV6Prefix ! i" if "i < 12" for i
    using arg_cong [OF pre, of "\<lambda>xs. xs ! i"] that len by (simp add: cidrMask_nth)
  from nth [of 11] have n: "8 \<le> n - 88"
    by (auto simp: v4InV6Prefix_def maskByte_255 [symmetric] dest: and_eq_255)
  then have "maskByte (n - 8 * i) = 255" if "i < 12" for i
    using that by (simp add: maskByte_255)
  with nth have "b ! i = v4InV6Prefix ! i" if "i < 12" for i
    using that by (simp add: and_255)
  then show ?thesis
    using len n by (auto simp: list_eq_iff_nth_eq)
qed

lemma netContains_maskedNet:
  "length b = 4 \<or> length b = 16 \<and> (take 12 b \<noteq> v4InV6Prefix \<or> n < 96) \<Longrightarrow>
   netContains (maskedNet b n) x \<longleftrightarrow>
     length (canonicalIP x) = length b \<and> take n (ipBits b) = take n (ipBits (canonicalIP x))"
proof (rule netContains_prefix)
  assume "length b = 4 \<or> length b = 16 \<and> (take 12 b \<noteq> v4InV6Prefix \<or> n < 96)" "length b = 16"
  then show "to4 (net_ip (maskedNet b n)) = None" using masked_mapped [of b n] by fastforce
qed auto

text \<open>A network of mapped addresses with a prefix length of at least 96 is a network of IPv4 addresses.\<close>

lemma cidrMask_mapped: "96 \<le> n \<Longrightarrow> cidrMask n 16 = replicate 12 255 @ cidrMask (n - 96) 4"
proof -
  assume n: "96 \<le> n"
  have split: "cidrMask n (k + l) = replicate k 255 @ cidrMask (n - 8 * k) l" if "8 * k \<le> n" for k l n
    using that
  proof (induction k arbitrary: n)
    case (Suc k)
    then show ?case by (simp add: maskByte_def)
  qed simp
  from split [of 12 n 4] n show ?thesis by simp
qed

lemma netContains_mapped:
  assumes "length q = 4" and "96 \<le> n"
  shows "netContains (maskedNet (v4InV6Prefix @ q) n) x \<longleftrightarrow> netContains (maskedNet q (n - 96)) x"
proof -
  let ?m = "cidrMask (n - 96) 4"
  have pre: "map2 (AND) v4InV6Prefix (replicate 12 255) = v4InV6Prefix" by (simp add: v4InV6Prefix_def and_255 replicate_numeral_Cons)
  then have "maskedNet (v4InV6Prefix @ q) n = \<lparr>net_ip = v4InV6Prefix @ map2 (AND) q ?m, net_mask = replicate 12 255 @ ?m\<rparr>"
    using assms by (simp add: maskedNet_def cidrMask_mapped)
  then have "networkNumberAndMask (maskedNet (v4InV6Prefix @ q) n) = networkNumberAndMask (maskedNet q (n - 96))"
    using assms pre by (simp add: networkNumberAndMask_def maskedNet_def to4_def Let_def)
  then show ?thesis by (simp add: netContains_def)
qed

lemma length_ipBits [simp]: "length (ipBits b) = 8 * length b"
  by (induction b) (auto simp: ipBits_def)

lemma byteBits_inject: "byteBits a = byteBits b \<longleftrightarrow> a = b"
  using maskByte_eq_iff [of a 8 b] by (auto simp: maskByte_def and_255)

lemma ipBits_inject: "length a = length b \<Longrightarrow> ipBits a = ipBits b \<longleftrightarrow> a = b"
  by (induction a b rule: list_induct2) (auto simp: ipBits_def byteBits_inject)

end
