(* ===== verification/GoUrl.thy ===== *)
theory GoUrl
  imports GoNet
begin

text \<open>
  Package \<^verbatim>\<open>net/url\<close> as of Go 1.25.0, the release named in \<^verbatim>\<open>go.mod\<close>: \<^verbatim>\<open>url.Parse\<close> with its percent-decoding by
  component, and \<^verbatim>\<open>URL.String\<close>. Errors are not told apart: a text that does not parse gives \<open>None\<close>. The
  main result is that a printed URL, if it can be parsed at all, has the scheme, user, host and path
  that were printed, whatever the query is.
\<close>

datatype encoding = EncodePath | EncodeUserPassword | EncodeHost | EncodeZone | EncodeFragment

datatype userinfo = Userinfo string "string option"

record url =
  url_Scheme :: string
  url_Opaque :: string
  url_User :: "userinfo option"
  url_Host :: string
  url_Path :: string
  url_RawPath :: string
  url_OmitHost :: bool
  url_ForceQuery :: bool
  url_RawQuery :: string
  url_Fragment :: string
  url_RawFragment :: string

definition emptyURL :: url where
  "emptyURL =
     \<lparr>url_Scheme = [], url_Opaque = [], url_User = None, url_Host = [], url_Path = [], url_RawPath = [],
      url_OmitHost = False, url_ForceQuery = False, url_RawQuery = [], url_Fragment = [], url_RawFragment = []\<rparr>"

section \<open>Percent encoding\<close>

definition isLetter :: "char \<Rightarrow> bool" where
  "isLetter c \<longleftrightarrow> c \<in> set ''abcdefghijklmnopqrstuvwxyzABCDEFGHIJKLMNOPQRSTUVWXYZ''"

definition shouldEscape :: "encoding \<Rightarrow> char \<Rightarrow> bool" where
  "shouldEscape mode c =
     (if isLetter c \<or> isDigit c then False
      else if (mode = EncodeHost \<or> mode = EncodeZone) \<and> (c \<in> set ''!$&()*+,;=:[]<>'' \<or> c = CHR 0x27 \<or> c = CHR 0x22) then False
      else if c \<in> set ''-_.~'' then False
      else if c \<in> set ''$&+,/:;=?@'' then
        (case mode of
           EncodePath \<Rightarrow> c = CHR ''?''
         | EncodeUserPassword \<Rightarrow> c \<in> set ''@/?:''
         | EncodeFragment \<Rightarrow> False
         | _ \<Rightarrow> True)
      else \<not> (mode = EncodeFragment \<and> c \<in> set ''!()*''))"

definition upperHex :: "nat \<Rightarrow> char" where
  "upperHex n = (if n < 10 then char_of (48 + n) else char_of (55 + n))"

definition escapeByte :: "encoding \<Rightarrow> char \<Rightarrow> string" where
  "escapeByte mode c =
     (if shouldEscape mode c then [CHR ''%'', upperHex (of_char c div 16), upperHex (of_char c mod 16)] else [c])"

definition escape :: "encoding \<Rightarrow> string \<Rightarrow> string" where
  "escape mode s = concat (map (escapeByte mode) s)"

fun unescape :: "encoding \<Rightarrow> string \<Rightarrow> string option" where
  "unescape mode [] = Some []"
| "unescape mode (c # s) =
     (if c = CHR ''%'' then
        (case s of
           h # l # rest \<Rightarrow>
             (case (hexVal h, hexVal l) of
                (Some a, Some b) \<Rightarrow>
                  let v = char_of (16 * a + b); percent = (h = CHR ''2'' \<and> l = CHR ''5'') in
                  if mode = EncodeHost \<and> a < 8 \<and> \<not> percent then None
                  else if mode = EncodeZone \<and> \<not> percent \<and> v \<noteq> CHR 0x20 \<and> shouldEscape EncodeHost v then None
                  else map_option ((#) v) (unescape mode rest)
              | _ \<Rightarrow> None)
         | _ \<Rightarrow> None)
      else if (mode = EncodeHost \<or> mode = EncodeZone) \<and> of_char c < (128 :: nat) \<and> shouldEscape mode c then None
      else map_option ((#) c) (unescape mode s))"

definition validEncoded :: "encoding \<Rightarrow> string \<Rightarrow> bool" where
  "validEncoded mode s =
     list_all (\<lambda>c. c \<in> set ''!$&()*+,;=:@[]%'' \<or> c = CHR 0x27 \<or> \<not> shouldEscape mode c) s"

section \<open>Parsing\<close>

text \<open>\<^verbatim>\<open>strings.Cut\<close> at a one-byte separator.\<close>

definition cutByte :: "char \<Rightarrow> string \<Rightarrow> string \<times> string" where
  "cutByte c s = (takeWhile (\<lambda>x. x \<noteq> c) s, drop 1 (dropWhile (\<lambda>x. x \<noteq> c) s))"

fun schemeLoop :: "string \<Rightarrow> string \<Rightarrow> string \<Rightarrow> (string \<times> string) option" where
  "schemeLoop raw seen [] = Some ([], raw)"
| "schemeLoop raw seen (c # cs) =
     (if isLetter c then schemeLoop raw (seen @ [c]) cs
      else if isDigit c \<or> c \<in> set ''+-.'' then
        (if seen = [] then Some ([], raw) else schemeLoop raw (seen @ [c]) cs)
      else if c = CHR '':'' then (if seen = [] then None else Some (seen, cs))
      else Some ([], raw))"

definition getScheme :: "string \<Rightarrow> (string \<times> string) option" where
  "getScheme raw = schemeLoop raw [] raw"

definition validUserinfo :: "string \<Rightarrow> bool" where
  "validUserinfo s = list_all (\<lambda>c. isLetter c \<or> isDigit c \<or> c \<in> set ''-._:~!$&()*+,;=%@'' \<or> c = CHR 0x27) s"

definition validOptionalPort :: "string \<Rightarrow> bool" where
  "validOptionalPort p = (case p of [] \<Rightarrow> True | c # ds \<Rightarrow> c = CHR '':'' \<and> list_all isDigit ds)"

text \<open>The index of a substring (\<^verbatim>\<open>strings.Index\<close>).\<close>

fun indexStr :: "string \<Rightarrow> string \<Rightarrow> nat option" where
  "indexStr sub [] = (if sub = [] then Some 0 else None)"
| "indexStr sub (x # xs) = (if hasPrefix (x # xs) sub then Some 0 else map_option Suc (indexStr sub xs))"

definition parseHost :: "string \<Rightarrow> string option" where
  "parseHost host =
     (if hasPrefix host ''['' then
        (case lastIndexByte (CHR '']'') host of
           None \<Rightarrow> None
         | Some i \<Rightarrow>
             if \<not> validOptionalPort (drop (Suc i) host) then None
             else
               (case indexStr ''%25'' (take i host) of
                  Some zone \<Rightarrow>
                    (case (unescape EncodeHost (take zone host), unescape EncodeZone (drop zone (take i host)),
                           unescape EncodeHost (drop i host)) of
                       (Some h1, Some h2, Some h3) \<Rightarrow> Some (h1 @ h2 @ h3)
                     | _ \<Rightarrow> None)
                | None \<Rightarrow> unescape EncodeHost host))
      else
        (case lastIndexByte (CHR '':'') host of
           Some i \<Rightarrow> if \<not> validOptionalPort (drop i host) then None else unescape EncodeHost host
         | None \<Rightarrow> unescape EncodeHost host))"

definition parseUserinfo :: "string \<Rightarrow> userinfo option" where
  "parseUserinfo s =
     (if \<not> validUserinfo s then None
      else if CHR '':'' \<notin> set s then map_option (\<lambda>n. Userinfo n None) (unescape EncodeUserPassword s)
      else
        (case cutByte (CHR '':'') s of (name, pass) \<Rightarrow>
           (case (unescape EncodeUserPassword name, unescape EncodeUserPassword pass) of
              (Some n, Some p) \<Rightarrow> Some (Userinfo n (Some p))
            | _ \<Rightarrow> None)))"

definition parseAuthority :: "string \<Rightarrow> (userinfo option \<times> string) option" where
  "parseAuthority authority =
     (case lastIndexByte (CHR ''@'') authority of
        None \<Rightarrow> map_option (Pair None) (parseHost authority)
      | Some i \<Rightarrow>
          (case parseHost (drop (Suc i) authority) of
             None \<Rightarrow> None
           | Some host \<Rightarrow> map_option (\<lambda>ui. (Some ui, host)) (parseUserinfo (take i authority))))"

definition setPath :: "string \<Rightarrow> url \<Rightarrow> url option" where
  "setPath p u =
     (case unescape EncodePath p of
        None \<Rightarrow> None
      | Some path \<Rightarrow> Some (u\<lparr>url_Path := path, url_RawPath := (if p = escape EncodePath path then [] else p)\<rparr>))"

definition setFragment :: "string \<Rightarrow> url \<Rightarrow> url option" where
  "setFragment f u =
     (case unescape EncodeFragment f of
        None \<Rightarrow> None
      | Some frag \<Rightarrow>
          Some (u\<lparr>url_Fragment := frag, url_RawFragment := (if f = escape EncodeFragment frag then [] else f)\<rparr>))"

definition containsCTLByte :: "string \<Rightarrow> bool" where
  "containsCTLByte s = list_ex (\<lambda>c. of_char c < (32 :: nat) \<or> c = CHR 0x7F) s"

text \<open>The query: \<^verbatim>\<open>?\<close> as the last byte and nowhere else is remembered by a flag.\<close>

definition cutQuery :: "string \<Rightarrow> string \<times> bool \<times> string" where
  "cutQuery rest =
     (if hasSuffix rest ''?'' \<and> count_list rest (CHR ''?'') = 1 then (butlast rest, True, [])
      else case cutByte (CHR ''?'') rest of (path, query) \<Rightarrow> (path, False, query))"

text \<open>What is left after scheme and query: authority and path.\<close>

definition parseHierarchy :: "string \<Rightarrow> url \<Rightarrow> url option" where
  "parseHierarchy rest u =
     (if \<not> hasPrefix rest ''/'' \<and> url_Scheme u \<noteq> [] then Some (u\<lparr>url_Opaque := rest\<rparr>)
      else if \<not> hasPrefix rest ''/'' \<and> CHR '':'' \<in> set (fst (cutByte (CHR ''/'') rest)) then None
      else if (url_Scheme u \<noteq> [] \<or> \<not> hasPrefix rest ''///'') \<and> hasPrefix rest ''//'' then
        (let authority = takeWhile (\<lambda>c. c \<noteq> CHR ''/'') (drop 2 rest);
             path = dropWhile (\<lambda>c. c \<noteq> CHR ''/'') (drop 2 rest)
         in case parseAuthority authority of
              None \<Rightarrow> None
            | Some (user, host) \<Rightarrow> setPath path (u\<lparr>url_User := user, url_Host := host\<rparr>))
      else if url_Scheme u \<noteq> [] \<and> hasPrefix rest ''/'' then setPath rest (u\<lparr>url_OmitHost := True\<rparr>)
      else setPath rest u)"

definition parseNoFragment :: "string \<Rightarrow> url option" where
  "parseNoFragment raw =
     (if containsCTLByte raw then None
      else if raw = ''*'' then Some (emptyURL\<lparr>url_Path := ''*''\<rparr>)
      else
        (case getScheme raw of
           None \<Rightarrow> None
         | Some (scheme, rest) \<Rightarrow>
             (case cutQuery rest of (path, force, query) \<Rightarrow>
                parseHierarchy path
                  (emptyURL\<lparr>url_Scheme := toLower scheme, url_ForceQuery := force, url_RawQuery := query\<rparr>))))"

definition parseURL :: "string \<Rightarrow> url option" where
  "parseURL raw =
     (case cutByte (CHR ''#'') raw of (u, frag) \<Rightarrow>
        (case parseNoFragment u of
           None \<Rightarrow> None
         | Some url \<Rightarrow> if frag = [] then Some url else setFragment frag url))"

text \<open>
  \<^verbatim>\<open>URL.Query().Get\<close>: the first value of a key. Pairs that are empty, contain a semicolon or cannot be
  decoded are skipped; a plus sign stands for a blank.
\<close>

definition queryUnescape :: "string \<Rightarrow> string option" where
  "queryUnescape s = unescape EncodePath (map (\<lambda>c. if c = CHR ''+'' then CHR 0x20 else c) s)"

definition queryPair :: "string \<Rightarrow> (string \<times> string) option" where
  "queryPair p =
     (if p = [] \<or> CHR '';'' \<in> set p then None
      else
        (case cutByte (CHR ''='') p of (k, v) \<Rightarrow>
           (case (queryUnescape k, queryUnescape v) of
              (Some k', Some v') \<Rightarrow> Some (k', v')
            | _ \<Rightarrow> None)))"

definition queryGet :: "string \<Rightarrow> string \<Rightarrow> string" where
  "queryGet rawQuery key =
     (case map_of (List.map_filter queryPair (splitOn (CHR ''&'') rawQuery)) key of Some v \<Rightarrow> v | None \<Rightarrow> [])"

section \<open>Printing\<close>

definition userString :: "userinfo \<Rightarrow> string" where
  "userString ui =
     (case ui of Userinfo name password \<Rightarrow>
        escape EncodeUserPassword name @
        (case password of None \<Rightarrow> [] | Some p \<Rightarrow> '':'' @ escape EncodeUserPassword p))"

definition escapedPath :: "url \<Rightarrow> string" where
  "escapedPath u =
     (if url_RawPath u \<noteq> [] \<and> validEncoded EncodePath (url_RawPath u) \<and>
         unescape EncodePath (url_RawPath u) = Some (url_Path u) then url_RawPath u
      else if url_Path u = ''*'' then ''*''
      else escape EncodePath (url_Path u))"

definition escapedFragment :: "url \<Rightarrow> string" where
  "escapedFragment u =
     (if url_RawFragment u \<noteq> [] \<and> validEncoded EncodeFragment (url_RawFragment u) \<and>
         unescape EncodeFragment (url_RawFragment u) = Some (url_Fragment u) then url_RawFragment u
      else escape EncodeFragment (url_Fragment u))"

definition authorityString :: "url \<Rightarrow> string" where
  "authorityString u =
     (case url_User u of None \<Rightarrow> [] | Some ui \<Rightarrow> userString ui @ ''@'') @ escape EncodeHost (url_Host u)"

definition hierarchyString :: "url \<Rightarrow> string" where
  "hierarchyString u =
     (let path = escapedPath u;
          absent = (url_Host u = [] \<and> url_User u = None);
          start = (if url_Scheme u \<noteq> [] then url_Scheme u @ '':'' else []) @
            (if (url_Scheme u \<noteq> [] \<or> \<not> absent) \<and> \<not> (url_OmitHost u \<and> absent)
             then (if url_Path u \<noteq> [] \<or> \<not> absent then ''//'' else []) @ authorityString u else []) @
            (if path \<noteq> [] \<and> hd path \<noteq> CHR ''/'' \<and> url_Host u \<noteq> [] then ''/'' else [])
      in start @
         (if start = [] \<and> CHR '':'' \<in> set (fst (cutByte (CHR ''/'') path)) then ''./'' else []) @ path)"

definition renderURL :: "url \<Rightarrow> string" where
  "renderURL u =
     (if url_Opaque u \<noteq> [] then (if url_Scheme u \<noteq> [] then url_Scheme u @ '':'' else []) @ url_Opaque u
      else hierarchyString u) @
     (if url_ForceQuery u \<or> url_RawQuery u \<noteq> [] then ''?'' @ url_RawQuery u else []) @
     (if url_Fragment u \<noteq> [] then ''#'' @ escapedFragment u else [])"

section \<open>Decoding what was encoded\<close>

lemma upperHex_value: "n < 16 \<Longrightarrow> hexVal (upperHex n) = Some n"
proof -
  have "list_all (\<lambda>n. hexVal (upperHex n) = Some n) [0..<16]"
    by (simp add: upt_rec hexVal_def upperHex_def char_of_def bit_0)
  then show "n < 16 \<Longrightarrow> ?thesis" by (simp add: list_all_iff)
qed

lemma upperHex_set: "n < 16 \<Longrightarrow> upperHex n \<in> set ''0123456789ABCDEF''"
proof -
  have "list_all (\<lambda>n. upperHex n \<in> set ''0123456789ABCDEF'') [0..<16]"
    by (simp add: upt_rec upperHex_def char_of_def bit_0)
  then show "n < 16 \<Longrightarrow> ?thesis" unfolding list_all_iff by auto
qed

lemma percent_escaped [simp]: "shouldEscape mode (CHR ''%'')"
  by (cases mode) (simp_all add: shouldEscape_def isLetter_def isDigit_def)

lemma unescape_escapeByte: "unescape EncodePath (escapeByte mode c @ s) = map_option ((#) c) (unescape EncodePath s)"
proof (cases "shouldEscape mode c")
  case True
  have "of_char c div 16 < (16 :: nat)" "of_char c mod 16 < (16 :: nat)" using nat_of_char_less_256 [of c] by (auto simp: less_mult_imp_div_less)
  moreover have "char_of (16 * (of_char c div 16) + of_char c mod 16 :: nat) = c" by simp
  ultimately show ?thesis using True by (simp add: escapeByte_def upperHex_value Let_def)
next
  case False
  then have "c \<noteq> CHR ''%''" by auto
  with False show ?thesis by (simp add: escapeByte_def)
qed

lemma unescape_escape: "unescape EncodePath (escape mode s) = Some s"
  by (induction s) (simp_all add: escape_def unescape_escapeByte)

text \<open>Decoding by component only adds checks to decoding.\<close>

lemma unescape_plain: "unescape mode s = Some t \<Longrightarrow> unescape EncodePath s = Some t"
proof (induction mode s arbitrary: t rule: unescape.induct)
  case (2 mode c s)
  show ?case
  proof (cases "c = CHR ''%''")
    case True
    with "2.prems" obtain h l rest where s: "s = h # l # rest" by (auto split: list.splits)
    with True "2.prems" obtain a b where "hexVal h = Some a" "hexVal l = Some b" by (auto split: option.splits)
    with True s "2.prems" "2.IH"(1) [OF True s] show ?thesis
      by (auto simp: Let_def split: if_splits)
  next
    case False
    with "2.prems" "2.IH"(2) show ?thesis by (auto split: if_splits)
  qed
qed simp

lemma unescape_append:
  "unescape EncodePath s = Some x \<Longrightarrow> unescape EncodePath (s @ t) = map_option ((@) x) (unescape EncodePath t)"
proof (induction "EncodePath" s arbitrary: x rule: unescape.induct)
  case 1
  then show ?case by (cases "unescape EncodePath t") auto
next
  case (2 c s)
  show ?case
  proof (cases "c = CHR ''%''")
    case True
    with "2.prems" obtain h l rest where s: "s = h # l # rest" by (auto split: list.splits)
    with True "2.prems" obtain a b where "hexVal h = Some a" "hexVal l = Some b" by (auto split: option.splits)
    with True s "2.prems" "2.hyps"(1) [OF True s] show ?thesis
      by (cases "unescape EncodePath t") (auto simp: Let_def)
  next
    case False
    with "2.prems" "2.hyps"(2) show ?thesis by (cases "unescape EncodePath t") auto
  qed
qed

lemma unescape_concat:
  assumes "unescape m s = Some x" "unescape m' t = Some y"
  shows "unescape EncodePath (s @ t) = Some (x @ y)"
  using unescape_append [OF unescape_plain [OF assms(1)]] unescape_plain [OF assms(2)] by simp

lemma escape_set: "c \<in> set (escape mode s) \<Longrightarrow> c \<in> set ''%0123456789ABCDEF'' \<or> \<not> shouldEscape mode c"
proof -
  have hex: "upperHex (of_char d div 16) \<in> set ''%0123456789ABCDEF''"
    "upperHex (of_char d mod 16) \<in> set ''%0123456789ABCDEF''" for d :: char
    using upperHex_set [of "of_char d div 16"] upperHex_set [of "of_char d mod 16"] nat_of_char_less_256 [of d]
    by (auto simp: less_mult_imp_div_less)
  have "c \<in> set (escapeByte mode d) \<Longrightarrow> c \<in> set ''%0123456789ABCDEF'' \<or> \<not> shouldEscape mode c" for d
    using hex [of d] unfolding escapeByte_def by (cases "shouldEscape mode d") auto
  then show "c \<in> set (escape mode s) \<Longrightarrow> ?thesis" by (auto simp: escape_def simp del: set_simps)
qed

section \<open>Parsing what was printed\<close>

lemma reserved_escaped:
  "list_all (shouldEscape EncodeHost) ''/@#?''" "list_all (shouldEscape EncodeUserPassword) ''/@#?:''"
  "list_all (shouldEscape EncodePath) ''#?''"
  by (simp_all add: shouldEscape_def isLetter_def isDigit_def)

lemma escape_text:
  assumes "list_all (shouldEscape mode) cs" "c \<in> set cs" "c \<in> set ''/@#?:''"
  shows "c \<notin> set (escape mode s)"
proof
  assume "c \<in> set (escape mode s)"
  from escape_set [OF this] assms(1,2) have "c \<in> set ''%0123456789ABCDEF''" by (auto simp: list_all_iff)
  with assms(3) show False by auto
qed

lemma host_text: "c \<in> set ''/@#?'' \<Longrightarrow> c \<notin> set (escape EncodeHost s)"
  by (rule escape_text [OF reserved_escaped(1)]) auto

lemma user_text: "c \<in> set ''/@#?:'' \<Longrightarrow> c \<notin> set (escape EncodeUserPassword s)"
  by (rule escape_text [OF reserved_escaped(2)]) auto

lemma path_text:
  assumes "c \<in> set ''#?''"
  shows "c \<notin> set (escapedPath u)"
proof -
  have "c \<notin> set (escape EncodePath (url_Path u))" using assms by (intro escape_text [OF reserved_escaped(3)]) auto
  moreover have "c \<notin> set (url_RawPath u)" if "validEncoded EncodePath (url_RawPath u)"
  proof -
    have "shouldEscape EncodePath c" using reserved_escaped(3) assms unfolding list_all_iff by blast
    moreover have "c \<notin> set ''!$&()*+,;=:@[]%''" "c \<noteq> CHR 0x27" using assms by auto
    ultimately show ?thesis using that unfolding validEncoded_def list_all_iff by blast
  qed
  moreover have "c \<notin> set ''*''" using assms by auto
  ultimately show ?thesis by (simp add: escapedPath_def)
qed

lemma escapedPath_decodes: "unescape EncodePath (escapedPath u) = Some (url_Path u)"
  by (auto simp: escapedPath_def unescape_escape)

lemma lastIndexByte_notin: "c \<notin> set s \<Longrightarrow> lastIndexByte c s = None"
  by (induction s) auto

lemma lastIndexByte_append: "c \<notin> set t \<Longrightarrow> lastIndexByte c (s @ c # t) = Some (length s)"
  by (induction s) (simp_all add: lastIndexByte_notin)

lemma cutByte_notin: "c \<notin> set s \<Longrightarrow> cutByte c s = (s, [])"
  by (induction s) (auto simp: cutByte_def)

lemma cutByte_append: "c \<notin> set s \<Longrightarrow> cutByte c (s @ c # t) = (s, t)"
  by (induction s) (auto simp: cutByte_def)

lemma indexStr_bound: "indexStr sub s = Some i \<Longrightarrow> i \<le> length s"
  by (induction s arbitrary: i) (auto split: if_splits)

lemma parseHost_decodes:
  assumes "parseHost s = Some h"
  shows "unescape EncodePath s = Some h"
proof -
  have pieces: "unescape EncodePath s = Some (h1 @ h2 @ h3)"
    if "indexStr ''%25'' (take i s) = Some zone" "unescape EncodeHost (take zone s) = Some h1" "unescape EncodeZone (drop zone (take i s)) = Some h2"
      "unescape EncodeHost (drop i s) = Some h3" for zone i h1 h2 h3
  proof -
    have "take zone s @ drop zone (take i s) @ drop i s = s"
      using indexStr_bound [OF that(1)] by (metis append_assoc append_take_drop_id min.absorb1 min.bounded_iff length_take take_take)
    with unescape_concat [OF that(2) unescape_concat [OF that(3,4)]] show ?thesis by simp
  qed
  from assms show ?thesis
    unfolding parseHost_def
    by (auto split: if_splits option.splits intro: unescape_plain dest: pieces)
qed

lemma parseHost_escaped: "parseHost (escape EncodeHost s) = Some h \<Longrightarrow> h = s"
  using parseHost_decodes unescape_escape by fastforce

lemma unescape_escaped: "unescape mode (escape mode' s) = Some t \<Longrightarrow> t = s"
  using unescape_plain unescape_escape by fastforce

lemma parseUserinfo_string:
  assumes "parseUserinfo (userString ui) = Some ui'"
  shows "ui' = ui"
proof (cases ui)
  case (Userinfo name password)
  show ?thesis
  proof (cases password)
    case None
    with Userinfo assms user_text [of "CHR '':''" name] show ?thesis
      by (auto simp: parseUserinfo_def userString_def split: if_splits dest: unescape_escaped)
  next
    case (Some p)
    with Userinfo have "cutByte (CHR '':'') (userString ui) = (escape EncodeUserPassword name, escape EncodeUserPassword p)"
      using user_text [of "CHR '':''" name] by (simp add: userString_def cutByte_append)
    with Userinfo Some assms show ?thesis
      by (auto simp: parseUserinfo_def userString_def split: if_splits option.splits dest!: unescape_escaped)
  qed
qed

lemma userString_text: "c \<in> set ''/@#?'' \<Longrightarrow> c \<notin> set (userString ui)"
  using user_text [of c] by (cases ui) (auto simp: userString_def split: option.splits)

lemma parseAuthority_string:
  assumes "parseAuthority (authorityString u) = Some (user, host)"
  shows "user = url_User u \<and> host = url_Host u"
proof (cases "url_User u")
  case None
  with assms show ?thesis
    by (auto simp: parseAuthority_def authorityString_def lastIndexByte_notin host_text dest: parseHost_escaped)
next
  case (Some ui)
  let ?h = "escape EncodeHost (url_Host u)"
  have "lastIndexByte (CHR ''@'') (userString ui @ CHR ''@'' # ?h) = Some (length (userString ui))"
    by (simp add: lastIndexByte_append host_text)
  with Some assms show ?thesis
    by (auto simp: parseAuthority_def authorityString_def split: option.splits
        dest: parseHost_escaped parseUserinfo_string)
qed

lemma authority_text: "c \<in> set ''/#?'' \<Longrightarrow> c \<notin> set (authorityString u)"
  using host_text [of c] userString_text [of c] by (auto simp: authorityString_def split: option.splits)

text \<open>A scheme as the parser leaves it.\<close>

definition schemeChar :: "char \<Rightarrow> bool" where
  "schemeChar c \<longleftrightarrow> isLetter c \<or> isDigit c \<or> c \<in> set ''+-.''"

definition validScheme :: "string \<Rightarrow> bool" where
  "validScheme s \<longleftrightarrow> s \<noteq> [] \<and> isLetter (hd s) \<and> list_all schemeChar s \<and> toLower s = s"

lemma schemeChar_not: "\<not> schemeChar (CHR '':'')" "\<not> schemeChar (CHR ''#'')"
  by (simp_all add: schemeChar_def isLetter_def isDigit_def)

lemma schemeLoop_append:
  "list_all schemeChar s \<Longrightarrow> seen \<noteq> [] \<Longrightarrow>
   schemeLoop raw seen (s @ CHR '':'' # rest) = Some (seen @ s, rest)"
proof (induction s arbitrary: seen)
  case Nil
  then show ?case using schemeChar_not(1) by (simp add: schemeChar_def)
qed (auto simp: schemeChar_def)

lemma getScheme_append: "validScheme s \<Longrightarrow> getScheme (s @ CHR '':'' # rest) = Some (s, rest)"
  by (cases s) (auto simp: getScheme_def validScheme_def schemeLoop_append)

text \<open>The path as it is printed below a host.\<close>

definition slashedPath :: "string \<Rightarrow> string" where
  "slashedPath p = (if p \<noteq> [] \<and> hd p \<noteq> CHR ''/'' then ''/'' @ p else p)"

definition queryString :: "url \<Rightarrow> string" where
  "queryString u = (if url_ForceQuery u \<or> url_RawQuery u \<noteq> [] then ''?'' @ url_RawQuery u else [])"

lemma renderURL_host:
  assumes "url_Scheme u \<noteq> []" "url_Host u \<noteq> []" "url_Opaque u = []"
  shows "renderURL u = url_Scheme u @ CHR '':'' # (''//'' @ authorityString u @ slashedPath (escapedPath u)) @ queryString u @
           (if url_Fragment u \<noteq> [] then ''#'' @ escapedFragment u else [])"
  using assms by (simp add: renderURL_def hierarchyString_def slashedPath_def queryString_def Let_def)

definition rootedRaw :: "string \<Rightarrow> bool" where
  "rootedRaw p \<longleftrightarrow> p = [] \<or> hd p = CHR ''/''"

lemma unescape_rooted: "unescape mode (CHR ''/'' # s) = Some t \<Longrightarrow> t \<noteq> [] \<and> hd t = CHR ''/''"
  by (auto split: if_splits)

lemma slashed_decodes:
  assumes "rootedRaw (url_RawPath u)"
  shows "unescape EncodePath (slashedPath (escapedPath u)) = Some (slashedPath (url_Path u))"
proof -
  note dec = escapedPath_decodes [of u]
  consider (raw) r where "escapedPath u = CHR ''/'' # r" | (star) "escapedPath u = ''*''" "url_Path u = ''*''"
    | (esc) "escapedPath u = escape EncodePath (url_Path u)"
  proof -
    have "escapedPath u = url_RawPath u \<and> url_RawPath u \<noteq> [] \<or> escapedPath u = ''*'' \<and> url_Path u = ''*'' \<or>
        escapedPath u = escape EncodePath (url_Path u)" by (simp add: escapedPath_def)
    then show thesis using assms raw star esc unfolding rootedRaw_def by (cases "url_RawPath u") auto
  qed
  then show ?thesis
  proof cases
    case raw
    with dec unescape_rooted [of EncodePath r "url_Path u"] show ?thesis by (simp add: slashedPath_def)
  next
    case star
    then show ?thesis by (simp add: slashedPath_def)
  next
    case esc
    show ?thesis
    proof (cases "url_Path u")
      case (Cons c p)
      have "\<not> shouldEscape EncodePath (CHR ''/'')" by (simp add: shouldEscape_def isLetter_def isDigit_def)
      then have "escapedPath u \<noteq> []" "hd (escapedPath u) = CHR ''/'' \<longleftrightarrow> c = CHR ''/''"
        using Cons esc by (auto simp: escape_def escapeByte_def)
      with Cons dec show ?thesis by (simp add: slashedPath_def)
    qed (simp add: esc escape_def slashedPath_def)
  qed
qed

lemma while_notin:
  assumes "c \<notin> set s"
  shows "takeWhile (\<lambda>x. x \<noteq> c) (s @ t) = s @ takeWhile (\<lambda>x. x \<noteq> c) t" "dropWhile (\<lambda>x. x \<noteq> c) (s @ t) = dropWhile (\<lambda>x. x \<noteq> c) t"
  using assms by (induction s) auto

lemma slashedPath_rooted: "slashedPath p = [] \<or> (\<exists>r. slashedPath p = CHR ''/'' # r)"
  by (cases p) (auto simp: slashedPath_def)

lemma cutQuery_append:
  assumes "CHR ''?'' \<notin> set s"
  shows "cutQuery s = (s, False, [])" "cutQuery (s @ CHR ''?'' # q) = (s, q = [], q)"
proof -
  have "count_list (s @ CHR ''?'' # q) (CHR ''?'') = Suc (count_list q (CHR ''?''))"
    using assms by (simp add: count_list_append)
  moreover have "q = [] \<or> CHR ''?'' \<in> set q" if "hasSuffix (s @ CHR ''?'' # q) ''?''"
    using that by (cases q rule: rev_cases) (auto simp: hasSuffix_def)
  ultimately show "cutQuery (s @ CHR ''?'' # q) = (s, q = [], q)"
    using assms by (auto simp: cutQuery_def cutByte_append hasSuffix_def count_list_0_iff)
  have "\<not> hasSuffix s ''?''" using assms by (cases s rule: rev_cases) (auto simp: hasSuffix_def)
  with assms show "cutQuery s = (s, False, [])" by (simp add: cutQuery_def cutByte_notin)
qed

text \<open>What is printed between scheme and query, and how the parser takes it apart.\<close>

definition hierText :: "url \<Rightarrow> string" where
  "hierText u = ''//'' @ authorityString u @ slashedPath (escapedPath u)"

lemma hierText_clean: "c \<in> set ''#?'' \<Longrightarrow> c \<notin> set (hierText u)"
  using authority_text [of c u] path_text [of c u] by (auto simp: hierText_def slashedPath_def)

lemma hierText_parts:
  "takeWhile (\<lambda>c. c \<noteq> CHR ''/'') (drop 2 (hierText u)) = authorityString u"
  "dropWhile (\<lambda>c. c \<noteq> CHR ''/'') (drop 2 (hierText u)) = slashedPath (escapedPath u)"
proof -
  have "CHR ''/'' \<notin> set (authorityString u)" by (rule authority_text) simp
  note while_notin [OF this, of "slashedPath (escapedPath u)"]
  moreover have "drop 2 (hierText u) = authorityString u @ slashedPath (escapedPath u)" by (simp add: hierText_def)
  ultimately show "takeWhile (\<lambda>c. c \<noteq> CHR ''/'') (drop 2 (hierText u)) = authorityString u"
    "dropWhile (\<lambda>c. c \<noteq> CHR ''/'') (drop 2 (hierText u)) = slashedPath (escapedPath u)"
    using slashedPath_rooted [of "escapedPath u"] by auto
qed

lemma rendered_before_fragment:
  assumes "validScheme (url_Scheme u)" "url_Host u \<noteq> []" "url_Opaque u = []"
  shows "takeWhile (\<lambda>c. c \<noteq> CHR ''#'') (renderURL u) =
           url_Scheme u @ CHR '':'' # hierText u @ takeWhile (\<lambda>c. c \<noteq> CHR ''#'') (queryString u)"
proof -
  let ?hash = "CHR ''#''" and ?frag = "if url_Fragment u \<noteq> [] then ''#'' @ escapedFragment u else []"
  have scheme: "url_Scheme u \<noteq> []" "?hash \<notin> set (url_Scheme u)"
    using assms(1) schemeChar_not(2) unfolding validScheme_def list_all_iff by blast+
  have nohash: "?hash \<notin> set (url_Scheme u @ CHR '':'' # hierText u)" using scheme(2) hierText_clean [of ?hash] by simp
  have cut: "takeWhile (\<lambda>c. c \<noteq> ?hash) (s @ (if b then ''#'' @ t else [])) = takeWhile (\<lambda>c. c \<noteq> ?hash) s" for s b t
    by (induction s) simp_all
  have "renderURL u = (url_Scheme u @ CHR '':'' # hierText u) @ queryString u @ ?frag"
    using renderURL_host [OF scheme(1) assms(2,3)] by (simp add: hierText_def)
  then show ?thesis by (simp only: while_notin(1) [OF nohash] cut) simp
qed

lemma cutQuery_rendered:
  "\<exists>force. cutQuery (hierText u @ takeWhile (\<lambda>c. c \<noteq> CHR ''#'') (queryString u)) =
     (hierText u, force, takeWhile (\<lambda>c. c \<noteq> CHR ''#'') (url_RawQuery u))"
  using cutQuery_append [OF hierText_clean [of "CHR ''?''" u]] by (auto simp: queryString_def)

lemma parseHierarchy_rendered:
  assumes "parseHierarchy (hierText u) x = Some w" "rootedRaw (url_RawPath u)" "url_Scheme x \<noteq> []"
  shows "url_Scheme w = url_Scheme x \<and> url_User w = url_User u \<and> url_Host w = url_Host u \<and>
         url_Path w = slashedPath (url_Path u) \<and> url_RawQuery w = url_RawQuery x"
proof -
  have "hasPrefix (hierText u) ''/''" "hasPrefix (hierText u) ''//''" by (simp_all add: hierText_def)
  then obtain user host where a: "parseAuthority (authorityString u) = Some (user, host)" and
    p: "setPath (slashedPath (escapedPath u)) (x\<lparr>url_User := user, url_Host := host\<rparr>) = Some w"
    using assms(1,3) by (auto simp: parseHierarchy_def Let_def hierText_parts split: option.splits)
  from p slashed_decodes [OF assms(2)] parseAuthority_string [OF a] show ?thesis by (auto simp: setPath_def)
qed

text \<open>
  A printed URL with a host, if it parses at all, parses to the same scheme, user and host, to the same
  path (below the root), and to the query up to its first \<^verbatim>\<open>#\<close>.
\<close>

lemma parse_rendered:
  assumes "validScheme (url_Scheme u)" "url_Host u \<noteq> []" "url_Opaque u = []" "rootedRaw (url_RawPath u)"
    and "parseURL (renderURL u) = Some v"
  shows "url_Scheme v = url_Scheme u \<and> url_User v = url_User u \<and> url_Host v = url_Host u \<and>
         url_Path v = slashedPath (url_Path u) \<and> url_RawQuery v = takeWhile (\<lambda>c. c \<noteq> CHR ''#'') (url_RawQuery u)"
proof -
  let ?q = "takeWhile (\<lambda>c. c \<noteq> CHR ''#'')"
  have scheme: "url_Scheme u \<noteq> []" "toLower (url_Scheme u) = url_Scheme u" using assms(1) by (auto simp: validScheme_def)
  obtain f w where w: "parseNoFragment (url_Scheme u @ CHR '':'' # hierText u @ ?q (queryString u)) = Some w"
    "v = w \<or> setFragment f w = Some v"
    using assms(5) rendered_before_fragment [OF assms(1-3)] unfolding parseURL_def cutByte_def
    by (auto split: option.splits if_splits)
  obtain force where "cutQuery (hierText u @ ?q (queryString u)) = (hierText u, force, ?q (url_RawQuery u))"
    using cutQuery_rendered by blast
  moreover have "url_Scheme u @ CHR '':'' # hierText u @ ?q (queryString u) \<noteq> ''*''"
    using scheme(1) by (cases "url_Scheme u") auto
  ultimately have "parseHierarchy (hierText u) (emptyURL\<lparr>url_Scheme := url_Scheme u, url_ForceQuery := force,
      url_RawQuery := ?q (url_RawQuery u)\<rparr>) = Some w"
    using w(1) getScheme_append [OF assms(1)] scheme(2) by (simp add: parseNoFragment_def split: if_splits)
  from parseHierarchy_rendered [OF this assms(4)] scheme(1) w(2) show ?thesis
    by (auto simp: setFragment_def split: option.splits)
qed

section \<open>What parsing establishes\<close>

lemma lower_scheme:
  assumes "s \<noteq> []" "isLetter (hd s)" "list_all schemeChar s"
  shows "validScheme (toLower s)"
proof -
  have letter: "isLetter (lowerChar c) \<and> lowerChar (lowerChar c) = lowerChar c" if "isLetter c" for c
  proof -
    have "list_all (\<lambda>c. isLetter (lowerChar c) \<and> lowerChar (lowerChar c) = lowerChar c)
        ''abcdefghijklmnopqrstuvwxyzABCDEFGHIJKLMNOPQRSTUVWXYZ''" by code_simp
    with that show ?thesis unfolding isLetter_def list_all_iff by blast
  qed
  have other: "lowerChar c = c" if "schemeChar c" "\<not> isLetter c" for c
  proof -
    have "list_all (\<lambda>c. lowerChar c = c) ''0123456789+-.''" by code_simp
    moreover have "c \<in> set ''0123456789+-.''" using that unfolding schemeChar_def isDigit_def by auto
    ultimately show ?thesis unfolding list_all_iff by blast
  qed
  have "schemeChar (lowerChar c) \<and> lowerChar (lowerChar c) = lowerChar c" if "schemeChar c" for c
    using letter [of c] other [of c] that by (cases "isLetter c") (auto simp: schemeChar_def)
  with assms letter show ?thesis
    unfolding validScheme_def toLower_def list_all_iff by (simp add: hd_map)
qed

lemma schemeLoop_valid:
  assumes "schemeLoop raw seen cs = Some (s, rest)" "s \<noteq> []"
    "seen \<noteq> [] \<longrightarrow> isLetter (hd seen)" "list_all schemeChar seen"
  shows "validScheme (toLower s)"
  using assms
proof (induction raw seen cs rule: schemeLoop.induct)
  case (2 raw seen c cs)
  show ?case
  proof (cases "schemeChar c")
    case True
    with "2.prems" "2.IH" show ?thesis unfolding schemeChar_def by (cases "seen = []") (auto split: if_splits)
  next
    case False
    then have "\<not> isLetter c" "\<not> isDigit c" "c \<notin> set ''+-.''" by (auto simp: schemeChar_def)
    with "2.prems" show ?thesis by (intro lower_scheme) (auto split: if_splits)
  qed
qed simp

text \<open>A URL with scheme and host that was parsed.\<close>

definition hostURL :: "url \<Rightarrow> bool" where
  "hostURL u \<longleftrightarrow> validScheme (url_Scheme u) \<and> url_Host u \<noteq> [] \<and> url_Opaque u = [] \<and> rootedRaw (url_RawPath u)"

lemma setPath_shape:
  assumes "setPath p x = Some w"
  shows "url_Scheme w = url_Scheme x" "url_Opaque w = url_Opaque x" "url_Host w = url_Host x" "rootedRaw p \<Longrightarrow> rootedRaw (url_RawPath w)"
  using assms by (auto simp: setPath_def rootedRaw_def split: option.splits)

lemma parseHierarchy_host:
  assumes "parseHierarchy path x = Some w" "url_Host w \<noteq> []" "url_Host x = []" "url_Opaque x = []"
  shows "url_Scheme w = url_Scheme x \<and> url_Opaque w = [] \<and> rootedRaw (url_RawPath w)"
proof -
  have rooted: "rootedRaw (dropWhile (\<lambda>c. c \<noteq> CHR ''/'') p)" for p
    unfolding rootedRaw_def using hd_dropWhile [of "\<lambda>c. c \<noteq> CHR ''/''" p] by blast
  have "w = x\<lparr>url_Opaque := path\<rparr> \<or>
      (\<exists>user host. setPath (dropWhile (\<lambda>c. c \<noteq> CHR ''/'') (drop 2 path)) (x\<lparr>url_User := user, url_Host := host\<rparr>) = Some w) \<or>
      setPath path (x\<lparr>url_OmitHost := True\<rparr>) = Some w \<or> setPath path x = Some w"
    using assms(1) unfolding parseHierarchy_def Let_def by (auto split: if_split_asm option.split_asm)
  with assms(2,3) obtain user host where
    "setPath (dropWhile (\<lambda>c. c \<noteq> CHR ''/'') (drop 2 path)) (x\<lparr>url_User := user, url_Host := host\<rparr>) = Some w"
    by (auto dest: setPath_shape(3))
  from setPath_shape [OF this] rooted assms(4) show ?thesis by simp
qed

lemma parsed_hostURL:
  assumes "parseURL s = Some u" "url_Scheme u \<noteq> []" "url_Host u \<noteq> []"
  shows "hostURL u"
proof -
  obtain f raw w where w: "parseNoFragment raw = Some w" "u = w \<or> setFragment f w = Some u"
    using assms(1) by (auto simp: parseURL_def split: option.splits if_splits prod.splits)
  have same: "url_Scheme w = url_Scheme u" "url_Host w = url_Host u" "url_Opaque w = url_Opaque u"
    "url_RawPath w = url_RawPath u" using w(2) by (auto simp: setFragment_def split: option.splits)
  have "raw \<noteq> ''*''" using w(1) same(2) assms(3) by (auto simp: parseNoFragment_def emptyURL_def split: if_splits)
  then obtain scheme rest path force query where
    g: "getScheme raw = Some (scheme, rest)" and
    h: "parseHierarchy path (emptyURL\<lparr>url_Scheme := toLower scheme, url_ForceQuery := force, url_RawQuery := query\<rparr>) = Some w"
    using w(1) unfolding parseNoFragment_def by (auto split: if_split_asm option.split_asm prod.split_asm)
  have shape: "url_Scheme w = toLower scheme \<and> url_Opaque w = [] \<and> rootedRaw (url_RawPath w)"
    using parseHierarchy_host [OF h] same(2) assms(3) by (simp add: emptyURL_def)
  with assms(2) same(1) have "scheme \<noteq> []" by (auto simp: toLower_def)
  with g have "validScheme (toLower scheme)" by (auto simp: getScheme_def intro: schemeLoop_valid)
  with shape same assms(3) show ?thesis by (simp add: hostURL_def)
qed

end
