(* ===== verification/GoFloat.thy ===== *)
theory GoFloat
  imports Prelude "HOL-Library.Log_Nat" "HOL-Library.Signed_Division"
begin

text \<open>
  Go's \<^verbatim>\<open>float64\<close> arithmetic on non-negative values, as the limiter uses it. A \<^verbatim>\<open>float64\<close> value is the
  rational number it stands for and an operation is the exact operation followed by
  \<^verbatim>\<open>fl64\<close>, rounding to the nearest number with a 53-bit significand, ties to even. Its exponent
  is not bounded: neither overflow to infinity nor the gradual underflow below \<open>2 ^ -1022\<close> is
  modelled (a refill that large is cut to the burst, one that small changes no decision). Where decimals are
  read and printed, \<^verbatim>\<open>roundFloat64\<close> has the exponent range of \<^verbatim>\<open>float64\<close> too.

  The locale \<^verbatim>\<open>float_rounding\<close> states what the limiter's proofs need of a rounding function;
  its interpretation shows that \<^verbatim>\<open>fl64\<close> has it, with a relative error of at most \<open>2 ^ -53\<close>.
\<close>

definition ilog2 :: "rat \<Rightarrow> int" where
  "ilog2 x =
     (case quotient_of x of (n, d) \<Rightarrow>
        let k = bitlen n - bitlen d in if 2 powi k \<le> x then k else k - 1)"

definition roundHalfEven :: "rat \<Rightarrow> int" where
  "roundHalfEven x =
     (let f = \<lfloor>x\<rfloor>; r = x - of_int f in
      if r < 1 / 2 then f else if r > 1 / 2 then f + 1 else if even f then f else f + 1)"

definition ulp64 :: "rat \<Rightarrow> rat" where
  "ulp64 x = 2 powi (ilog2 x - 52)"

definition fl64 :: "rat \<Rightarrow> rat" where
  "fl64 x = (if x \<le> 0 then 0 else of_int (roundHalfEven (x / ulp64 x)) * ulp64 x)"

text \<open>
  The conversion of a decimal to \<^verbatim>\<open>float64\<close> has the full range: below \<open>2 ^ -1022\<close> the spacing of the
  numbers stays \<open>2 ^ -1074\<close>, so that small values lose bits and the smallest become zero.
\<close>

definition minNormal :: rat where
  "minNormal = 2 powi (-1022)"

definition minUlp :: rat where
  "minUlp = 2 powi (-1074)"

definition roundFloat64 :: "rat \<Rightarrow> rat" where
  "roundFloat64 x =
     (if x \<le> 0 then 0 else let u = max (ulp64 x) minUlp in of_int (roundHalfEven (x / u)) * u)"

text \<open>
  \<^verbatim>\<open>Duration.Minutes\<close> of a duration in nanoseconds: whole minutes plus the rest, each converted.
  Integer division truncates.
\<close>

definition minutesOf :: "int \<Rightarrow> rat" where
  "minutesOf d =
     fl64 (fl64 (of_int (d sdiv 60000000000)) + fl64 (fl64 (of_int (d smod 60000000000)) / 60000000000))"

text \<open>\<^verbatim>\<open>Time.Sub\<close> saturates at the range of an \<^verbatim>\<open>int64\<close>.\<close>

definition timeSub :: "int \<Rightarrow> int \<Rightarrow> int" where
  "timeSub t u = max (- (2 ^ 63)) (min (2 ^ 63 - 1) (t - u))"

section \<open>Rounding functions\<close>

locale float_rounding =
  fixes rnd :: "rat \<Rightarrow> rat" and eps :: rat
  assumes eps_nonneg: "0 \<le> eps"
    and rnd_mono: "x \<le> y \<Longrightarrow> rnd x \<le> rnd y"
    and rnd_idem: "rnd (rnd x) = rnd x"
    and rnd_0: "rnd 0 = 0"
    and rnd_1: "rnd 1 = 1"
    and rnd_upper: "0 \<le> x \<Longrightarrow> rnd x \<le> x + eps * x"
begin

lemma rnd_nonneg: "0 \<le> x \<Longrightarrow> 0 \<le> rnd x"
  using rnd_mono [of 0 x] by (simp add: rnd_0)

lemma rnd_ge_1: "1 \<le> x \<Longrightarrow> 1 \<le> rnd x"
  using rnd_mono [of 1 x] by (simp add: rnd_1)

lemma rnd_add_ge: "rnd x = x \<Longrightarrow> 0 \<le> y \<Longrightarrow> x \<le> rnd (x + y)"
  using rnd_mono [of x "x + y"] by simp

lemma rnd_diff_le: "rnd x = x \<Longrightarrow> 0 \<le> y \<Longrightarrow> rnd (x - y) \<le> x"
  using rnd_mono [of "x - y" x] by simp

text \<open>Cutting at a bound keeps the rounding error of a sum proportional to the bound.\<close>

lemma rnd_capped_sum:
  assumes "0 \<le> x" and "0 \<le> y" and "0 \<le> b"
  shows "min b (rnd (x + y)) \<le> x + y + eps * b"
proof (cases "x + y \<le> b")
  case True
  have "rnd (x + y) \<le> x + y + eps * (x + y)" using assms by (simp add: rnd_upper)
  also have "\<dots> \<le> x + y + eps * b" using True eps_nonneg by (simp add: mult_left_mono)
  finally show ?thesis by simp
next
  case False
  moreover have "0 \<le> eps * b" using assms eps_nonneg by simp
  ultimately show ?thesis by simp
qed

end

section \<open>The laws of float64 rounding\<close>

lemma p2_pos [simp]: "0 < (2::rat) powi k"
  by simp

lemma p2_mono: "j \<le> k \<Longrightarrow> (2::rat) powi j \<le> 2 powi k"
  by (simp add: power_int_increasing)

lemma p2_less_imp: "(2::rat) powi j < 2 powi k \<Longrightarrow> j < k"
  by (meson not_less p2_mono)

lemma bitlen_rat_bounds:
  assumes "0 < n"
  shows "(2::rat) powi (bitlen n - 1) \<le> of_int n" and "of_int n < (2::rat) powi (bitlen n)"
proof -
  have b: "0 \<le> bitlen n - 1" using assms bitlen_nonneg [of n] bitlen_eq_zero_iff [of n] by linarith
  have "2 ^ nat (bitlen n - 1) \<le> n" "n < 2 ^ nat (bitlen n)" using bitlen_bounds [OF assms] by auto
  then have "(of_int (2 ^ nat (bitlen n - 1)) :: rat) \<le> of_int n" "(of_int n :: rat) < of_int (2 ^ nat (bitlen n))"
    by (simp_all only: of_int_le_iff of_int_less_iff)
  then show "(2::rat) powi (bitlen n - 1) \<le> of_int n" and "of_int n < (2::rat) powi (bitlen n)"
    using b by (simp_all add: power_int_def)
qed

lemma ilog2_bounds:
  assumes x: "0 < x"
  shows "2 powi (ilog2 x) \<le> x" and "x < 2 powi (ilog2 x + 1)"
proof -
  obtain n d where q: "quotient_of x = (n, d)" by (cases "quotient_of x")
  then have d: "0 < d" and xnd: "x = of_int n / of_int d"
    using quotient_of_denom_pos quotient_of_div by auto
  have n: "0 < n" using x d xnd by (simp add: zero_less_divide_iff)
  note bn = bitlen_rat_bounds [OF n] and bd = bitlen_rat_bounds [OF d]
  let ?k = "bitlen n - bitlen d"
  have "2 powi (bitlen n - 1) / 2 powi (bitlen d) \<le> x"
    unfolding xnd using bn(1) bd(2) d n by (intro frac_le) auto
  then have lo: "2 powi (?k - 1) \<le> x" by (simp add: power_int_diff power_int_add)
  have "x < 2 powi (bitlen n) / 2 powi (bitlen d - 1)"
    unfolding xnd using bn(2) bd(1) d n by (intro frac_less) auto
  then have hi: "x < 2 powi (?k + 1)" by (simp add: power_int_diff power_int_add)
  show "2 powi (ilog2 x) \<le> x" "x < 2 powi (ilog2 x + 1)"
    using lo hi by (auto simp: ilog2_def q Let_def)
qed

lemma ilog2_mono: "0 < x \<Longrightarrow> x \<le> y \<Longrightarrow> ilog2 x \<le> ilog2 y"
proof -
  assume "0 < x" "x \<le> y"
  then have "(2::rat) powi (ilog2 x) < 2 powi (ilog2 y + 1)"
    using ilog2_bounds(1) [of x] ilog2_bounds(2) [of y] by linarith
  then show ?thesis using p2_less_imp by fastforce
qed

lemma ilog2_unique: "2 powi k \<le> x \<Longrightarrow> x < 2 powi (k + 1) \<Longrightarrow> ilog2 x = k"
proof -
  assume k: "2 powi k \<le> x" "x < 2 powi (k + 1)"
  then have x: "0 < x" using p2_pos [of k] by linarith
  have "(2::rat) powi k < 2 powi (ilog2 x + 1)" "(2::rat) powi (ilog2 x) < 2 powi (k + 1)"
    using k ilog2_bounds [OF x] by linarith+
  then have "k < ilog2 x + 1" "ilog2 x < k + 1" by (blast dest: p2_less_imp)+
  then show ?thesis by simp
qed

lemma roundHalfEven_mono: "x \<le> y \<Longrightarrow> roundHalfEven x \<le> roundHalfEven y"
proof -
  assume xy: "x \<le> y"
  then have "\<lfloor>x\<rfloor> \<le> \<lfloor>y\<rfloor>" by (rule floor_mono)
  moreover have "roundHalfEven x \<le> \<lfloor>x\<rfloor> + 1" "\<lfloor>y\<rfloor> \<le> roundHalfEven y"
    by (auto simp: roundHalfEven_def Let_def)
  ultimately show ?thesis
    using xy by (cases "\<lfloor>x\<rfloor> = \<lfloor>y\<rfloor>") (auto simp: roundHalfEven_def Let_def)
qed

lemma roundHalfEven_of_int [simp]: "roundHalfEven (of_int n) = n"
  by (simp add: roundHalfEven_def)

lemma roundHalfEven_error: "of_int (roundHalfEven x) \<le> x + 1 / 2"
  unfolding roundHalfEven_def Let_def by (auto; linarith)

lemma ulp64_pos [simp]: "0 < ulp64 x"
  by (simp add: ulp64_def)

lemma ulp64_nonzero [simp]: "ulp64 x \<noteq> 0"
  by (simp add: ulp64_def)

lemma fl64_integral: "0 < x \<Longrightarrow> x / ulp64 x = of_int j \<Longrightarrow> fl64 x = x"
  by (simp add: fl64_def) (metis nonzero_divide_eq_eq ulp64_pos less_irrefl)

text \<open>A number with at most 53 significant bits is a fixed point.\<close>

lemma fl64_exact:
  assumes m: "0 < m" "m \<le> 2 ^ 53"
  shows "fl64 (of_int m * 2 powi e) = of_int m * 2 powi e"
proof -
  let ?x = "of_int m * (2::rat) powi e"
  let ?k = "ilog2 ?x - 52"
  have x: "0 < ?x" using m by simp
  have div: "?x / ulp64 ?x = of_int m * 2 powi (e - ?k)"
    by (simp add: ulp64_def power_int_diff)
  show ?thesis
  proof (cases "?k \<le> e")
    case True
    then have "(2::rat) powi (e - ?k) = of_int (2 ^ nat (e - ?k))" by (simp add: power_int_def)
    with div have "?x / ulp64 ?x = of_int (m * 2 ^ nat (e - ?k))" by simp
    with x show ?thesis by (rule fl64_integral)
  next
    case False
    then have "(2::rat) powi (e + 53) \<le> 2 powi (ilog2 ?x)" by (intro p2_mono) simp
    then have "(2::rat) powi (e + 53) \<le> ?x" using ilog2_bounds(1) [OF x] by linarith
    then have "of_int (2 ^ 53) \<le> (of_int m :: rat)" by (simp add: power_int_add)
    then have "2 ^ 53 \<le> m" by (simp only: of_int_le_iff)
    then have "m = 2 ^ 53" using m(2) by (rule order_antisym [rotated])
    moreover from this have "ilog2 ?x = e + 53"
      by (intro ilog2_unique) (simp_all add: power_int_add)
    ultimately have "?x / ulp64 ?x = of_int (2 ^ 52)" unfolding div by (simp add: power_int_add)
    with x show ?thesis by (rule fl64_integral)
  qed
qed

text \<open>A rounded positive number is a significand in the normal range times its unit.\<close>

lemma fl64_significand:
  assumes x: "0 < x"
  obtains j where "fl64 x = of_int j * ulp64 x" "2 ^ 52 \<le> j" "j \<le> 2 ^ 53"
proof
  let ?j = "roundHalfEven (x / ulp64 x)"
  show "fl64 x = of_int ?j * ulp64 x" using x by (simp add: fl64_def)
  have u: "2 ^ 52 * ulp64 x = 2 powi (ilog2 x)" "2 ^ 53 * ulp64 x = 2 powi (ilog2 x + 1)"
    by (simp_all add: ulp64_def power_int_diff power_int_add)
  have "of_int (2 ^ 52) \<le> x / ulp64 x"
    using ilog2_bounds(1) [OF x] u(1) by (simp add: pos_le_divide_eq)
  from roundHalfEven_mono [OF this] show "2 ^ 52 \<le> ?j" by (simp only: roundHalfEven_of_int)
  have "x / ulp64 x \<le> of_int (2 ^ 53)"
    using ilog2_bounds(2) [OF x] u(2) by (simp add: pos_divide_le_eq)
  from roundHalfEven_mono [OF this] show "?j \<le> 2 ^ 53" by (simp only: roundHalfEven_of_int)
qed

lemma fl64_range:
  assumes "0 < x"
  shows "2 powi (ilog2 x) \<le> fl64 x" and "fl64 x \<le> 2 powi (ilog2 x + 1)"
proof -
  obtain j where j: "fl64 x = of_int j * ulp64 x" "2 ^ 52 \<le> j" "j \<le> 2 ^ 53"
    using fl64_significand [OF assms] .
  have u: "2 ^ 52 * ulp64 x = 2 powi (ilog2 x)" "2 ^ 53 * ulp64 x = 2 powi (ilog2 x + 1)"
    by (simp_all add: ulp64_def power_int_diff power_int_add)
  have "of_int (2 ^ 52) * ulp64 x \<le> of_int j * ulp64 x" "of_int j * ulp64 x \<le> of_int (2 ^ 53) * ulp64 x"
    using j(2,3) by (simp_all only: mult_right_mono of_int_le_iff ulp64_pos [THEN less_imp_le])
  then show "2 powi (ilog2 x) \<le> fl64 x" "fl64 x \<le> 2 powi (ilog2 x + 1)"
    using u j(1) by (simp_all only: of_int_power of_int_numeral)
qed

lemma fl64_nonneg: "0 \<le> fl64 x"
  using fl64_range(1) [of x] p2_pos [of "ilog2 x"] by (cases "0 < x") (linarith, simp add: fl64_def)

lemma fl64_mono: "x \<le> y \<Longrightarrow> fl64 x \<le> fl64 y"
proof -
  assume xy: "x \<le> y"
  consider "x \<le> 0" | "0 < x" "ilog2 x = ilog2 y" | "0 < x" "ilog2 x \<noteq> ilog2 y" by fastforce
  then show ?thesis
  proof cases
    case 1
    then show ?thesis using fl64_nonneg [of y] by (simp add: fl64_def [of x])
  next
    case 2
    then have "ulp64 x = ulp64 y" by (simp add: ulp64_def)
    moreover have "roundHalfEven (x / ulp64 y) \<le> roundHalfEven (y / ulp64 y)"
      using xy by (intro roundHalfEven_mono divide_right_mono) (auto simp: less_imp_le)
    ultimately show ?thesis
      using 2 xy by (simp add: fl64_def mult_right_mono less_imp_le)
  next
    case 3
    then have "ilog2 x + 1 \<le> ilog2 y" using ilog2_mono [OF _ xy] by simp
    then have "(2::rat) powi (ilog2 x + 1) \<le> 2 powi (ilog2 y)" by (rule p2_mono)
    then show ?thesis
      using fl64_range(2) [of x] fl64_range(1) [of y] 3 xy by linarith
  qed
qed

lemma fl64_idem: "fl64 (fl64 x) = fl64 x"
proof (cases "0 < x")
  case True
  then obtain j where j: "fl64 x = of_int j * ulp64 x" "2 ^ 52 \<le> j" "j \<le> 2 ^ 53"
    by (rule fl64_significand)
  then show ?thesis using fl64_exact [of j] by (simp add: ulp64_def)
qed (simp add: fl64_def)

lemma fl64_of_int: "0 \<le> n \<Longrightarrow> n \<le> 2 ^ 53 \<Longrightarrow> fl64 (of_int n) = of_int n"
  using fl64_exact [of n 0] by (cases "n = 0") (auto simp: fl64_def)

lemma fl64_upper:
  assumes "0 \<le> x"
  shows "fl64 x \<le> x + 1 / 2 ^ 53 * x"
proof (cases "0 < x")
  case True
  have "fl64 x \<le> (x / ulp64 x + 1 / 2) * ulp64 x"
    using True roundHalfEven_error [of "x / ulp64 x"] by (simp add: fl64_def mult_right_mono less_imp_le)
  also have "\<dots> = x + ulp64 x / 2"
    using ulp64_pos [of x] by (simp add: distrib_right)
  also have "ulp64 x = 1 / 2 ^ 52 * 2 powi (ilog2 x)"
    by (simp add: ulp64_def power_int_diff)
  also have "x + 1 / 2 ^ 52 * 2 powi (ilog2 x) / 2 \<le> x + 1 / 2 ^ 53 * x"
    using ilog2_bounds(1) [OF True] by simp
  finally show ?thesis .
qed (use assms in \<open>simp add: fl64_def\<close>)

text \<open>The full range: above the smallest normal number nothing changes, below it the spacing is fixed.\<close>

lemma minUlp_pos [simp]: "0 < minUlp"
  by (simp add: minUlp_def)

lemma minNormal_pos [simp]: "0 < minNormal"
  by (simp add: minNormal_def)

lemma minUlp_normal: "of_int (2 ^ 52) * minUlp = minNormal"
proof -
  have "(2::rat) powi (-1022) = 2 powi (52 + -1074)" by simp
  also have "\<dots> = 2 powi 52 * 2 powi (-1074)" by (rule power_int_add) simp
  finally show ?thesis by (simp only: minUlp_def minNormal_def) simp
qed

lemma ilog2_normal: "minNormal \<le> x \<Longrightarrow> -1022 \<le> ilog2 x"
proof -
  assume x: "minNormal \<le> x"
  then have "0 < x" using minNormal_pos by linarith
  then have "(2::rat) powi (-1022) < 2 powi (ilog2 x + 1)" using x ilog2_bounds(2) [of x] unfolding minNormal_def by linarith
  then have "-1022 < ilog2 x + 1" by (rule p2_less_imp)
  then show ?thesis by simp
qed

lemma ulp64_normal: "minNormal \<le> x \<Longrightarrow> minUlp \<le> ulp64 x"
  unfolding ulp64_def minUlp_def by (intro p2_mono) (use ilog2_normal in force)

lemma ulp64_subnormal: "0 < x \<Longrightarrow> x < minNormal \<Longrightarrow> ulp64 x \<le> minUlp"
proof -
  assume x: "0 < x" "x < minNormal"
  then have "(2::rat) powi (ilog2 x) < 2 powi (-1022)" using ilog2_bounds(1) [of x] unfolding minNormal_def by linarith
  then have "ilog2 x < -1022" by (rule p2_less_imp)
  then show ?thesis unfolding ulp64_def minUlp_def by (intro p2_mono) simp
qed

lemma roundFloat64_normal: "minNormal \<le> x \<Longrightarrow> roundFloat64 x = fl64 x"
  using ulp64_normal [of x] by (simp add: roundFloat64_def fl64_def max_def Let_def)

lemma roundFloat64_subnormal:
  "0 < x \<Longrightarrow> x < minNormal \<Longrightarrow> roundFloat64 x = of_int (roundHalfEven (x / minUlp)) * minUlp"
  using ulp64_subnormal [of x] by (simp add: roundFloat64_def max_absorb2 Let_def)

lemma roundHalfEven_nonneg: "0 \<le> x \<Longrightarrow> 0 \<le> roundHalfEven x"
  using roundHalfEven_mono [of 0 x] by (simp add: roundHalfEven_def)

lemma roundFloat64_nonneg: "0 \<le> roundFloat64 x"
proof (cases "0 < x")
  case True
  let ?u = "max (ulp64 x) minUlp"
  have u: "0 < ?u" by (simp add: less_max_iff_disj)
  then have "0 \<le> roundHalfEven (x / ?u)" using True by (intro roundHalfEven_nonneg divide_nonneg_pos) simp_all
  then have "0 \<le> of_int (roundHalfEven (x / ?u)) * ?u" using u by (intro mult_nonneg_nonneg) simp_all
  then show ?thesis using True by (simp add: roundFloat64_def Let_def)
qed (simp add: roundFloat64_def)

lemma roundFloat64_multiple:
  assumes "0 \<le> j" "j \<le> 2 ^ 52"
  shows "roundFloat64 (of_int j * minUlp) = of_int j * minUlp"
proof -
  consider "j = 0" | "0 < j" "of_int j * minUlp < minNormal" | "0 < j" "minNormal \<le> of_int j * minUlp"
    using assms(1) by fastforce
  then show ?thesis
  proof cases
    case 2
    have "of_int j * minUlp / minUlp = of_int j" using minUlp_pos by (simp del: minUlp_pos)
    then show ?thesis using 2 roundFloat64_subnormal [of "of_int j * minUlp"] by simp
  next
    case 3
    have "fl64 (of_int j * minUlp) = of_int j * minUlp" unfolding minUlp_def by (rule fl64_exact) (use 3 assms in simp_all)
    then show ?thesis using roundFloat64_normal [OF 3(2)] by simp
  qed (simp add: roundFloat64_def)
qed

lemma roundFloat64_idem: "roundFloat64 (roundFloat64 x) = roundFloat64 x"
proof -
  consider "x \<le> 0" | "minNormal \<le> x" | "0 < x" "x < minNormal" by linarith
  then show ?thesis
  proof cases
    case 2
    have "(2::rat) powi (-1022) \<le> 2 powi (ilog2 x)" using ilog2_normal [OF 2] by (rule p2_mono)
    moreover have "0 < x" using 2 minNormal_pos by linarith
    ultimately have "minNormal \<le> fl64 x" using fl64_range(1) [of x] unfolding minNormal_def by linarith
    then show ?thesis using roundFloat64_normal [OF 2] roundFloat64_normal [of "fl64 x"] by (simp add: fl64_idem)
  next
    case 3
    let ?j = "roundHalfEven (x / minUlp)"
    have "0 \<le> ?j" using 3(1) minUlp_pos by (intro roundHalfEven_nonneg divide_nonneg_pos) simp_all
    moreover have "x / minUlp \<le> of_int (2 ^ 52)" using 3(2) minUlp_normal minUlp_pos by (simp only: pos_divide_le_eq less_imp_le)
    from roundHalfEven_mono [OF this] have "?j \<le> 2 ^ 52" by (simp only: roundHalfEven_of_int)
    ultimately show ?thesis using roundFloat64_subnormal [OF 3] roundFloat64_multiple [of ?j] by simp
  qed (simp add: roundFloat64_def)
qed

interpretation f64: float_rounding fl64 "1 / 2 ^ 53"
proof unfold_locales
  show "fl64 0 = 0" "fl64 1 = 1"
    using fl64_of_int [of 0] fl64_of_int [of 1] by simp_all
  show "fl64 x \<le> x + 1 / 2 ^ 53 * x" if "0 \<le> x" for x
    using that by (rule fl64_upper)
qed (simp_all only: fl64_mono fl64_idem, simp)

text \<open>The converted duration against the exact one.\<close>

lemma minutesOf_div: "0 \<le> d \<Longrightarrow> minutesOf d =
    fl64 (fl64 (of_int (d div 60000000000)) + fl64 (fl64 (of_int (d mod 60000000000)) / 60000000000))"
  by (simp add: minutesOf_def signed_divide_int_def signed_modulo_int_def sgn_if minus_div_mult_eq_mod)

lemma minutesOf_nonneg: "0 \<le> d \<Longrightarrow> 0 \<le> minutesOf d"
  by (simp add: minutesOf_div fl64_nonneg)

lemma minutesOf_upper:
  assumes d: "0 \<le> d" "d < 2 ^ 63"
  shows "minutesOf d \<le> (1 + 1 / 2 ^ 53) ^ 2 * (of_int d / 60000000000)"
proof -
  let ?e = "1 / 2 ^ 53 :: rat"
  let ?m = "of_int (d div 60000000000) :: rat" and ?f = "of_int (d mod 60000000000) / 60000000000 :: rat"
  have e: "0 \<le> ?e" by simp
  have "d div 60000000000 \<le> 2 ^ 53" using d by simp
  then have m: "fl64 ?m = ?m" using d by (intro fl64_of_int) (simp_all add: pos_imp_zdiv_nonneg_iff)
  have "d mod 60000000000 \<le> 2 ^ 53" using pos_mod_bound [of 60000000000 d] by simp
  then have f: "fl64 (of_int (d mod 60000000000)) / 60000000000 = ?f"
    by (subst fl64_of_int) simp_all
  have f0: "0 \<le> ?f" and m0: "0 \<le> ?m" using d by (simp_all add: pos_imp_zdiv_nonneg_iff)
  have "fl64 ?f \<le> ?f + ?e * ?f" using f0 by (rule fl64_upper)
  moreover have "0 \<le> ?e * ?m" using e m0 by (rule mult_nonneg_nonneg)
  ultimately have s: "?m + fl64 ?f \<le> (1 + ?e) * (?m + ?f)" by (simp add: algebra_simps)
  have "minutesOf d = fl64 (?m + fl64 ?f)" using d by (simp add: minutesOf_div m f)
  also have "\<dots> \<le> (?m + fl64 ?f) + ?e * (?m + fl64 ?f)"
    using m0 fl64_nonneg [of ?f] by (intro fl64_upper) simp
  also have "\<dots> = (1 + ?e) * (?m + fl64 ?f)" by (simp add: algebra_simps)
  also have "\<dots> \<le> (1 + ?e) * ((1 + ?e) * (?m + ?f))"
    using s by (rule mult_left_mono) simp
  also have "?m + ?f = of_int d / 60000000000"
  proof -
    have "60000000000 * ?m + of_int (d mod 60000000000) =
          (of_int (60000000000 * (d div 60000000000) + d mod 60000000000) :: rat)"
      by (simp only: of_int_add of_int_mult of_int_numeral)
    also have "\<dots> = of_int d" by (simp only: mult_div_mod_eq)
    finally have eq: "60000000000 * ?m + of_int (d mod 60000000000) = of_int d" .
    show ?thesis unfolding eq [symmetric] by (simp add: add_divide_distrib)
  qed
  finally show ?thesis by (simp add: power2_eq_square mult.assoc)
qed

lemma timeSub_bounds: "u \<le> t \<Longrightarrow> 0 \<le> timeSub t u \<and> timeSub t u < 2 ^ 63 \<and> timeSub t u \<le> t - u"
  by (simp add: timeSub_def)

lemma timeSub_self [simp]: "timeSub t t = 0"
  by (simp add: timeSub_def)

end
