(* ===== verification/GoTime.thy ===== *)
theory GoTime
  imports GoNet GoFloat
begin

text \<open>
  \<^verbatim>\<open>time.ParseDuration\<close> as of Go 1.25.0, on 64-bit words as in the library: a sign, and terms of a number, with
  or without a fraction, and a unit. A text that is not a duration, or one that does not fit, gives \<open>None\<close>.
\<close>

abbreviation (input) half64 :: uint64 where "half64 \<equiv> 0x8000000000000000"

fun leadingInt :: "uint64 \<Rightarrow> string \<Rightarrow> (uint64 \<times> string) option" where
  "leadingInt x [] = Some (x, [])"
| "leadingInt x (c # s) =
     (if \<not> isDigit c then Some (x, c # s)
      else if x > half64 div 10 then None
      else let y = x * 10 + of_nat (digitVal c) in if y > half64 then None else leadingInt y s)"

text \<open>After an overflow the remaining digits of a fraction are skipped.\<close>

fun leadingFraction :: "uint64 \<Rightarrow> rat \<Rightarrow> bool \<Rightarrow> string \<Rightarrow> uint64 \<times> rat \<times> string" where
  "leadingFraction x scale overflow [] = (x, scale, [])"
| "leadingFraction x scale overflow (c # s) =
     (if \<not> isDigit c then (x, scale, c # s)
      else if overflow \<or> x > (half64 - 1) div 10 then leadingFraction x scale True s
      else
        let y = x * 10 + of_nat (digitVal c) in
        if y > half64 then leadingFraction x scale True s else leadingFraction y (fl64 (scale * 10)) False s)"

definition unitMap :: "(string \<times> int) list" where
  "unitMap =
     [(''ns'', 1), (''us'', 1000), ([CHR 0xC2, CHR 0xB5, CHR ''s''], 1000), ([CHR 0xCE, CHR 0xBC, CHR ''s''], 1000),
      (''ms'', 1000000), (''s'', 1000000000), (''m'', 60000000000), (''h'', 3600000000000)]"

definition unitChar :: "char \<Rightarrow> bool" where
  "unitChar c \<longleftrightarrow> c \<noteq> CHR ''.'' \<and> \<not> isDigit c"

text \<open>The value of one term: whole units, and the fraction by way of \<^verbatim>\<open>float64\<close>.\<close>

definition scaleTerm :: "uint64 \<Rightarrow> uint64 \<Rightarrow> rat \<Rightarrow> int \<Rightarrow> uint64 option" where
  "scaleTerm v f scale unit =
     (if v > half64 div of_int unit then None
      else
        let v1 = v * of_int unit in
        if f > 0 then
          let v2 = v1 + of_int \<lfloor>fl64 (fl64 (of_int (uint f)) * fl64 (of_int unit / scale))\<rfloor>
          in if v2 > half64 then None else Some v2
        else Some v1)"

definition parseTerm :: "string \<Rightarrow> (uint64 \<times> string) option" where
  "parseTerm s =
     (if s = [] \<or> \<not> (hd s = CHR ''.'' \<or> isDigit (hd s)) then None
      else
        (case leadingInt 0 s of
           None \<Rightarrow> None
         | Some (v, s1) \<Rightarrow>
             let pre = (length s1 \<noteq> length s);
                 dot = (s1 \<noteq> [] \<and> hd s1 = CHR ''.'');
                 (f, scale, s2) = (if dot then leadingFraction 0 1 False (tl s1) else (0, 1, s1));
                 post = (dot \<and> length s2 \<noteq> length (tl s1));
                 u = takeWhile unitChar s2
             in if \<not> pre \<and> \<not> post \<or> u = [] then None
                else
                  (case map_of unitMap u of
                     None \<Rightarrow> None
                   | Some unit \<Rightarrow> map_option (\<lambda>v. (v, dropWhile unitChar s2)) (scaleTerm v f scale unit))))"

lemma leadingInt_length: "leadingInt x s = Some (y, r) \<Longrightarrow> length r \<le> length s"
  by (induction x s rule: leadingInt.induct) (auto simp: Let_def split: if_splits)

lemma leadingFraction_length: "leadingFraction x sc ov s = (y, sc', r) \<Longrightarrow> length r \<le> length s"
  by (induction x sc ov s rule: leadingFraction.induct) (auto simp: Let_def split: if_splits)

lemma parseTerm_shorter: "parseTerm s = Some (v, r) \<Longrightarrow> length r < length s"
proof -
  have drop: "length (dropWhile unitChar t) < length t" if "takeWhile unitChar t \<noteq> []" for t
  proof -
    have "length (takeWhile unitChar t) + length (dropWhile unitChar t) = length t"
      by (metis length_append takeWhile_dropWhile_id)
    with that show ?thesis by (cases "takeWhile unitChar t") auto
  qed
  assume "parseTerm s = Some (v, r)"
  then obtain w s1 f sc s2 where "leadingInt 0 s = Some (w, s1)"
    "(if s1 \<noteq> [] \<and> hd s1 = CHR ''.'' then leadingFraction 0 1 False (tl s1) else (0, 1, s1)) = (f, sc, s2)"
    "takeWhile unitChar s2 \<noteq> []" "r = dropWhile unitChar s2"
    by (auto simp: parseTerm_def Let_def split: if_splits option.splits prod.splits)
  moreover from this have "length s2 \<le> length s"
    using leadingInt_length [of 0 s w s1] leadingFraction_length [of 0 1 False "tl s1" f sc s2]
    by (auto split: if_splits)
  ultimately show ?thesis using drop [of s2] by simp
qed

function parseTerms :: "uint64 \<Rightarrow> string \<Rightarrow> uint64 option" where
  "parseTerms d s =
     (if s = [] then Some d
      else
        (case parseTerm s of
           None \<Rightarrow> None
         | Some (v, rest) \<Rightarrow> if d + v > half64 then None else parseTerms (d + v) rest))"
  by pat_completeness auto
termination by (relation "measure (\<lambda>(d, s). length s)") (auto dest: parseTerm_shorter)

declare parseTerms.simps [simp del]

definition parseDuration :: "string \<Rightarrow> int option" where
  "parseDuration s =
     (let signed = (s \<noteq> [] \<and> (hd s = CHR ''-'' \<or> hd s = CHR ''+''));
          neg = (signed \<and> hd s = CHR ''-'');
          t = (if signed then tl s else s)
      in if t = ''0'' then Some 0
         else if t = [] then None
         else
           (case parseTerms 0 t of
              None \<Rightarrow> None
            | Some d \<Rightarrow> if neg then Some (sint (- d)) else if d > half64 - 1 then None else Some (sint d)))"

section \<open>Reading what was written\<close>

text \<open>A duration written as whole numbers of units.\<close>

definition durationText :: "(nat \<times> string) list \<Rightarrow> string" where
  "durationText ts = concat (map (\<lambda>(n, u). showNat n @ u) ts)"

definition unitOf :: "string \<Rightarrow> nat" where
  "unitOf u = (case map_of unitMap u of Some k \<Rightarrow> nat k | None \<Rightarrow> 0)"

definition totalOf :: "(nat \<times> string) list \<Rightarrow> nat" where
  "totalOf ts = sum_list (map (\<lambda>(n, u). n * unitOf u) ts)"

definition validTerms :: "(nat \<times> string) list \<Rightarrow> bool" where
  "validTerms ts \<longleftrightarrow> list_all (\<lambda>(n, u). u \<in> fst ` set unitMap) ts"

lemma unit_facts:
  assumes "u \<in> fst ` set unitMap"
  obtains k where "map_of unitMap u = Some (int k)" "unitOf u = k" "1 \<le> k" "k < 2 ^ 63" "u \<noteq> []" "list_all unitChar u"
proof -
  have "list_all (\<lambda>(u, k). map_of unitMap u = Some k \<and> 1 \<le> k \<and> k < 2 ^ 63 \<and> u \<noteq> [] \<and> list_all unitChar u) unitMap"
    by (simp add: unitMap_def unitChar_def isDigit_def)
  with assms obtain k where k: "map_of unitMap u = Some k" "1 \<le> k" "k < 2 ^ 63" "u \<noteq> []" "list_all unitChar u"
    unfolding list_all_iff by fastforce
  then have "map_of unitMap u = Some (int (nat k))" "unitOf u = nat k" "1 \<le> nat k" "nat k < 2 ^ 63"
    by (auto simp: unitOf_def)
  with k(4,5) show thesis using that by blast
qed

lemma unat_of_nat64: "n < 2 ^ 64 \<Longrightarrow> unat (of_nat n :: uint64) = n"
  by (simp add: unat_of_nat take_bit_nat_eq_self)

lemma leadingInt_showNat: "n \<le> 2 ^ 63 \<Longrightarrow> leadingInt 0 (showNat n @ r) = leadingInt (of_nat n) r"
proof (induction n arbitrary: r rule: showNat.induct)
  case (1 n)
  have digit: "leadingInt (of_nat m) (char_of (48 + k) # r) = leadingInt (of_nat (m * 10 + k)) r"
    if "k < 10" "m * 10 + k \<le> 2 ^ 63" for m k
  proof -
    have "unat (of_nat m :: uint64) = m" "unat (of_nat (m * 10 + k) :: uint64) = m * 10 + k"
      using that(2) by (intro unat_of_nat64; simp)+
    moreover have "m \<le> 2 ^ 63 div 10" using that(2) by simp
    ultimately show ?thesis
      using digit_char [OF that(1)] that(2) by (simp add: Let_def word_less_nat_alt unat_div not_less)
  qed
  show ?case
  proof (cases "n < 10")
    case True
    then show ?thesis using digit [of n 0] by (simp add: showNat.simps [of n])
  next
    case False
    then have "leadingInt 0 (showNat n @ r) = leadingInt (of_nat (n div 10)) (char_of (48 + n mod 10) # r)"
      using "1.IH" "1.prems" by (simp add: showNat.simps [of n])
    also have "\<dots> = leadingInt (of_nat n) r" using digit [of "n mod 10" "n div 10"] "1.prems" by simp
    finally show ?thesis .
  qed
qed

lemma leadingInt_stop: "r = [] \<or> \<not> isDigit (hd r) \<Longrightarrow> leadingInt x r = Some (x, r)"
  by (cases r) auto

lemma scaleTerm_whole:
  assumes "n * k < 2 ^ 63 + 1" "1 \<le> k" "k < 2 ^ 63"
  shows "scaleTerm (of_nat n) 0 scale (int k) = Some (of_nat (n * k))"
proof -
  have "n \<le> 2 ^ 63 div k" using assms(1,2) by (simp add: less_eq_div_iff_mult_less_eq)
  moreover have "n \<le> n * k" using assms(2) by simp
  then have "n < 2 ^ 63 + 1" using assms(1) by (rule le_less_trans)
  then have "n < 2 ^ 64" "k < 2 ^ 64" using assms(3) by simp_all
  then have "unat (of_nat n :: uint64) = n" "unat (of_nat k :: uint64) = k" by (simp_all only: unat_of_nat64)
  ultimately show ?thesis by (simp add: scaleTerm_def Let_def word_less_nat_alt unat_div not_less)
qed

lemma showNat_digits_text: "showNat n \<noteq> [] \<and> list_all isDigit (showNat n)"
proof (induction n rule: showNat.induct)
  case (1 n)
  then show ?case using digit_char [of n] digit_char [of "n mod 10"] by (subst (1 2) showNat.simps) auto
qed

text \<open>What may follow a term: nothing, or the digits of the next one.\<close>

lemma parseTerm_whole:
  assumes "u \<in> fst ` set unitMap" "n * unitOf u \<le> 2 ^ 63" "rest = [] \<or> isDigit (hd rest)"
  shows "parseTerm (showNat n @ u @ rest) = Some (of_nat (n * unitOf u), rest)"
proof -
  obtain k where k: "map_of unitMap u = Some (int k)" "unitOf u = k" "1 \<le> k" "k < 2 ^ 63" "u \<noteq> []" "list_all unitChar u"
    using assms(1) by (rule unit_facts)
  have "n \<le> n * k" using k(3) by simp
  also have "\<dots> \<le> 2 ^ 63" using assms(2) k(2) by simp
  finally have "n \<le> 2 ^ 63" .
  moreover have "hd (u @ rest) \<noteq> CHR ''.''" "\<not> isDigit (hd (u @ rest))" using k(5,6) by (cases u; auto simp: unitChar_def)+
  ultimately have lead: "leadingInt 0 (showNat n @ u @ rest) = Some (of_nat n, u @ rest)"
    using leadingInt_showNat [of n "u @ rest"] leadingInt_stop [of "u @ rest"] by simp
  have "takeWhile unitChar (u @ rest) = u \<and> dropWhile unitChar (u @ rest) = rest"
    using k(6) assms(3) by (induction u) (cases rest; auto simp: unitChar_def)+
  moreover obtain c s where "showNat n = c # s" "isDigit c" using showNat_digits_text [of n] by (cases "showNat n") auto
  ultimately show ?thesis
    using lead k assms(2) \<open>hd (u @ rest) \<noteq> CHR ''.''\<close> scaleTerm_whole [of n k]
    by (simp add: parseTerm_def Let_def)
qed

lemma parseTerms_whole:
  "validTerms ts \<Longrightarrow> a + totalOf ts \<le> 2 ^ 63 \<Longrightarrow> parseTerms (of_nat a) (durationText ts) = Some (of_nat (a + totalOf ts))"
proof (induction ts arbitrary: a)
  case Nil
  then show ?case by (simp add: durationText_def totalOf_def parseTerms.simps)
next
  case (Cons t ts)
  obtain n u where t: "t = (n, u)" by force
  let ?rest = "durationText ts"
  have sum: "totalOf (t # ts) = n * unitOf u + totalOf ts" by (simp add: t totalOf_def)
  have "?rest = [] \<or> isDigit (hd ?rest)"
  proof (cases ts)
    case (Cons t' ts')
    then show ?thesis using showNat_digits_text [of "fst t'"]
      by (cases "showNat (fst t')") (auto simp: durationText_def case_prod_beta)
  qed (simp add: durationText_def)
  then have first: "parseTerm (showNat n @ u @ ?rest) = Some (of_nat (n * unitOf u), ?rest)"
    using Cons.prems sum by (intro parseTerm_whole) (auto simp: t validTerms_def)
  have "unat (of_nat (a + n * unitOf u) :: uint64) = a + n * unitOf u" using Cons.prems(2) sum by (intro unat_of_nat64) simp
  then have "\<not> half64 < of_nat (a + n * unitOf u)" using Cons.prems(2) sum by (simp add: word_less_nat_alt)
  moreover have "durationText (t # ts) = showNat n @ u @ ?rest" "showNat n \<noteq> []"
    using showNat_digits_text [of n] by (simp_all add: durationText_def t)
  ultimately have "parseTerms (of_nat a) (durationText (t # ts)) = parseTerms (of_nat (a + n * unitOf u)) ?rest"
    using first by (simp add: parseTerms.simps [of "of_nat a"])
  also have "\<dots> = Some (of_nat (a + totalOf (t # ts)))"
    using Cons.IH [of "a + n * unitOf u"] Cons.prems sum by (simp add: validTerms_def add.assoc)
  finally show ?case .
qed

lemma durationText_start:
  assumes "ts \<noteq> []" "validTerms ts"
  obtains c s where "durationText ts = c # s" "isDigit c" "s \<noteq> []"
proof -
  obtain n u ts' where ts: "ts = (n, u) # ts'" using assms(1) by (cases ts) auto
  obtain c s where "showNat n = c # s" "isDigit c" using showNat_digits_text [of n] by (cases "showNat n") auto
  moreover have "u \<in> fst ` set unitMap" using assms(2) by (simp add: ts validTerms_def)
  then have "u \<noteq> []" by (rule unit_facts)
  ultimately show thesis using that by (auto simp: durationText_def ts)
qed

lemma parseDuration_whole:
  assumes "ts \<noteq> []" "validTerms ts"
  shows "totalOf ts < 2 ^ 63 \<Longrightarrow> parseDuration (durationText ts) = Some (int (totalOf ts))"
    and "totalOf ts \<le> 2 ^ 63 \<Longrightarrow> parseDuration (CHR ''-'' # durationText ts) = Some (- int (totalOf ts))"
proof -
  obtain c s where start: "durationText ts = c # s" "isDigit c" "s \<noteq> []" by (rule durationText_start [OF assms])
  have sign: "c \<noteq> CHR ''-''" "c \<noteq> CHR ''+''" using start(2) by (auto simp: isDigit_def)
  have terms: "parseTerms 0 (durationText ts) = Some (of_nat (totalOf ts))" if "totalOf ts \<le> 2 ^ 63"
    using parseTerms_whole [OF assms(2), of 0] that by simp
  have unat: "unat (of_nat (totalOf ts) :: uint64) = totalOf ts" if "totalOf ts \<le> 2 ^ 63"
    using that by (intro unat_of_nat64) simp
  have signed: "sint (of_int i :: uint64) = i" if "- (2 ^ 63) \<le> i" "i < 2 ^ 63" for i
    using that by (simp add: signed_of_int signed_take_bit_int_eq_self)
  show "parseDuration (durationText ts) = Some (int (totalOf ts))" if "totalOf ts < 2 ^ 63"
  proof -
    have "\<not> half64 - 1 < of_nat (totalOf ts)" using unat that by (simp add: word_less_nat_alt)
    with terms that signed [of "int (totalOf ts)"] start sign show ?thesis by (simp add: parseDuration_def Let_def)
  qed
  show "parseDuration (CHR ''-'' # durationText ts) = Some (- int (totalOf ts))" if "totalOf ts \<le> 2 ^ 63"
    using terms that signed [of "- int (totalOf ts)"] start by (simp add: parseDuration_def Let_def)
qed

lemma parseDuration_bounds:
  assumes "parseDuration s = Some d"
  shows "- (2 ^ 63) \<le> d \<and> d < 2 ^ 63"
proof -
  have "d = 0 \<or> (\<exists>w :: uint64. d = sint w)" using assms by (auto simp: parseDuration_def Let_def split: if_splits option.splits)
  then show ?thesis using sint_ge [where 'a = 64] sint_lt [where 'a = 64] by auto
qed

text \<open>The sum of two terms can wrap around: two times 292 years are no time at all.\<close>

lemma parseDuration_wraps: "parseDuration ''9223372036854775808ns9223372036854775808ns'' = Some 0"
  by code_simp

end
