(* ===== verification/Config.thy ===== *)
theory Config
  imports GoUrl GoTime
begin

text \<open>
  The configuration of \<^verbatim>\<open>internal/config/config.go\<close>: its records, the defaults, the validation and
  loading. Durations are integers (nanoseconds), sizes and counts are integers,
  \<^verbatim>\<open>requests_per_minute\<close> is the rational number its \<^verbatim>\<open>float64\<close> stands for. An optional \<^verbatim>\<open>*bool\<close> is
  a \<^typ>\<open>bool option\<close>. Reading the file and decoding the YAML text (package \<^verbatim>\<open>yaml.v3\<close>)
  are arguments of the definitions that use them.
\<close>

type_synonym duration = int

abbreviation Millisecond :: duration where "Millisecond \<equiv> 1000000"
abbreviation Second :: duration where "Second \<equiv> 1000000000"
abbreviation Minute :: duration where "Minute \<equiv> 60000000000"

text \<open>How the decoder reads a duration: the text of a scalar node, or an error that quotes it.\<close>

datatype duration_error = InvalidDuration string

definition unmarshalDuration :: "string \<Rightarrow> duration_error + duration" where
  "unmarshalDuration nodeValue =
     (case parseDuration nodeValue of
        None \<Rightarrow> Inl (InvalidDuration nodeValue)
      | Some v \<Rightarrow> Inr v)"

record limits =
  requestsPerMinute :: rat
  burst :: int
  maxConcurrent :: int

record queueConfig =
  q_enabled :: "bool option"
  q_maxSize :: int
  q_waitTimeout :: duration

record loggingConfig =
  log_enabled :: bool
  log_requests :: bool
  log_responses :: bool
  log_includeBodies :: bool
  log_maxBodyBytes :: int

record serverConfig =
  srv_listen :: string
  srv_inboundAPIKeys :: "string list"
  srv_usageDB :: string
  srv_maxConcurrentRequests :: int
  srv_clientLimits :: limits
  srv_readHeaderTimeout :: duration
  srv_idleTimeout :: duration
  srv_requestTimeout :: duration
  srv_readTimeout :: duration
  srv_writeIdleTimeout :: duration
  srv_readinessCacheTTL :: duration
  srv_maxHeaderBytes :: int
  srv_maxRequestBytes :: int
  srv_queue :: queueConfig
  srv_logging :: loggingConfig
  srv_clientNetworks :: "string list"
  srv_trustedProxyNetworks :: "string list"

record autodiscoverConfig =
  ad_enabled :: bool
  ad_prefix :: string
  ad_cacheTTL :: duration

record providerConfig =
  prov_baseURL :: string
  prov_protocol :: string
  prov_apiKeyEnv :: string
  prov_headers :: "string gomap"
  prov_autodiscover :: autodiscoverConfig
  prov_limits :: limits
  prov_requestTimeout :: duration

record targetConfig =
  tgt_provider :: string
  tgt_model :: string

record modelConfig =
  mdl_provider :: string
  mdl_model :: string
  mdl_targets :: "targetConfig list"
  mdl_retries :: int
  mdl_limits :: limits
  mdl_overrides :: "any gomap"
  mdl_prependSystemPrompt :: string
  mdl_appendSystemPrompt :: string

record config =
  cfg_server :: serverConfig
  cfg_providers :: "providerConfig gomap"
  cfg_models :: "modelConfig gomap"

definition resolvedTargets :: "modelConfig \<Rightarrow> targetConfig list" where
  "resolvedTargets m =
     (if mdl_targets m \<noteq> [] then mdl_targets m
      else [\<lparr>tgt_provider = mdl_provider m, tgt_model = mdl_model m\<rparr>])"

section \<open>Defaults\<close>

definition limits_defaults :: "limits \<Rightarrow> limits" where
  "limits_defaults l = (if requestsPerMinute l > 0 \<and> burst l = 0 then l\<lparr>burst := 1\<rparr> else l)"

definition orDefault :: "int \<Rightarrow> int \<Rightarrow> int" where
  "orDefault v d = (if v = 0 then d else v)"

definition orDefaultStr :: "string \<Rightarrow> string \<Rightarrow> string" where
  "orDefaultStr v d = (if v = [] then d else v)"

definition server_defaults :: "serverConfig \<Rightarrow> serverConfig" where
  "server_defaults s = s\<lparr>
     srv_listen := orDefaultStr (srv_listen s) '':8080'',
     srv_readHeaderTimeout := orDefault (srv_readHeaderTimeout s) (10 * Second),
     srv_idleTimeout := orDefault (srv_idleTimeout s) (2 * Minute),
     srv_requestTimeout := orDefault (srv_requestTimeout s) (10 * Minute),
     srv_readTimeout := orDefault (srv_readTimeout s) (30 * Second),
     srv_writeIdleTimeout := orDefault (srv_writeIdleTimeout s) (30 * Second),
     srv_readinessCacheTTL := orDefault (srv_readinessCacheTTL s) (3 * Second),
     srv_maxHeaderBytes := orDefault (srv_maxHeaderBytes s) (64 * 2 ^ 10),
     srv_maxConcurrentRequests := orDefault (srv_maxConcurrentRequests s) 64,
     srv_queue := (srv_queue s)\<lparr>
       q_maxSize := orDefault (q_maxSize (srv_queue s)) 32,
       q_enabled := (case q_enabled (srv_queue s) of None \<Rightarrow> Some True | Some b \<Rightarrow> Some b),
       q_waitTimeout := orDefault (q_waitTimeout (srv_queue s)) (30 * Second)\<rparr>,
     srv_logging := (srv_logging s)\<lparr>
       log_maxBodyBytes := orDefault (log_maxBodyBytes (srv_logging s)) (64 * 2 ^ 10)\<rparr>,
     srv_maxRequestBytes := orDefault (srv_maxRequestBytes s) (8 * 2 ^ 20),
     srv_usageDB := orDefaultStr (srv_usageDB s) ''shepard-usage.db'',
     srv_clientLimits := limits_defaults (srv_clientLimits s)\<rparr>"

definition autodiscover_defaults :: "string \<Rightarrow> autodiscoverConfig \<Rightarrow> autodiscoverConfig" where
  "autodiscover_defaults name a =
     (if ad_enabled a then
        a\<lparr>ad_prefix := orDefaultStr (ad_prefix a) (name @ ''/''),
          ad_cacheTTL := orDefault (ad_cacheTTL a) Minute\<rparr>
      else a)"

definition provider_defaults :: "string \<Rightarrow> providerConfig \<Rightarrow> providerConfig" where
  "provider_defaults name p = p\<lparr>
     prov_protocol := orDefaultStr (prov_protocol p) ''openai'',
     prov_limits := limits_defaults (prov_limits p),
     prov_autodiscover := autodiscover_defaults name (prov_autodiscover p)\<rparr>"

definition model_defaults :: "string \<Rightarrow> modelConfig \<Rightarrow> modelConfig" where
  "model_defaults alias m = m\<lparr>mdl_limits := limits_defaults (mdl_limits m)\<rparr>"

definition config_defaults :: "config \<Rightarrow> config" where
  "config_defaults c = c\<lparr>
     cfg_server := server_defaults (cfg_server c),
     cfg_providers := mapValues provider_defaults (cfg_providers c),
     cfg_models := mapValues model_defaults (cfg_models c)\<rparr>"

section \<open>Validation\<close>

datatype config_error =
    NoProviders
  | InvalidBaseURL string
  | APIKeyEnvWithDollar string
  | SamePrefix string string string
  | NegativeLimits string
  | BurstWithoutRate string
  | UnsupportedProtocol string string
  | NegativeProviderTimeout string
  | NegativeSetting string
  | EmptyNetwork
  | InvalidNetwork string
  | InvalidIP string
  | NoModels
  | EmptyAlias
  | BothTargetForms string
  | NoTarget string
  | RetriesOutOfRange string
  | ProtectedOverride string string
  | EmptyTargetModel string
  | UnknownProvider string string

definition limits_validate :: "string \<Rightarrow> limits \<Rightarrow> config_error option" where
  "limits_validate scope l =
     (if requestsPerMinute l < 0 \<or> burst l < 0 \<or> maxConcurrent l < 0 then Some (NegativeLimits scope)
      else if requestsPerMinute l = 0 \<and> burst l \<noteq> 0 then Some (BurstWithoutRate scope)
      else None)"

text \<open>The checks of one provider; the prefixes seen so far map a prefix to the provider that has it.\<close>

definition validateProvider ::
    "string \<Rightarrow> providerConfig \<Rightarrow> (string \<rightharpoonup> string) \<Rightarrow> config_error option" where
  "validateProvider name p seen =
     (if (case parseURL (prov_baseURL p) of
            None \<Rightarrow> True | Some u \<Rightarrow> url_Scheme u = [] \<or> url_Host u = []) then Some (InvalidBaseURL name)
      else if prov_apiKeyEnv p \<noteq> [] \<and> CHR ''$'' \<in> set (prov_apiKeyEnv p) then
        Some (APIKeyEnvWithDollar name)
      else case (if ad_enabled (prov_autodiscover p) then seen (ad_prefix (prov_autodiscover p)) else None) of
        Some other \<Rightarrow> Some (SamePrefix other name (ad_prefix (prov_autodiscover p)))
      | None \<Rightarrow>
          (case limits_validate (''provider '' @ name) (prov_limits p) of
             Some e \<Rightarrow> Some e
           | None \<Rightarrow>
               if prov_protocol p \<noteq> ''openai'' \<and> prov_protocol p \<noteq> ''ollama'' then
                 Some (UnsupportedProtocol name (prov_protocol p))
               else if prov_requestTimeout p < 0 then Some (NegativeProviderTimeout name)
               else None))"

text \<open>The loop over the providers; the value is whether models can exist.\<close>

fun validateProviders ::
    "providerConfig gomap \<Rightarrow> (string \<rightharpoonup> string) \<Rightarrow> bool \<Rightarrow> config_error + bool" where
  "validateProviders [] seen hasModels = Inr hasModels"
| "validateProviders ((name, p) # ps) seen hasModels =
     (case validateProvider name p seen of
        Some e \<Rightarrow> Inl e
      | None \<Rightarrow>
          if ad_enabled (prov_autodiscover p)
          then validateProviders ps (seen(ad_prefix (prov_autodiscover p) \<mapsto> name)) True
          else validateProviders ps seen hasModels)"

definition validateServer :: "serverConfig \<Rightarrow> config_error option" where
  "validateServer s =
     (case limits_validate ''server client_limits'' (srv_clientLimits s) of
        Some e \<Rightarrow> Some e
      | None \<Rightarrow>
          if q_maxSize (srv_queue s) < 0 then Some (NegativeSetting ''queue max_size'')
          else if q_waitTimeout (srv_queue s) < 0 then Some (NegativeSetting ''queue wait_timeout'')
          else if log_maxBodyBytes (srv_logging s) < 0 then Some (NegativeSetting ''logging max_body_bytes'')
          else if srv_maxConcurrentRequests s < 0 then Some (NegativeSetting ''max_concurrent_requests'')
          else if srv_maxHeaderBytes s < 0 then Some (NegativeSetting ''max_header_bytes'')
          else if srv_writeIdleTimeout s < 0 then Some (NegativeSetting ''write_idle_timeout'')
          else if srv_readinessCacheTTL s < 0 then Some (NegativeSetting ''readiness_cache_ttl'')
          else None)"

definition validateNetwork :: "string \<Rightarrow> config_error option" where
  "validateNetwork raw =
     (let value = trimSpace raw in
      if value = [] then Some EmptyNetwork
      else if CHR ''/'' \<in> set value then
        (if parseCIDR value = None then Some (InvalidNetwork value) else None)
      else if parseIP value = None then Some (InvalidIP value)
      else None)"

fun firstError :: "('a \<Rightarrow> 'e option) \<Rightarrow> 'a list \<Rightarrow> 'e option" where
  "firstError f [] = None"
| "firstError f (x # xs) = (case f x of Some e \<Rightarrow> Some e | None \<Rightarrow> firstError f xs)"

definition protectedFields :: "string list" where
  "protectedFields = [''model'', ''messages'', ''input'', ''instructions'']"

definition validateModel :: "providerConfig gomap \<Rightarrow> string \<times> modelConfig \<Rightarrow> config_error option" where
  "validateModel providers am =
     (case am of (alias, m) \<Rightarrow>
      if alias = [] then Some EmptyAlias
      else if mdl_targets m \<noteq> [] \<and> (mdl_provider m \<noteq> [] \<or> mdl_model m \<noteq> []) then
        Some (BothTargetForms alias)
      else if mdl_targets m = [] \<and> (mdl_provider m = [] \<or> mdl_model m = []) then Some (NoTarget alias)
      else if mdl_retries m < 0 \<or> mdl_retries m > 10 then Some (RetriesOutOfRange alias)
      else case firstError (\<lambda>key. if key \<in> set protectedFields then Some (ProtectedOverride alias key) else None)
                  (mapKeys (mdl_overrides m)) of
        Some e \<Rightarrow> Some e
      | None \<Rightarrow>
          (case limits_validate (''model '' @ alias) (mdl_limits m) of
             Some e \<Rightarrow> Some e
           | None \<Rightarrow>
               firstError (\<lambda>t. if tgt_model t = [] then Some (EmptyTargetModel alias)
                               else if map_of providers (tgt_provider t) = None
                               then Some (UnknownProvider alias (tgt_provider t))
                               else None)
                 (resolvedTargets m)))"

definition validate :: "config \<Rightarrow> config_error option" where
  "validate c =
     (if cfg_providers c = [] then Some NoProviders
      else case validateProviders (cfg_providers c) Map.empty (cfg_models c \<noteq> []) of
        Inl e \<Rightarrow> Some e
      | Inr hasModels \<Rightarrow>
          (case validateServer (cfg_server c) of
             Some e \<Rightarrow> Some e
           | None \<Rightarrow>
               (case firstError validateNetwork
                       (srv_clientNetworks (cfg_server c) @ srv_trustedProxyNetworks (cfg_server c)) of
                  Some e \<Rightarrow> Some e
                | None \<Rightarrow>
                    if \<not> hasModels then Some NoModels
                    else firstError (validateModel (cfg_providers c)) (cfg_models c))))"

section \<open>Loading\<close>

datatype load_error = ReadFailed | DecodeFailed string | Invalid config_error

definition load ::
    "(string \<Rightarrow> string option) \<Rightarrow> (string \<Rightarrow> string + config) \<Rightarrow> string
      \<Rightarrow> load_error + config" where
  "load readFile decodeYAML path =
     (case readFile path of
        None \<Rightarrow> Inl ReadFailed
      | Some b \<Rightarrow>
          (case decodeYAML b of
             Inl e \<Rightarrow> Inl (DecodeFailed e)
           | Inr c \<Rightarrow>
               (let c' = config_defaults c in
                case validate c' of
                  Some e \<Rightarrow> Inl (Invalid e)
                | None \<Rightarrow> Inr c')))"

definition broadlyExposedWithoutAccessControls :: "serverConfig \<Rightarrow> bool" where
  "broadlyExposedWithoutAccessControls s =
     (if srv_inboundAPIKeys s \<noteq> [] \<or> srv_clientNetworks s \<noteq> [] then False
      else case splitHostPort (srv_listen s) of
        None \<Rightarrow> False
      | Some (host, _) \<Rightarrow>
          (let x = parseIP (trimCut ''[]'' host)
           in host = [] \<or> (case x of None \<Rightarrow> False | Some b \<Rightarrow> isUnspecified b)))"

section \<open>What validation accepts\<close>

text \<open>The contract of \<^verbatim>\<open>Validate\<close>, as predicates that do not depend on any iteration order.\<close>

definition validLimits :: "limits \<Rightarrow> bool" where
  "validLimits l \<longleftrightarrow> 0 \<le> requestsPerMinute l \<and> 0 \<le> burst l \<and> 0 \<le> maxConcurrent l \<and>
     (requestsPerMinute l = 0 \<longrightarrow> burst l = 0)"

definition validProvider :: "providerConfig \<Rightarrow> bool" where
  "validProvider p \<longleftrightarrow>
     (\<exists>u. parseURL (prov_baseURL p) = Some u \<and> url_Scheme u \<noteq> [] \<and> url_Host u \<noteq> []) \<and>
     CHR ''$'' \<notin> set (prov_apiKeyEnv p) \<and> validLimits (prov_limits p) \<and>
     (prov_protocol p = ''openai'' \<or> prov_protocol p = ''ollama'') \<and> 0 \<le> prov_requestTimeout p"

definition enabledPrefixes :: "providerConfig gomap \<Rightarrow> string list" where
  "enabledPrefixes ps =
     map (\<lambda>np. ad_prefix (prov_autodiscover (snd np)))
       (filter (\<lambda>np. ad_enabled (prov_autodiscover (snd np))) ps)"

definition validServer :: "serverConfig \<Rightarrow> bool" where
  "validServer s \<longleftrightarrow>
     validLimits (srv_clientLimits s) \<and> 0 \<le> q_maxSize (srv_queue s) \<and> 0 \<le> q_waitTimeout (srv_queue s) \<and>
     0 \<le> log_maxBodyBytes (srv_logging s) \<and> 0 \<le> srv_maxConcurrentRequests s \<and>
     0 \<le> srv_maxHeaderBytes s \<and> 0 \<le> srv_writeIdleTimeout s \<and> 0 \<le> srv_readinessCacheTTL s"

definition validNetwork :: "string \<Rightarrow> bool" where
  "validNetwork raw \<longleftrightarrow> trimSpace raw \<noteq> [] \<and>
     (if CHR ''/'' \<in> set (trimSpace raw) then parseCIDR (trimSpace raw) \<noteq> None
      else parseIP (trimSpace raw) \<noteq> None)"

definition validTarget :: "providerConfig gomap \<Rightarrow> targetConfig \<Rightarrow> bool" where
  "validTarget providers t \<longleftrightarrow> tgt_model t \<noteq> [] \<and> tgt_provider t \<in> fst ` set providers"

definition validModel :: "providerConfig gomap \<Rightarrow> string \<Rightarrow> modelConfig \<Rightarrow> bool" where
  "validModel providers alias m \<longleftrightarrow>
     alias \<noteq> [] \<and> (mdl_targets m \<noteq> [] \<longleftrightarrow> mdl_provider m = [] \<and> mdl_model m = []) \<and>
     (mdl_targets m = [] \<longrightarrow> mdl_provider m \<noteq> [] \<and> mdl_model m \<noteq> []) \<and>
     0 \<le> mdl_retries m \<and> mdl_retries m \<le> 10 \<and>
     set (mapKeys (mdl_overrides m)) \<inter> set protectedFields = {} \<and> validLimits (mdl_limits m) \<and>
     (\<forall>t \<in> set (resolvedTargets m). validTarget providers t)"

definition validConfig :: "config \<Rightarrow> bool" where
  "validConfig c \<longleftrightarrow>
     cfg_providers c \<noteq> [] \<and> (\<forall>(name, p) \<in> set (cfg_providers c). validProvider p) \<and>
     distinct (enabledPrefixes (cfg_providers c)) \<and> validServer (cfg_server c) \<and>
     (\<forall>v \<in> set (srv_clientNetworks (cfg_server c)). validNetwork v) \<and>
     (\<forall>v \<in> set (srv_trustedProxyNetworks (cfg_server c)). validNetwork v) \<and>
     (cfg_models c \<noteq> [] \<or> enabledPrefixes (cfg_providers c) \<noteq> []) \<and>
     (\<forall>(alias, m) \<in> set (cfg_models c). validModel (cfg_providers c) alias m)"

lemma firstError_None [simp]: "firstError f xs = None \<longleftrightarrow> (\<forall>x \<in> set xs. f x = None)"
  by (induction xs) (auto split: option.splits)

lemma limits_validate_None [simp]: "limits_validate scope l = None \<longleftrightarrow> validLimits l"
  by (auto simp: limits_validate_def validLimits_def)

lemma validateProvider_None:
  "validateProvider name p seen = None \<longleftrightarrow>
     validProvider p \<and>
     (ad_enabled (prov_autodiscover p) \<longrightarrow> seen (ad_prefix (prov_autodiscover p)) = None)"
  by (auto simp: validateProvider_def validProvider_def split: option.splits if_splits)

lemma enabledPrefixes_simps [simp]:
  "enabledPrefixes [] = []"
  "enabledPrefixes ((name, p) # ps) =
     (if ad_enabled (prov_autodiscover p) then ad_prefix (prov_autodiscover p) # enabledPrefixes ps
      else enabledPrefixes ps)"
  by (auto simp: enabledPrefixes_def)

lemma validateProviders_Inr:
  "validateProviders ps seen h = Inr h' \<longleftrightarrow>
     (\<forall>(name, p) \<in> set ps. validProvider p) \<and> distinct (enabledPrefixes ps) \<and>
     set (enabledPrefixes ps) \<inter> dom seen = {} \<and> h' = (h \<or> enabledPrefixes ps \<noteq> [])"
proof (induction ps seen h rule: validateProviders.induct)
  case (2 name p ps seen h)
  show ?case
  proof (cases "validateProvider name p seen")
    case None
    note ok = None [unfolded validateProvider_None]
    show ?thesis
    proof (cases "ad_enabled (prov_autodiscover p)")
      case True
      with None have step: "validateProviders ((name, p) # ps) seen h =
          validateProviders ps (seen(ad_prefix (prov_autodiscover p) \<mapsto> name)) True" by simp
      show ?thesis
        unfolding step "2.IH"(1) [OF None True] using ok True by auto
    next
      case False
      with None ok "2.IH"(2) [OF None False] show ?thesis by auto
    qed
  next
    case (Some e)
    with validateProvider_None [of name p seen]
    have "\<not> (validProvider p \<and>
            (ad_enabled (prov_autodiscover p) \<longrightarrow> seen (ad_prefix (prov_autodiscover p)) = None))" by simp
    with Some show ?thesis by (cases "ad_enabled (prov_autodiscover p)") auto
  qed
qed auto

lemma validateServer_None: "validateServer s = None \<longleftrightarrow> validServer s"
  by (auto simp: validateServer_def validServer_def)

lemma validateNetwork_None: "validateNetwork v = None \<longleftrightarrow> validNetwork v"
  by (auto simp: validateNetwork_def validNetwork_def Let_def)

lemma validateModel_None: "validateModel providers (alias, m) = None \<longleftrightarrow> validModel providers alias m"
proof -
  have "map_of providers x = None \<longleftrightarrow> x \<notin> fst ` set providers" for x
    by (simp add: map_of_eq_None_iff)
  then show ?thesis
    by (auto simp: validateModel_def validModel_def validTarget_def split: if_splits)
qed

lemma validate_valid: "validate c = None \<longleftrightarrow> validConfig c"
proof -
  have models: "firstError (validateModel ps) ms = None \<longleftrightarrow> (\<forall>(alias, m) \<in> set ms. validModel ps alias m)"
    for ps ms by (auto simp: validateModel_None)
  show ?thesis
  proof (cases "validateProviders (cfg_providers c) Map.empty (cfg_models c \<noteq> [])")
    case (Inl e)
    then have "\<nexists>h'. validateProviders (cfg_providers c) Map.empty (cfg_models c \<noteq> []) = Inr h'"
      by simp
    with Inl show ?thesis
      unfolding validateProviders_Inr by (auto simp: validate_def validConfig_def)
  next
    case (Inr h)
    with Inr [unfolded validateProviders_Inr] show ?thesis
      by (auto simp: validate_def validConfig_def validateServer_None validateNetwork_None models
          simp del: firstError_None simp add: firstError_None [of validateNetwork])
  qed
qed

text \<open>
  Claim C19. \<^verbatim>\<open>Validate\<close> accepts exactly the configurations that satisfy the declarative contract
  \<^const>\<open>validConfig\<close>.
\<close>

theorem validate_iff_validConfig: "validate c = None \<longleftrightarrow> validConfig c"
  by (rule validate_valid)

section \<open>Iteration order\<close>

lemma mset_enabledPrefixes: "mset ps = mset qs \<Longrightarrow> mset (enabledPrefixes ps) = mset (enabledPrefixes qs)"
  by (simp add: enabledPrefixes_def)

lemma validModel_cong: "fst ` set ps = fst ` set qs \<Longrightarrow> validModel ps alias m = validModel qs alias m"
  by (simp add: validModel_def validTarget_def)

text \<open>
  Claim C20. Whether a configuration is accepted does not depend on the order in which Go iterates
  over the provider and model maps (the error reported for a refused one may).
\<close>

theorem validate_order_independent:
  assumes "mset (cfg_providers c) = mset (cfg_providers d)" and "mset (cfg_models c) = mset (cfg_models d)"
    and "cfg_server c = cfg_server d"
  shows "validate c = None \<longleftrightarrow> validate d = None"
proof -
  have sets: "set (cfg_providers c) = set (cfg_providers d)" "set (cfg_models c) = set (cfg_models d)"
    using assms(1,2) by (auto dest: mset_eq_setD)
  have pre: "mset (enabledPrefixes (cfg_providers c)) = mset (enabledPrefixes (cfg_providers d))"
    by (rule mset_enabledPrefixes [OF assms(1)])
  have "validModel (cfg_providers c) al m = validModel (cfg_providers d) al m" for al m
    by (rule validModel_cong) (simp add: sets)
  moreover have "distinct (enabledPrefixes (cfg_providers c)) = distinct (enabledPrefixes (cfg_providers d))"
    using pre by (rule mset_eq_imp_distinct_iff)
  moreover have "cfg_providers c = [] \<longleftrightarrow> cfg_providers d = []" "cfg_models c = [] \<longleftrightarrow> cfg_models d = []"
    "enabledPrefixes (cfg_providers c) = [] \<longleftrightarrow> enabledPrefixes (cfg_providers d) = []"
    using assms(1,2) pre by (metis mset_zero_iff)+
  ultimately show ?thesis
    using assms(3) sets by (simp add: validate_valid validConfig_def)
qed

section \<open>What loading establishes\<close>

lemma limits_defaults_idem [simp]: "limits_defaults (limits_defaults l) = limits_defaults l"
  by (simp add: limits_defaults_def)

lemma orDefault_idem [simp]: "d \<noteq> 0 \<Longrightarrow> orDefault (orDefault v d) d = orDefault v d"
  by (simp add: orDefault_def)

lemma orDefaultStr_idem [simp]: "orDefaultStr (orDefaultStr v d) d = orDefaultStr v d"
  by (simp add: orDefaultStr_def)

lemma server_defaults_idem: "server_defaults (server_defaults s) = server_defaults s"
  by (simp add: server_defaults_def option.case_eq_if)

lemma provider_defaults_idem: "provider_defaults n (provider_defaults n p) = provider_defaults n p"
  by (simp add: provider_defaults_def autodiscover_defaults_def)

lemma model_defaults_idem: "model_defaults a (model_defaults a m) = model_defaults a m"
  by (simp add: model_defaults_def)

lemma config_defaults_idem: "config_defaults (config_defaults c) = config_defaults c"
  by (simp add: config_defaults_def server_defaults_idem mapValues_def comp_def case_prod_beta
        provider_defaults_idem model_defaults_idem)

text \<open>
  The facts about a loaded configuration the gateway relies on: every rate-limited scope has a
  burst of at least one, so a full bucket can admit a request, the ingress limit and the queue
  bound are positive, and every target of every alias names a configured provider.
\<close>

definition usableLimits :: "limits \<Rightarrow> bool" where
  "usableLimits l \<longleftrightarrow> validLimits l \<and> (requestsPerMinute l > 0 \<longrightarrow> 1 \<le> burst l)"

definition readyConfig :: "config \<Rightarrow> bool" where
  "readyConfig c \<longleftrightarrow>
     usableLimits (srv_clientLimits (cfg_server c)) \<and>
     0 < srv_maxConcurrentRequests (cfg_server c) \<and> 0 < q_maxSize (srv_queue (cfg_server c)) \<and>
     0 < q_waitTimeout (srv_queue (cfg_server c)) \<and> q_enabled (srv_queue (cfg_server c)) \<noteq> None \<and>
     0 < srv_writeIdleTimeout (cfg_server c) \<and> 0 < srv_readinessCacheTTL (cfg_server c) \<and>
     srv_requestTimeout (cfg_server c) \<noteq> 0 \<and>
     (\<forall>(name, p) \<in> set (cfg_providers c).
        usableLimits (prov_limits p) \<and> (prov_protocol p = ''openai'' \<or> prov_protocol p = ''ollama'')) \<and>
     (\<forall>(alias, m) \<in> set (cfg_models c).
        usableLimits (mdl_limits m) \<and> resolvedTargets m \<noteq> [] \<and>
        (\<forall>t \<in> set (resolvedTargets m). \<exists>p. (tgt_provider t, p) \<in> set (cfg_providers c)))"

lemma usableLimits_defaults: "validLimits l \<Longrightarrow> limits_defaults l = l \<Longrightarrow> usableLimits l"
  by (cases l) (auto simp: usableLimits_def validLimits_def limits_defaults_def split: if_splits)

lemma resolvedTargets_nonempty [simp]: "resolvedTargets m \<noteq> []"
  by (simp add: resolvedTargets_def)

lemma mapValues_fixed: "mapValues f m = m \<Longrightarrow> (k, v) \<in> set m \<Longrightarrow> f k v = v"
  by (induction m) (auto simp: mapValues_def)

lemma defaults_fixed_limits:
  assumes "config_defaults c = c"
  shows "(name, p) \<in> set (cfg_providers c) \<Longrightarrow> limits_defaults (prov_limits p) = prov_limits p"
    and "(al, m) \<in> set (cfg_models c) \<Longrightarrow> limits_defaults (mdl_limits m) = mdl_limits m"
    and "limits_defaults (srv_clientLimits (cfg_server c)) = srv_clientLimits (cfg_server c)"
proof -
  have c: "mapValues provider_defaults (cfg_providers c) = cfg_providers c"
    "mapValues model_defaults (cfg_models c) = cfg_models c" "server_defaults (cfg_server c) = cfg_server c"
    using arg_cong [OF assms, of cfg_providers] arg_cong [OF assms, of cfg_models]
      arg_cong [OF assms, of cfg_server]
    by (simp_all add: config_defaults_def)
  show "(name, p) \<in> set (cfg_providers c) \<Longrightarrow> limits_defaults (prov_limits p) = prov_limits p"
    using arg_cong [OF mapValues_fixed [OF c(1)], of name p prov_limits] by (simp add: provider_defaults_def)
  show "(al, m) \<in> set (cfg_models c) \<Longrightarrow> limits_defaults (mdl_limits m) = mdl_limits m"
    using arg_cong [OF mapValues_fixed [OF c(2)], of al m mdl_limits] by (simp add: model_defaults_def)
  show "limits_defaults (srv_clientLimits (cfg_server c)) = srv_clientLimits (cfg_server c)"
    using arg_cong [OF c(3), of srv_clientLimits] by (simp add: server_defaults_def)
qed

lemma server_defaults_fixed:
  assumes "server_defaults s = s" and "validServer s"
  shows "0 < srv_maxConcurrentRequests s" "0 < q_maxSize (srv_queue s)" "0 < q_waitTimeout (srv_queue s)"
    "q_enabled (srv_queue s) \<noteq> None" "0 < srv_writeIdleTimeout s" "0 < srv_readinessCacheTTL s"
    "srv_requestTimeout s \<noteq> 0"
proof -
  note f = arg_cong [OF assms(1)]
  show "0 < srv_maxConcurrentRequests s"
    using f [of srv_maxConcurrentRequests] assms(2)
    by (auto simp: server_defaults_def orDefault_def validServer_def split: if_splits)
  show "0 < q_maxSize (srv_queue s)"
    using f [of "\<lambda>s. q_maxSize (srv_queue s)"] assms(2)
    by (auto simp: server_defaults_def orDefault_def validServer_def split: if_splits)
  show "0 < q_waitTimeout (srv_queue s)"
    using f [of "\<lambda>s. q_waitTimeout (srv_queue s)"] assms(2)
    by (auto simp: server_defaults_def orDefault_def validServer_def split: if_splits)
  show "q_enabled (srv_queue s) \<noteq> None"
    using f [of "\<lambda>s. q_enabled (srv_queue s)"]
    by (cases "q_enabled (srv_queue s)") (auto simp: server_defaults_def)
  show "0 < srv_writeIdleTimeout s"
    using f [of srv_writeIdleTimeout] assms(2)
    by (auto simp: server_defaults_def orDefault_def validServer_def split: if_splits)
  show "0 < srv_readinessCacheTTL s"
    using f [of srv_readinessCacheTTL] assms(2)
    by (auto simp: server_defaults_def orDefault_def validServer_def split: if_splits)
  show "srv_requestTimeout s \<noteq> 0"
    using f [of srv_requestTimeout] by (auto simp: server_defaults_def orDefault_def split: if_splits)
qed

lemma readyConfigI:
  assumes d: "config_defaults c = c" and v: "validConfig c"
  shows "readyConfig c"
proof -
  have s: "server_defaults (cfg_server c) = cfg_server c"
    using arg_cong [OF d, of cfg_server] by (simp add: config_defaults_def)
  have "validServer (cfg_server c)" using v by (simp add: validConfig_def)
  moreover note server_defaults_fixed [OF s this]
  moreover have "\<forall>(name, p) \<in> set (cfg_providers c).
      usableLimits (prov_limits p) \<and> (prov_protocol p = ''openai'' \<or> prov_protocol p = ''ollama'')"
    using v defaults_fixed_limits(1) [OF d]
    by (fastforce simp: validConfig_def validProvider_def intro: usableLimits_defaults)
  moreover have "\<forall>(alias, m) \<in> set (cfg_models c). usableLimits (mdl_limits m)"
    using v defaults_fixed_limits(2) [OF d]
    by (fastforce simp: validConfig_def validModel_def intro: usableLimits_defaults)
  moreover have "\<forall>(alias, m) \<in> set (cfg_models c).
      \<forall>t \<in> set (resolvedTargets m). \<exists>p. (tgt_provider t, p) \<in> set (cfg_providers c)"
    using v by (fastforce simp: validConfig_def validModel_def validTarget_def)
  ultimately show ?thesis
    using defaults_fixed_limits(3) [OF d]
    by (auto simp: readyConfig_def validServer_def intro: usableLimits_defaults)
qed

text \<open>
  A configuration that \<^verbatim>\<open>Load\<close> returns satisfies the contract of validation, is a fixed
  point of the defaults, and has the positive bounds, usable rate limits and resolvable targets
  the request path relies on.
\<close>

lemma load_establishes_ready:
  assumes "load readFile decodeYAML path = Inr c"
  shows "validConfig c \<and> config_defaults c = c \<and> readyConfig c"
proof -
  obtain c0 where "c = config_defaults c0" and "validate c = None"
    using assms by (auto simp: load_def Let_def split: option.splits sum.splits)
  then show ?thesis
    using readyConfigI by (simp add: validate_valid config_defaults_idem)
qed

section \<open>Durations\<close>

text \<open>
  Claim C25. A duration written as whole numbers of units, such as \<^verbatim>\<open>1h30m\<close>, is read as exactly their sum in
  nanoseconds, with a minus sign in front as its negation, up to the limits of an \<^verbatim>\<open>int64\<close>; and whatever
  is read lies within these limits.
\<close>

theorem duration_roundtrip:
  assumes "ts \<noteq> []" and "validTerms ts" and "totalOf ts < 2 ^ 63"
  shows "unmarshalDuration (durationText ts) = Inr (int (totalOf ts)) \<and>
         unmarshalDuration (''-'' @ durationText ts) = Inr (- int (totalOf ts)) \<and>
         (\<forall>s d. unmarshalDuration s = Inr d \<longrightarrow> - (2 ^ 63) \<le> d \<and> d < 2 ^ 63)"
  using parseDuration_whole [OF assms(1,2)] assms(3) parseDuration_bounds
  by (auto simp: unmarshalDuration_def split: option.splits)

theorem duration_roundtrip_witness:
  "unmarshalDuration ''1h30m'' = Inr (90 * Minute) \<and> unmarshalDuration ''-1h30m'' = Inr (- 90 * Minute)"
proof -
  have "durationText [(1, ''h''), (30, ''m'')] = ''1h30m''"
    by (simp add: durationText_def showNat.simps char_of_def bit_0)
  moreover have "totalOf [(1, ''h''), (30, ''m'')] = 5400000000000" by (simp add: totalOf_def unitOf_def unitMap_def)
  ultimately show ?thesis
    using duration_roundtrip [of "[(1, ''h''), (30, ''m'')]"] by (simp add: validTerms_def unitMap_def)
qed

section \<open>An example configuration\<close>

text \<open>The configuration of the repository's own load test: one provider and one alias.\<close>

definition zeroLimits :: limits where
  "zeroLimits = \<lparr>requestsPerMinute = 0, burst = 0, maxConcurrent = 0\<rparr>"

definition zeroServer :: serverConfig where
  "zeroServer = \<lparr>srv_listen = [], srv_inboundAPIKeys = [], srv_usageDB = [],
     srv_maxConcurrentRequests = 0, srv_clientLimits = zeroLimits, srv_readHeaderTimeout = 0,
     srv_idleTimeout = 0, srv_requestTimeout = 0, srv_readTimeout = 0, srv_writeIdleTimeout = 0,
     srv_readinessCacheTTL = 0, srv_maxHeaderBytes = 0, srv_maxRequestBytes = 0,
     srv_queue = \<lparr>q_enabled = None, q_maxSize = 0, q_waitTimeout = 0\<rparr>,
     srv_logging = \<lparr>log_enabled = False, log_requests = False, log_responses = False,
                    log_includeBodies = False, log_maxBodyBytes = 0\<rparr>,
     srv_clientNetworks = [], srv_trustedProxyNetworks = []\<rparr>"

definition exampleProvider :: providerConfig where
  "exampleProvider = \<lparr>prov_baseURL = ''http://localhost:9999/v1'', prov_protocol = [],
     prov_apiKeyEnv = [], prov_headers = [],
     prov_autodiscover = \<lparr>ad_enabled = False, ad_prefix = [], ad_cacheTTL = 0\<rparr>,
     prov_limits = zeroLimits, prov_requestTimeout = 0\<rparr>"

definition exampleModel :: modelConfig where
  "exampleModel = \<lparr>mdl_provider = ''test'', mdl_model = ''real-model'', mdl_targets = [],
     mdl_retries = 0, mdl_limits = zeroLimits, mdl_overrides = [],
     mdl_prependSystemPrompt = [], mdl_appendSystemPrompt = []\<rparr>"

definition exampleConfig :: config where
  "exampleConfig = \<lparr>cfg_server = zeroServer, cfg_providers = [(''test'', exampleProvider)],
     cfg_models = [(''stable'', exampleModel)]\<rparr>"

definition exampleURL :: url where
  "exampleURL = emptyURL\<lparr>url_Scheme := ''http'', url_Host := ''localhost:9999'', url_Path := ''/v1''\<rparr>"

lemma exampleURL_parsed [simp]: "parseURL ''http://localhost:9999/v1'' = Some exampleURL"
  by code_simp

lemmas example_defs = exampleConfig_def exampleModel_def exampleProvider_def zeroServer_def
  zeroLimits_def exampleURL_def emptyURL_def

lemmas defaults_defs = config_defaults_def server_defaults_def provider_defaults_def
  model_defaults_def autodiscover_defaults_def limits_defaults_def orDefault_def orDefaultStr_def
  mapValues_def

lemmas validate_defs = validate_def validateProvider_def limits_validate_def validateServer_def
  validateModel_def protectedFields_def resolvedTargets_def mapKeys_def

lemma example_load:
  "load (\<lambda>_. Some []) (\<lambda>_. Inr exampleConfig) ''shepard.yaml''
     = Inr (config_defaults exampleConfig)"
  by (simp add: load_def validate_defs defaults_defs example_defs)

lemma load_establishes_ready_example:
  "readyConfig (config_defaults exampleConfig)"
  using load_establishes_ready [OF example_load] by simp

theorem validate_order_independent_witness:
  "validate
     (config_defaults exampleConfig\<lparr>cfg_models := [(''a'', exampleModel), (''b'', exampleModel)]\<rparr>) = None \<longleftrightarrow>
   validate
     (config_defaults exampleConfig\<lparr>cfg_models := [(''b'', exampleModel), (''a'', exampleModel)]\<rparr>) = None"
  by (rule validate_order_independent) (simp_all add: config_defaults_def mapValues_def add_mset_commute)

end
