(* ===== verification/Limiter.thy ===== *)
theory Limiter
  imports Config GoFloat
begin

text \<open>
  The admission limiter of \<^verbatim>\<open>internal/gateway/limiter.go\<close>: token buckets for request rates and
  counters for concurrency, per scope. A method runs under the store's mutex, so it is one atomic
  step; the clock it reads is the argument \<open>now\<close> (nanoseconds on the monotonic clock). The release
  closure that \<^verbatim>\<open>admit\<close> returns captures only the scopes, so releasing is a function of them.
\<close>

record admissionScope =
  scope_key :: string
  scope_limits :: limits

record bucketState =
  tokens :: rat
  updated :: int

record limitStore =
  buckets :: "string \<rightharpoonup> bucketState"
  concurrent :: "string \<rightharpoonup> int"

abbreviation rate :: "admissionScope \<Rightarrow> rat" where
  "rate sc \<equiv> requestsPerMinute (scope_limits sc)"

abbreviation maxConc :: "admissionScope \<Rightarrow> int" where
  "maxConc sc \<equiv> maxConcurrent (scope_limits sc)"

definition newLimitStore :: limitStore where
  "newLimitStore = \<lparr>buckets = Map.empty, concurrent = Map.empty\<rparr>"

definition limits_clear :: "limitStore \<Rightarrow> limitStore" where
  "limits_clear s = s\<lparr>buckets := Map.empty\<rparr>"

text \<open>Reading a key that is not in the counter map gives zero.\<close>

definition concCount :: "limitStore \<Rightarrow> string \<Rightarrow> int" where
  "concCount s k = (case concurrent s k of None \<Rightarrow> 0 | Some n \<Rightarrow> n)"

text \<open>The bucket of a scope at time \<open>now\<close>: full when new, otherwise refilled up to the burst.\<close>

definition currentBucket :: "limitStore \<Rightarrow> int \<Rightarrow> admissionScope \<Rightarrow> bucketState" where
  "currentBucket s now sc =
     (let maximum = fl64 (of_int (burst (scope_limits sc))) in
      case buckets s (scope_key sc) of
        None \<Rightarrow> \<lparr>tokens = maximum, updated = now\<rparr>
      | Some st \<Rightarrow>
          (let elapsed = minutesOf (timeSub now (updated st));
               t = fl64 (tokens st + fl64 (elapsed * rate sc))
           in \<lparr>tokens = (if t > maximum then maximum else t), updated = now\<rparr>))"

text \<open>
  The first loop of \<^verbatim>\<open>admit\<close>: check every scope. \<open>Inl\<close> is the rejection with the store it leaves,
  \<open>Inr\<close> the refreshed buckets when every scope has capacity.
\<close>

fun admitCheck ::
    "limitStore \<Rightarrow> int \<Rightarrow> admissionScope list \<Rightarrow> (string \<rightharpoonup> bucketState) \<Rightarrow> limitStore + (string \<rightharpoonup> bucketState)" where
  "admitCheck s now [] states = Inr states"
| "admitCheck s now (sc # scs) states =
     (if maxConc sc > 0 \<and> concCount s (scope_key sc) \<ge> maxConc sc then Inl s
      else if rate sc \<le> 0 then admitCheck s now scs states
      else let st = currentBucket s now sc in
        if tokens st < 1 then Inl (s\<lparr>buckets := (buckets s)(scope_key sc \<mapsto> st)\<rparr>)
        else admitCheck s now scs (states(scope_key sc \<mapsto> st)))"

text \<open>The second loop: consume one token and one concurrency slot per limited scope.\<close>

definition takeOne :: "(string \<rightharpoonup> bucketState) \<Rightarrow> admissionScope \<Rightarrow> limitStore \<Rightarrow> limitStore" where
  "takeOne states sc s =
     (let s1 = (if rate sc > 0 then
                  (let st = (case states (scope_key sc) of Some st \<Rightarrow> st | None \<Rightarrow> \<lparr>tokens = 0, updated = 0\<rparr>)
                   in s\<lparr>buckets := (buckets s)(scope_key sc \<mapsto> st\<lparr>tokens := fl64 (tokens st - 1)\<rparr>)\<rparr>)
                else s)
      in if maxConc sc > 0
         then s1\<lparr>concurrent := (concurrent s1)(scope_key sc \<mapsto> concCount s1 (scope_key sc) + 1)\<rparr>
         else s1)"

definition admit :: "limitStore \<Rightarrow> int \<Rightarrow> admissionScope list \<Rightarrow> limitStore \<times> bool" where
  "admit s now scopes =
     (case admitCheck s now scopes Map.empty of
        Inl s' \<Rightarrow> (s', False)
      | Inr states \<Rightarrow> (fold (takeOne states) scopes s, True))"

definition releaseOne :: "admissionScope \<Rightarrow> limitStore \<Rightarrow> limitStore" where
  "releaseOne sc s =
     (if maxConc sc > 0 \<and> concCount s (scope_key sc) > 0 then
        (let n = concCount s (scope_key sc) - 1 in
         s\<lparr>concurrent := (concurrent s)(scope_key sc := (if n = 0 then None else Some n))\<rparr>)
      else s)"

definition release :: "admissionScope list \<Rightarrow> limitStore \<Rightarrow> limitStore" where
  "release scopes s = fold releaseOne scopes s"

section \<open>Concurrency slots\<close>

text \<open>The slots a list of scopes takes of a key.\<close>

definition slots :: "string \<Rightarrow> admissionScope list \<Rightarrow> int" where
  "slots k scopes = int (length (filter (\<lambda>sc. scope_key sc = k \<and> maxConc sc > 0) scopes))"

lemma slots_simps [simp]:
  "slots k [] = 0"
  "slots k (sc # scs) = (if scope_key sc = k \<and> maxConc sc > 0 then 1 else 0) + slots k scs"
  by (simp_all add: slots_def)

lemma slots_nonneg: "0 \<le> slots k scs"
  by (simp add: slots_def)

text \<open>A counter that reaches zero is deleted: no key is stored with zero or less.\<close>

definition canonicalCounts :: "limitStore \<Rightarrow> bool" where
  "canonicalCounts s \<longleftrightarrow> (\<forall>k n. concurrent s k = Some n \<longrightarrow> 0 < n)"

lemma concCount_nonneg: "canonicalCounts s \<Longrightarrow> 0 \<le> concCount s k"
  by (auto simp: canonicalCounts_def concCount_def less_imp_le split: option.splits)

lemma concurrent_eqI:
  assumes "canonicalCounts s" "canonicalCounts t" "\<And>k. concCount s k = concCount t k"
  shows "concurrent s = concurrent t"
proof
  fix k
  show "concurrent s k = concurrent t k"
    using assms(3) [of k] assms(1,2)
    by (cases "concurrent s k"; cases "concurrent t k")
       (fastforce simp: canonicalCounts_def concCount_def)+
qed

lemma concCount_takeOne [limiter_simps]:
  "concCount (takeOne states sc s) k =
     concCount s k + (if scope_key sc = k \<and> maxConc sc > 0 then 1 else 0)"
  by (auto simp: takeOne_def Let_def concCount_def)

lemma canonical_takeOne [limiter_simps]: "canonicalCounts s \<Longrightarrow> canonicalCounts (takeOne states sc s)"
  using concCount_nonneg [of s]
  by (auto simp: canonicalCounts_def takeOne_def Let_def concCount_def add_pos_nonneg split: option.splits)

lemma concCount_fold_take:
  "concCount (fold (takeOne states) scs s) k = concCount s k + slots k scs"
  by (induction scs arbitrary: s) (auto simp: limiter_simps)

lemma canonical_fold_take: "canonicalCounts s \<Longrightarrow> canonicalCounts (fold (takeOne states) scs s)"
  by (induction scs arbitrary: s) (auto simp: limiter_simps)

lemma concCount_releaseOne [limiter_simps]:
  "concCount (releaseOne sc s) k =
     concCount s k - (if scope_key sc = k \<and> maxConc sc > 0 \<and> concCount s k > 0 then 1 else 0)"
  by (auto simp: releaseOne_def Let_def concCount_def)

lemma canonical_releaseOne [limiter_simps]: "canonicalCounts s \<Longrightarrow> canonicalCounts (releaseOne sc s)"
  by (auto simp: canonicalCounts_def releaseOne_def Let_def concCount_def split: option.splits)

lemma concCount_release:
  "(\<And>k. slots k scs \<le> concCount s k) \<Longrightarrow> concCount (release scs s) k = concCount s k - slots k scs"
proof (induction scs arbitrary: s)
  case (Cons sc scs)
  have step: "slots k' scs \<le> concCount (releaseOne sc s) k'" for k'
    using Cons.prems [of k'] slots_nonneg [of k' scs] by (auto simp: limiter_simps split: if_splits)
  have "concCount (release scs (releaseOne sc s)) k = concCount (releaseOne sc s) k - slots k scs"
    by (rule Cons.IH) (rule step)
  moreover have "scope_key sc = k \<Longrightarrow> maxConc sc > 0 \<Longrightarrow> concCount s k > 0"
    using Cons.prems [of k] slots_nonneg [of k scs] by auto
  ultimately show ?case
    by (auto simp: release_def concCount_releaseOne)
qed (simp add: release_def)

lemma canonical_release: "canonicalCounts s \<Longrightarrow> canonicalCounts (release scs s)"
  unfolding release_def by (induction scs arbitrary: s) (auto simp: limiter_simps)

lemma admitCheck_concurrent: "admitCheck s now scs states = Inl s' \<Longrightarrow> concurrent s' = concurrent s"
  by (induction s now scs states rule: admitCheck.induct) (auto simp: Let_def split: if_splits)

lemma admit_rejected_concurrent: "admit s now scs = (s', False) \<Longrightarrow> concurrent s' = concurrent s"
  by (auto simp: admit_def dest: admitCheck_concurrent split: sum.splits)

lemma admit_admitted_count:
  "admit s now scs = (s', True) \<Longrightarrow> concCount s' k = concCount s k + slots k scs"
  by (auto simp: admit_def concCount_fold_take split: sum.splits)

lemma admit_canonical: "canonicalCounts s \<Longrightarrow> canonicalCounts (fst (admit s now scs))"
  using canonical_fold_take [of s]
  by (auto simp: admit_def canonicalCounts_def [of "_ :: limitStore"] dest: admitCheck_concurrent
      split: sum.splits)

section \<open>The contract of admission\<close>

text \<open>
  What the callers of the limiter rely on: a rejection takes nothing, an admission takes what the
  request needs, and giving it back undoes exactly that.
\<close>

locale admission_control =
  fixes adm :: "'s \<Rightarrow> int \<Rightarrow> 'c \<Rightarrow> 's \<times> bool" and rel :: "'c \<Rightarrow> 's \<Rightarrow> 's"
    and inUse :: "'s \<Rightarrow> string \<Rightarrow> int" and need :: "string \<Rightarrow> 'c \<Rightarrow> int"
  assumes rejected_keeps: "adm s t c = (s', False) \<Longrightarrow> inUse s' k = inUse s k"
    and admitted_takes: "adm s t c = (s', True) \<Longrightarrow> inUse s' k = inUse s k + need k c"
    and release_gives: "(\<And>k. need k c \<le> inUse s k) \<Longrightarrow> inUse (rel c s) k = inUse s k - need k c"
    and need_nonneg: "0 \<le> need k c"
begin

lemma admit_release_balanced:
  assumes "adm s t c = (s', True)" and "\<And>k. 0 \<le> inUse s k"
  shows "inUse (rel c s') k = inUse s k"
proof -
  have "need k' c \<le> inUse s' k'" for k'
    using admitted_takes [OF assms(1), of k'] assms(2) [of k'] by simp
  then have "inUse (rel c s') k = inUse s' k - need k c" by (rule release_gives)
  then show ?thesis using admitted_takes [OF assms(1), of k] by simp
qed

lemma admit_bounds: "adm s t c = (s', b) \<Longrightarrow> inUse s k \<le> inUse s' k \<and> inUse s' k \<le> inUse s k + need k c"
  using rejected_keeps [of s t c s' k] admitted_takes [of s t c s' k] need_nonneg [of k c]
  by (cases b) auto

text \<open>Outstanding admissions account for all use.\<close>

lemma held_admit:
  assumes "\<And>k. inUse s k = sum_mset (image_mset (need k) H)" and "adm s t c = (s', b)"
  shows "inUse s' k = sum_mset (image_mset (need k) (if b then add_mset c H else H))"
  using assms rejected_keeps [of s t c s' k] admitted_takes [of s t c s' k] by (cases b) auto

lemma held_release:
  assumes held: "\<And>k. inUse s k = sum_mset (image_mset (need k) H)" and c: "c \<in># H"
  shows "inUse (rel c s) k = sum_mset (image_mset (need k) (H - {#c#}))"
proof -
  obtain H' where H: "H = add_mset c H'" using c by (metis insert_DiffM)
  have nn: "0 \<le> sum_mset (image_mset (need k') H')" for k'
    by (induction H') (auto simp: need_nonneg)
  have "need k' c \<le> inUse s k'" for k'
    using held [of k'] nn [of k'] by (simp add: H)
  then have "inUse (rel c s) k = inUse s k - need k c" by (rule release_gives)
  then show ?thesis using held [of k] by (simp add: H)
qed

end

interpretation lim: admission_control admit release concCount slots
proof unfold_locales
  fix s t c s' k
  show "admit s t c = (s', False) \<Longrightarrow> concCount s' k = concCount s k"
    by (drule admit_rejected_concurrent) (simp add: concCount_def)
  show "admit s t c = (s', True) \<Longrightarrow> concCount s' k = concCount s k + slots k c"
    by (rule admit_admitted_count)
next
  fix c s k
  show "(\<And>k. slots k c \<le> concCount s k) \<Longrightarrow> concCount (release c s) k = concCount s k - slots k c"
    by (rule concCount_release)
  show "0 \<le> slots k c" by (rule slots_nonneg)
qed

section \<open>All interleavings of admissions and releases\<close>

text \<open>
  The store together with the admissions that are outstanding, over every order of admissions,
  releases and reloads of any number of goroutines. \<open>B\<close> bounds the concurrency limits in force.
\<close>

type_synonym limiter_state = "limitStore \<times> admissionScope list multiset"

definition withinBounds :: "(string \<Rightarrow> int) \<Rightarrow> admissionScope list \<Rightarrow> bool" where
  "withinBounds B scopes \<longleftrightarrow>
     distinct (map scope_key scopes) \<and> (\<forall>sc \<in> set scopes. maxConc sc \<le> B (scope_key sc))"

inductive limiter_step :: "(string \<Rightarrow> int) \<Rightarrow> limiter_state \<Rightarrow> limiter_state \<Rightarrow> bool" for B where
  admitted: "withinBounds B scopes \<Longrightarrow> admit s now scopes = (s', True) \<Longrightarrow>
     limiter_step B (s, H) (s', add_mset scopes H)"
| rejected: "admit s now scopes = (s', False) \<Longrightarrow> limiter_step B (s, H) (s', H)"
| released: "scopes \<in># H \<Longrightarrow> limiter_step B (s, H) (release scopes s, H - {#scopes#})"
| cleared: "limiter_step B (s, H) (limits_clear s, H)"

inductive limiter_reachable :: "(string \<Rightarrow> int) \<Rightarrow> limiter_state \<Rightarrow> bool" for B where
  start: "limiter_reachable B (newLimitStore, {#})"
| step: "limiter_reachable B x \<Longrightarrow> limiter_step B x y \<Longrightarrow> limiter_reachable B y"

inductive_cases limiter_stepE: "limiter_step B (s, H) y"

definition held :: "string \<Rightarrow> admissionScope list multiset \<Rightarrow> int" where
  "held k H = sum_mset (image_mset (slots k) H)"

definition limiter_inv :: "(string \<Rightarrow> int) \<Rightarrow> limiter_state \<Rightarrow> bool" where
  "limiter_inv B x \<longleftrightarrow>
     (case x of (s, H) \<Rightarrow>
        canonicalCounts s \<and> (\<forall>k. concCount s k = held k H) \<and> (\<forall>k. concCount s k \<le> max 0 (B k)))"

lemma admitCheck_capacity:
  "admitCheck s now scs states = Inr r \<Longrightarrow> sc \<in> set scs \<Longrightarrow> maxConc sc > 0 \<Longrightarrow>
   concCount s (scope_key sc) < maxConc sc"
  by (induction s now scs states rule: admitCheck.induct) (auto simp: Let_def split: if_splits)

lemma admitted_capacity:
  "admit s now scs = (s', True) \<Longrightarrow> sc \<in> set scs \<Longrightarrow> maxConc sc > 0 \<Longrightarrow>
   concCount s (scope_key sc) < maxConc sc"
  by (auto simp: admit_def dest: admitCheck_capacity split: sum.splits)

lemma slots_distinct:
  "distinct (map scope_key scs) \<Longrightarrow>
   slots k scs = 0 \<or> slots k scs = 1 \<and> (\<exists>sc \<in> set scs. scope_key sc = k \<and> maxConc sc > 0)"
proof (induction scs)
  case (Cons sc scs)
  have "slots k scs = 0" if "k \<notin> scope_key ` set scs"
    using that by (induction scs) auto
  with Cons show ?case by auto
qed simp

lemma limiter_inv_cong:
  assumes "concurrent s' = concurrent s"
  shows "limiter_inv B (s', H) = limiter_inv B (s, H)"
  by (simp add: limiter_inv_def canonicalCounts_def concCount_def assms)

lemma limiter_step_inv: "limiter_step B x y \<Longrightarrow> limiter_inv B x \<Longrightarrow> limiter_inv B y"
proof (induction rule: limiter_step.induct)
  case (admitted scopes s now s' H)
  then have inv: "canonicalCounts s" "\<And>k. concCount s k = held k H" "\<And>k. concCount s k \<le> max 0 (B k)"
    by (auto simp: limiter_inv_def)
  have "concCount s' k \<le> max 0 (B k)" for k
  proof (cases "slots k scopes = 0")
    case True
    then show ?thesis using inv(3) lim.admitted_takes [OF admitted(2)] by simp
  next
    case False
    then obtain sc where sc: "sc \<in> set scopes" "scope_key sc = k" "maxConc sc > 0" "slots k scopes = 1"
      using admitted(1) slots_distinct by (auto simp: withinBounds_def)
    then have "concCount s k < maxConc sc" "maxConc sc \<le> B k"
      using admitted_capacity [OF admitted(2)] admitted(1) by (auto simp: withinBounds_def)
    then show ?thesis using lim.admitted_takes [OF admitted(2), of k] sc by simp
  qed
  moreover have "canonicalCounts s'"
    using admit_canonical [OF inv(1), of now scopes] admitted(2) by simp
  ultimately show ?case
    using lim.held_admit [OF _ admitted(2), of H] inv(2) by (simp add: limiter_inv_def held_def)
next
  case (rejected s now scopes s' H)
  then show ?case using limiter_inv_cong [OF admit_rejected_concurrent] by blast
next
  case (released scopes H s)
  then have inv: "canonicalCounts s" "\<And>k. concCount s k = held k H" "\<And>k. concCount s k \<le> max 0 (B k)"
    by (auto simp: limiter_inv_def)
  have eq: "concCount (release scopes s) k = held k (H - {#scopes#})" for k
    using lim.held_release [OF _ released(1)] inv(2) by (simp add: held_def)
  moreover have "held k (H - {#scopes#}) \<le> held k H" for k
    using slots_nonneg [of k scopes] released(1)
    by (auto simp: held_def dest!: multi_member_split)
  ultimately have "concCount (release scopes s) k \<le> max 0 (B k)" for k
    using inv(2,3) [of k] by (metis order_trans)
  with eq inv(1) show ?case by (simp add: limiter_inv_def canonical_release)
next
  case (cleared s H)
  then show ?case using limiter_inv_cong [of "limits_clear s" s B H] by (simp add: limits_clear_def)
qed

lemma limiter_reachable_inv: "limiter_reachable B x \<Longrightarrow> limiter_inv B x"
proof (induction rule: limiter_reachable.induct)
  case start
  show ?case by (simp add: limiter_inv_def newLimitStore_def canonicalCounts_def concCount_def held_def)
next
  case (step x y)
  then show ?case by (blast intro: limiter_step_inv)
qed

text \<open>
  Claim C2. In every state reachable by interleaved admissions, releases and reloads, the counter
  of a scope equals the number of outstanding admissions that hold a slot of it and never exceeds
  the largest concurrency limit that was in force for it (a reload that lowers a limit ends no admission).
\<close>

theorem concurrency_never_exceeded:
  assumes "limiter_reachable B (s, H)"
  shows "concCount s k = held k H \<and> concCount s k \<le> max 0 (B k)"
  using limiter_reachable_inv [OF assms] unfolding limiter_inv_def prod.case by blast

theorem concurrency_never_exceeded_witness:
  "\<exists>s H. limiter_reachable (\<lambda>_. 1) (s, H) \<and> H \<noteq> {#} \<and> concCount s ''ingress'' = 1 \<and>
         concCount s ''ingress'' \<le> max 0 1"
proof -
  let ?sc = "\<lparr>scope_key = ''ingress'', scope_limits = zeroLimits\<lparr>maxConcurrent := 1\<rparr>\<rparr>"
  let ?s = "fst (admit newLimitStore 0 [?sc])"
  have a: "admit newLimitStore 0 [?sc] = (?s, True)"
    by (simp add: admit_def newLimitStore_def concCount_def zeroLimits_def)
  have "limiter_step (\<lambda>_. 1) (newLimitStore, {#}) (?s, {#[?sc]#})"
    using limiter_step.admitted [OF _ a, of "\<lambda>_. 1" "{#}"] by (simp add: withinBounds_def)
  then have r: "limiter_reachable (\<lambda>_. 1) (?s, {#[?sc]#})"
    by (rule limiter_reachable.step [OF limiter_reachable.start])
  show ?thesis
    using concurrency_never_exceeded [OF r, of "''ingress''"] r
    by (intro exI [of _ ?s] exI [of _ "{#[?sc]#}"]) (simp add: held_def zeroLimits_def)
qed

section \<open>Token buckets\<close>

text \<open>
  A bucket of a scope with limits \<open>l\<close>: its content is a \<^verbatim>\<open>float64\<close> between zero and the burst, and
  its time stamp lies in the past.
\<close>

definition capacity :: "limits \<Rightarrow> rat" where
  "capacity l = fl64 (of_int (burst l))"

definition wfBucket :: "limits \<Rightarrow> int \<Rightarrow> bucketState \<Rightarrow> bool" where
  "wfBucket l now st \<longleftrightarrow>
     0 \<le> tokens st \<and> fl64 (tokens st) = tokens st \<and> tokens st \<le> capacity l \<and> updated st \<le> now"

definition wfStore :: "(string \<Rightarrow> limits) \<Rightarrow> int \<Rightarrow> limitStore \<Rightarrow> bool" where
  "wfStore L now s \<longleftrightarrow> (\<forall>k st. buckets s k = Some st \<longrightarrow> wfBucket (L k) now st)"

definition conforms :: "(string \<Rightarrow> limits) \<Rightarrow> admissionScope list \<Rightarrow> bool" where
  "conforms L scopes \<longleftrightarrow>
     distinct (map scope_key scopes) \<and> (\<forall>sc \<in> set scopes. scope_limits sc = L (scope_key sc))"

lemma capacity_float [simp]: "fl64 (capacity l) = capacity l"
  by (simp add: capacity_def fl64_idem)

lemma capacity_nonneg [simp]: "0 \<le> capacity l"
  by (simp add: capacity_def fl64_nonneg)

lemma wfBucket_later: "wfBucket l now st \<Longrightarrow> now \<le> later \<Longrightarrow> wfBucket l later st"
  by (auto simp: wfBucket_def)

lemma wfStore_later: "wfStore L now s \<Longrightarrow> now \<le> later \<Longrightarrow> wfStore L later s"
  by (auto simp: wfStore_def intro: wfBucket_later)

lemma currentBucket_wf: "wfBucket (scope_limits sc) now (currentBucket s now sc)"
  by (auto simp: currentBucket_def Let_def wfBucket_def capacity_def [symmetric] fl64_nonneg
        fl64_idem split: option.splits)

text \<open>Refilling never takes tokens away.\<close>

lemma currentBucket_grows:
  assumes "buckets s (scope_key sc) = Some st" and "wfBucket (scope_limits sc) now st" and "0 \<le> rate sc"
  shows "tokens st \<le> tokens (currentBucket s now sc)"
proof -
  have "0 \<le> fl64 (minutesOf (timeSub now (updated st)) * rate sc)"
    by (rule fl64_nonneg)
  then have "tokens st \<le> fl64 (tokens st + fl64 (minutesOf (timeSub now (updated st)) * rate sc))"
    using assms(2) by (intro f64.rnd_add_ge) (simp_all add: wfBucket_def)
  with assms show ?thesis
    by (simp add: currentBucket_def Let_def wfBucket_def capacity_def)
qed

text \<open>What \<^verbatim>\<open>admit\<close> does to the bucket of one key.\<close>

lemma admitCheck_Inl_bucket:
  "admitCheck s now scs states = Inl s' \<Longrightarrow>
   buckets s' k = buckets s k \<or>
   (\<exists>sc \<in> set scs. scope_key sc = k \<and> rate sc > 0 \<and> buckets s' k = Some (currentBucket s now sc))"
  by (induction s now scs states rule: admitCheck.induct) (auto simp: Let_def split: if_splits)

lemma admitCheck_Inr_other:
  "admitCheck s now scs states = Inr r \<Longrightarrow> k \<notin> scope_key ` set scs \<Longrightarrow> r k = states k"
  by (induction scs arbitrary: states) (auto simp: Let_def split: if_splits)

lemma admitCheck_Inr_states:
  "admitCheck s now scs states = Inr r \<Longrightarrow> distinct (map scope_key scs) \<Longrightarrow> sc \<in> set scs \<Longrightarrow> rate sc > 0 \<Longrightarrow>
   r (scope_key sc) = Some (currentBucket s now sc) \<and> 1 \<le> tokens (currentBucket s now sc)"
  by (induction scs arbitrary: states)
     (auto simp: Let_def admitCheck_Inr_other not_less split: if_splits)

lemma takeOne_bucket_other:
  "(rate sc > 0 \<Longrightarrow> scope_key sc \<noteq> k) \<Longrightarrow> buckets (takeOne st sc s) k = buckets s k"
  by (auto simp: takeOne_def Let_def)

lemma takeOne_bucket:
  "rate sc > 0 \<Longrightarrow> st (scope_key sc) = Some b \<Longrightarrow>
   buckets (takeOne st sc s) (scope_key sc) = Some (b\<lparr>tokens := fl64 (tokens b - 1)\<rparr>)"
  by (simp add: takeOne_def Let_def)

lemma fold_take_bucket_other:
  "(\<And>sc. sc \<in> set scs \<Longrightarrow> rate sc > 0 \<Longrightarrow> scope_key sc \<noteq> k) \<Longrightarrow>
   buckets (fold (takeOne st) scs s) k = buckets s k"
  by (induction scs arbitrary: s) (auto simp: takeOne_bucket_other)

lemma fold_take_bucket:
  "distinct (map scope_key scs) \<Longrightarrow> sc \<in> set scs \<Longrightarrow> rate sc > 0 \<Longrightarrow> st (scope_key sc) = Some b \<Longrightarrow>
   buckets (fold (takeOne st) scs s) (scope_key sc) = Some (b\<lparr>tokens := fl64 (tokens b - 1)\<rparr>)"
proof (induction scs arbitrary: s)
  case (Cons x scs)
  show ?case
  proof (cases "x = sc")
    case True
    with Cons.prems have "buckets (fold (takeOne st) scs t) (scope_key sc) = buckets t (scope_key sc)" for t
      by (intro fold_take_bucket_other) (auto, metis imageI)
    with True Cons.prems show ?thesis by (simp add: takeOne_bucket)
  next
    case False
    with Cons show ?thesis by simp
  qed
qed simp

lemma admit_bucket:
  assumes "admit s now scs = (s', ok)" and "distinct (map scope_key scs)"
  obtains
    (untouched) "buckets s' k = buckets s k" "ok \<Longrightarrow> \<nexists>sc. sc \<in> set scs \<and> scope_key sc = k \<and> rate sc > 0"
  | (refreshed) sc where "sc \<in> set scs" "scope_key sc = k" "rate sc > 0" "\<not> ok"
      "buckets s' k = Some (currentBucket s now sc)"
  | (taken) sc where "sc \<in> set scs" "scope_key sc = k" "rate sc > 0" "ok"
      "1 \<le> tokens (currentBucket s now sc)"
      "buckets s' k = Some ((currentBucket s now sc)\<lparr>tokens := fl64 (tokens (currentBucket s now sc) - 1)\<rparr>)"
proof (cases "admitCheck s now scs Map.empty")
  case (Inl x)
  then have "s' = x" "\<not> ok" using assms(1) by (auto simp: admit_def)
  with admitCheck_Inl_bucket [OF Inl, of k] show thesis
    using untouched refreshed by blast
next
  case (Inr r)
  then have s': "s' = fold (takeOne r) scs s" "ok" using assms(1) by (auto simp: admit_def)
  show thesis
  proof (cases "\<exists>sc. sc \<in> set scs \<and> scope_key sc = k \<and> rate sc > 0")
    case True
    then obtain sc where sc: "sc \<in> set scs" "scope_key sc = k" "rate sc > 0" by blast
    from admitCheck_Inr_states [OF Inr assms(2) sc(1,3)] fold_take_bucket [OF assms(2) sc(1,3)]
    show thesis using taken [OF sc s'(2)] s'(1) sc(2) by simp
  next
    case False
    then have "buckets s' k = buckets s k"
      unfolding s'(1) by (intro fold_take_bucket_other) auto
    with False show thesis by (intro untouched) auto
  qed
qed

text \<open>A bucket that exactly one token was taken from is still well formed.\<close>

lemma wfBucket_take:
  assumes "wfBucket l now b" and "1 \<le> tokens b"
  shows "wfBucket l now (b\<lparr>tokens := fl64 (tokens b - 1)\<rparr>)"
proof -
  have "fl64 (tokens b - 1) \<le> tokens b"
    using assms(1) by (intro f64.rnd_diff_le) (simp_all add: wfBucket_def)
  with assms(1) show ?thesis by (auto simp: wfBucket_def fl64_nonneg fl64_idem)
qed

lemma admit_wfStore:
  assumes wf: "wfStore L now s" and c: "conforms L scs" and a: "admit s now scs = (s', ok)"
  shows "wfStore L now s'"
  unfolding wfStore_def
proof (intro allI impI)
  fix k st
  assume st: "buckets s' k = Some st"
  have d: "distinct (map scope_key scs)" using c by (simp add: conforms_def)
  from a d show "wfBucket (L k) now st"
  proof (cases rule: admit_bucket [where k = k])
    case untouched
    with wf st show ?thesis by (simp add: wfStore_def)
  next
    case (refreshed sc)
    with st c currentBucket_wf [of sc now s] show ?thesis by (auto simp: conforms_def)
  next
    case (taken sc)
    with st c wfBucket_take [OF currentBucket_wf [of sc now s]] show ?thesis
      by (auto simp: conforms_def)
  qed
qed

text \<open>
  Claim C15. A multi-scope admission is all or nothing: when \<^verbatim>\<open>admit\<close> refuses, no concurrency slot
  was taken and no bucket lost a token; when it grants, every limited scope gave exactly one slot
  and every rate-limited scope had a full token, which was taken from it.
\<close>

theorem admit_all_or_nothing:
  assumes "wfStore L now s" and "conforms L scopes" and "admit s now scopes = (s', ok)"
  shows "if ok then
           (\<forall>k. concCount s' k = concCount s k + slots k scopes) \<and>
           (\<forall>sc \<in> set scopes. rate sc > 0 \<longrightarrow>
              1 \<le> tokens (currentBucket s now sc) \<and>
              (\<exists>st. buckets s' (scope_key sc) = Some st \<and>
                    tokens st = fl64 (tokens (currentBucket s now sc) - 1)))
         else
           concurrent s' = concurrent s \<and>
           (\<forall>k st. buckets s k = Some st \<longrightarrow>
              (\<exists>st'. buckets s' k = Some st' \<and> tokens st \<le> tokens st'))"
proof (cases ok)
  case True
  with assms(3) have "admit s now scopes = (s', True)" by simp
  moreover have "1 \<le> tokens (currentBucket s now sc) \<and>
      (\<exists>st. buckets s' (scope_key sc) = Some st \<and> tokens st = fl64 (tokens (currentBucket s now sc) - 1))"
    if sc: "sc \<in> set scopes" "rate sc > 0" for sc
  proof -
    obtain r where r: "admitCheck s now scopes Map.empty = Inr r" "s' = fold (takeOne r) scopes s"
      using assms(3) True by (auto simp: admit_def split: sum.splits)
    have d: "distinct (map scope_key scopes)" using assms(2) by (simp add: conforms_def)
    from admitCheck_Inr_states [OF r(1) d sc] fold_take_bucket [OF d sc] r(2) show ?thesis by simp
  qed
  ultimately show ?thesis using True lim.admitted_takes by simp
next
  case False
  have "\<exists>st'. buckets s' k = Some st' \<and> tokens st \<le> tokens st'" if st: "buckets s k = Some st" for k st
  proof -
    have d: "distinct (map scope_key scopes)" using assms(2) by (simp add: conforms_def)
    from assms(3) d show ?thesis
    proof (cases rule: admit_bucket [where k = k])
      case untouched
      with st show ?thesis by simp
    next
      case (refreshed sc)
      moreover from refreshed assms(1,2) st have "wfBucket (scope_limits sc) now st"
        by (auto simp: wfStore_def conforms_def)
      ultimately show ?thesis using st currentBucket_grows [of s sc st now] by auto
    next
      case (taken sc)
      with False show ?thesis by simp
    qed
  qed
  with False assms(3) show ?thesis by (auto dest: admit_rejected_concurrent)
qed

lemma wfStore_new: "wfStore L now newLimitStore"
  by (simp add: wfStore_def newLimitStore_def)

theorem admit_all_or_nothing_witness:
  "(let l = \<lparr>requestsPerMinute = 60, burst = 1, maxConcurrent = 1\<rparr>;
        sc = \<lparr>scope_key = ''rate'', scope_limits = l\<rparr>;
        s1 = fst (admit newLimitStore 0 [sc])
    in wfStore (\<lambda>_. l) 0 newLimitStore \<and> conforms (\<lambda>_. l) [sc] \<and> snd (admit newLimitStore 0 [sc]) \<and>
       concCount s1 ''rate'' = 1)"
proof -
  let ?l = "\<lparr>requestsPerMinute = 60, burst = 1, maxConcurrent = 1\<rparr>"
  let ?sc = "\<lparr>scope_key = ''rate'', scope_limits = ?l\<rparr>"
  let ?s1 = "fst (admit newLimitStore 0 [?sc])"
  have c: "conforms (\<lambda>_. ?l) [?sc]" by (simp add: conforms_def)
  have a: "admit newLimitStore 0 [?sc] = (?s1, True)"
    using f64.rnd_1 by (simp add: admit_def newLimitStore_def concCount_def currentBucket_def)
  from admit_all_or_nothing [OF wfStore_new c a]
  have "concCount ?s1 ''rate'' = concCount newLimitStore ''rate'' + slots ''rate'' [?sc]" by simp
  moreover have "concCount newLimitStore ''rate'' = 0" by (simp add: concCount_def newLimitStore_def)
  moreover have "snd (admit newLimitStore 0 [?sc])" using a by (metis snd_conv)
  ultimately show ?thesis
    using c wfStore_new by (simp add: Let_def)
qed

section \<open>The request rate\<close>

text \<open>Runs of the store: a list of calls of \<^verbatim>\<open>admit\<close> and of release closures, each at its time.\<close>

datatype limiter_op = OpAdmit int "admissionScope list" | OpRelease "admissionScope list"

definition charges :: "string \<Rightarrow> admissionScope list \<Rightarrow> bool" where
  "charges k scopes \<longleftrightarrow> list_ex (\<lambda>sc. scope_key sc = k \<and> rate sc > 0) scopes"

text \<open>The store after a run, and how many of its admissions were granted against the rate of \<open>k\<close>.\<close>

fun runOps :: "string \<Rightarrow> limitStore \<Rightarrow> limiter_op list \<Rightarrow> limitStore \<times> nat" where
  "runOps k s [] = (s, 0)"
| "runOps k s (OpAdmit now scopes # ops) =
     (case admit s now scopes of (s', ok) \<Rightarrow>
        case runOps k s' ops of (s'', n) \<Rightarrow> (s'', (if ok \<and> charges k scopes then Suc n else n)))"
| "runOps k s (OpRelease scopes # ops) = runOps k (release scopes s) ops"

fun opsFrom :: "(string \<Rightarrow> limits) \<Rightarrow> int \<Rightarrow> limiter_op list \<Rightarrow> bool" where
  "opsFrom L t [] \<longleftrightarrow> True"
| "opsFrom L t (OpAdmit now scopes # ops) \<longleftrightarrow> t \<le> now \<and> conforms L scopes \<and> opsFrom L now ops"
| "opsFrom L t (OpRelease scopes # ops) \<longleftrightarrow> opsFrom L t ops"

fun endTime :: "int \<Rightarrow> limiter_op list \<Rightarrow> int" where
  "endTime t [] = t"
| "endTime t (OpAdmit now scopes # ops) = endTime now ops"
| "endTime t (OpRelease scopes # ops) = endTime t ops"

abbreviation eps64 :: rat where
  "eps64 \<equiv> 1 / 2 ^ 53"

text \<open>Tokens that accrue over \<open>d\<close> nanoseconds, with the rounding of the three conversions.\<close>

definition accrual :: "limits \<Rightarrow> int \<Rightarrow> rat" where
  "accrual l d = (1 + eps64) ^ 3 * requestsPerMinute l * (of_int d / 60000000000)"

lemma accrual_add: "accrual l (d + e) = accrual l d + accrual l e"
  by (simp add: accrual_def add_divide_distrib distrib_left)

lemma accrual_nonneg: "0 \<le> requestsPerMinute l \<Longrightarrow> 0 \<le> d \<Longrightarrow> 0 \<le> accrual l d"
  by (simp add: accrual_def)

lemma accrual_mono: "0 \<le> requestsPerMinute l \<Longrightarrow> d \<le> e \<Longrightarrow> accrual l d \<le> accrual l e"
  using accrual_add [of l d "e - d"] accrual_nonneg [of l "e - d"] by simp

lemma fl64_upper_factor: "0 \<le> x \<Longrightarrow> x \<le> y \<Longrightarrow> fl64 x \<le> (1 + eps64) * y"
proof -
  assume "0 \<le> x" "x \<le> y"
  then have "fl64 x \<le> x + eps64 * x" by (intro fl64_upper)
  also have "\<dots> = (1 + eps64) * x" by (simp only: distrib_right mult_1)
  also have "\<dots> \<le> (1 + eps64) * y" using \<open>x \<le> y\<close> by (rule mult_left_mono) simp
  finally show ?thesis .
qed

lemma refill_upper:
  assumes "u \<le> now" and r: "0 \<le> requestsPerMinute l"
  shows "fl64 (minutesOf (timeSub now u) * requestsPerMinute l) \<le> accrual l (now - u)"
proof -
  let ?d = "timeSub now u" and ?c = "1 + eps64"
  have d: "0 \<le> ?d" "?d < 2 ^ 63" "?d \<le> now - u" using timeSub_bounds [OF assms(1)] by auto
  have "minutesOf ?d * requestsPerMinute l \<le> (?c ^ 2 * (of_int ?d / 60000000000)) * requestsPerMinute l"
    using minutesOf_upper [OF d(1,2)] r by (rule mult_right_mono)
  then have "fl64 (minutesOf ?d * requestsPerMinute l)
      \<le> ?c * ((?c ^ 2 * (of_int ?d / 60000000000)) * requestsPerMinute l)"
    using minutesOf_nonneg [OF d(1)] r by (intro fl64_upper_factor mult_nonneg_nonneg)
  also have "\<dots> = accrual l ?d"
    unfolding accrual_def power2_eq_square power3_eq_cube by (simp only: ac_simps)
  also have "\<dots> \<le> accrual l (now - u)" using r d(3) by (rule accrual_mono)
  finally show ?thesis .
qed

text \<open>What the bucket of \<open>k\<close> can give at time \<open>t\<close>.\<close>

definition available :: "limits \<Rightarrow> string \<Rightarrow> limitStore \<Rightarrow> int \<Rightarrow> rat" where
  "available l k s t =
     (case buckets s k of None \<Rightarrow> capacity l | Some st \<Rightarrow> tokens st + accrual l (t - updated st))"

lemma available_nonneg:
  "wfStore L t s \<Longrightarrow> 0 \<le> requestsPerMinute (L k) \<Longrightarrow> 0 \<le> available (L k) k s t"
  by (auto simp: available_def wfStore_def wfBucket_def accrual_nonneg split: option.splits)

lemma available_later:
  assumes "0 \<le> requestsPerMinute l" and "t \<le> now"
  shows "available l k s now \<le> available l k s t + accrual l (now - t)"
proof (cases "buckets s k")
  case None
  then show ?thesis using accrual_nonneg [of l "now - t"] assms by (simp add: available_def)
next
  case (Some st)
  then show ?thesis using accrual_add [of l "t - updated st" "now - t"] by (simp add: available_def)
qed

text \<open>What one rounding at the burst can add.\<close>

definition roundingLoss :: "limits \<Rightarrow> rat" where
  "roundingLoss l = eps64 * capacity l"

lemma roundingLoss_nonneg: "0 \<le> roundingLoss l"
  by (simp add: roundingLoss_def)

lemma currentBucket_upper:
  assumes "wfStore L now s" and l: "scope_limits sc = L (scope_key sc)" and r: "0 \<le> rate sc"
  shows "tokens (currentBucket s now sc) \<le>
           available (L (scope_key sc)) (scope_key sc) s now + roundingLoss (L (scope_key sc))"
proof (cases "buckets s (scope_key sc)")
  case None
  then show ?thesis
    using roundingLoss_nonneg by (simp add: currentBucket_def available_def l capacity_def [symmetric])
next
  case (Some st)
  let ?l = "L (scope_key sc)"
  let ?i = "fl64 (minutesOf (timeSub now (updated st)) * rate sc)"
  have st: "0 \<le> tokens st" "updated st \<le> now"
    using assms(1) Some by (auto simp: wfStore_def wfBucket_def)
  have "tokens (currentBucket s now sc) = min (capacity ?l) (fl64 (tokens st + ?i))"
    using Some by (simp add: currentBucket_def Let_def l capacity_def min_def)
  also have "\<dots> \<le> tokens st + ?i + roundingLoss ?l"
    unfolding roundingLoss_def using st fl64_nonneg by (intro f64.rnd_capped_sum) simp_all
  also have "?i \<le> accrual ?l (now - updated st)"
    using refill_upper [OF st(2), of ?l] r l by simp
  finally show ?thesis using Some by (simp add: available_def)
qed

text \<open>One call pays for its admission out of what is available, up to two roundings.\<close>

lemma admit_pays:
  assumes wf: "wfStore L now s" and c: "conforms L scopes" and a: "admit s now scopes = (s', ok)"
    and r: "0 \<le> requestsPerMinute (L k)"
  shows "(if ok \<and> charges k scopes then 1 else 0) + available (L k) k s' now
           \<le> available (L k) k s now + 2 * roundingLoss (L k)"
proof -
  have e: "0 \<le> roundingLoss (L k)" by (rule roundingLoss_nonneg)
  have d: "distinct (map scope_key scopes)" using c by (simp add: conforms_def)
  have cur: "tokens (currentBucket s now sc) \<le> available (L k) k s now + roundingLoss (L k)"
    if "sc \<in> set scopes" "scope_key sc = k" for sc
    using currentBucket_upper [OF wf, of sc] that c r by (auto simp: conforms_def)
  have acc0: "accrual (L k) 0 = 0" by (simp add: accrual_def)
  have upd: "updated (currentBucket s now sc) = now" for sc
    by (simp add: currentBucket_def Let_def split: option.splits)
  from a d show ?thesis
  proof (cases rule: admit_bucket [where k = k])
    case untouched
    then have "available (L k) k s' now = available (L k) k s now" by (simp add: available_def)
    with untouched e show ?thesis by (auto simp: charges_def list_ex_iff)
  next
    case (refreshed sc)
    then have "available (L k) k s' now = tokens (currentBucket s now sc)"
      by (simp add: available_def upd acc0)
    with cur [OF refreshed(1,2)] refreshed(4) e show ?thesis by simp
  next
    case (taken sc)
    let ?t = "tokens (currentBucket s now sc)"
    have "available (L k) k s' now = fl64 (?t - 1)"
      using taken by (simp add: available_def upd acc0)
    moreover have "fl64 (?t - 1) \<le> (?t - 1) + eps64 * (?t - 1)"
      using taken(5) by (intro fl64_upper) simp
    moreover have "eps64 * (?t - 1) \<le> roundingLoss (L k)"
      unfolding roundingLoss_def using currentBucket_wf [of sc now s] taken(1,2) c
      by (intro mult_left_mono) (auto simp: wfBucket_def conforms_def)
    ultimately show ?thesis using cur [OF taken(1,2)] by (simp only: split: if_splits) linarith
  qed
qed

lemma release_buckets: "buckets (release scopes s) = buckets s"
  unfolding release_def
  by (induction scopes arbitrary: s) (auto simp: releaseOne_def Let_def)

lemma rate_bound:
  assumes "wfStore L t s" and "opsFrom L t ops" and r: "0 \<le> requestsPerMinute (L k)"
  shows "rat_of_nat (snd (runOps k s ops)) \<le>
           available (L k) k s t + accrual (L k) (endTime t ops - t) +
           of_nat (length ops) * (2 * roundingLoss (L k))"
  using assms(1,2)
proof (induction ops arbitrary: s t)
  case Nil
  then show ?case using available_nonneg [OF Nil(1) r] by (simp add: accrual_def)
next
  case (Cons op ops)
  show ?case
  proof (cases op)
    case (OpAdmit now scopes)
    obtain s' ok where a: "admit s now scopes = (s', ok)" by force
    have p: "t \<le> now" "conforms L scopes" "opsFrom L now ops" "wfStore L now s"
      using Cons.prems OpAdmit wfStore_later by auto
    have "rat_of_nat (snd (runOps k s (op # ops)))
        = (if ok \<and> charges k scopes then 1 else 0) + rat_of_nat (snd (runOps k s' ops))"
      by (simp add: OpAdmit a split: prod.split)
    moreover note Cons.IH [OF admit_wfStore [OF p(4,2) a] p(3)] admit_pays [OF p(4,2) a r]
      available_later [OF r p(1), of k s]
    moreover have "accrual (L k) (endTime now ops - t) = accrual (L k) (endTime now ops - now) + accrual (L k) (now - t)"
      using accrual_add [of "L k" "endTime now ops - now" "now - t"] by simp
    ultimately show ?thesis by (simp add: OpAdmit distrib_right)
  next
    case (OpRelease scopes)
    have "wfStore L t (release scopes s)" "opsFrom L t ops"
      using Cons.prems OpRelease by (auto simp: wfStore_def release_buckets)
    from Cons.IH [OF this] roundingLoss_nonneg [of "L k"] show ?thesis
      by (simp add: OpRelease available_def release_buckets distrib_right)
  qed
qed

text \<open>
  Claim C16. Over any run of admissions and releases, with no reload in between (which would grant the burst anew), that starts with no bucket for the scope, the
  number of admissions granted against its rate is at most the burst, plus what the rate accrues
  from the first to the last call, up to the rounding of \<^verbatim>\<open>float64\<close>: three relative errors of
  \<open>2\<^sup>-\<^sup>5\<^sup>3\<close> on the accrual and two on the burst per call.
\<close>

theorem admitted_rate_bounded:
  assumes "wfStore L t s" and "buckets s k = None" and "opsFrom L t ops"
    and "0 \<le> requestsPerMinute (L k)"
  shows "rat_of_nat (snd (runOps k s ops)) \<le>
           capacity (L k) + accrual (L k) (endTime t ops - t) +
           of_nat (length ops) * (2 * roundingLoss (L k))"
  using rate_bound [OF assms(1,3,4)] assms(2) by (simp add: available_def)

theorem admitted_rate_bounded_witness:
  "(let l = \<lparr>requestsPerMinute = 60, burst = 1, maxConcurrent = 0\<rparr>;
        sc = \<lparr>scope_key = ''rate'', scope_limits = l\<rparr>
    in opsFrom (\<lambda>_. l) 0 [OpAdmit 0 [sc], OpAdmit 0 [sc]] \<and>
       snd (runOps ''rate'' newLimitStore [OpAdmit 0 [sc], OpAdmit 0 [sc]]) \<le> 1)"
proof -
  let ?l = "\<lparr>requestsPerMinute = 60, burst = 1, maxConcurrent = 0\<rparr>"
  let ?sc = "\<lparr>scope_key = ''rate'', scope_limits = ?l\<rparr>"
  let ?ops = "[OpAdmit 0 [?sc], OpAdmit 0 [?sc]]"
  have o: "opsFrom (\<lambda>_. ?l) 0 ?ops" by (simp add: conforms_def)
  have "rat_of_nat (snd (runOps ''rate'' newLimitStore ?ops)) \<le>
      capacity ?l + accrual ?l (endTime 0 ?ops - 0) + of_nat (length ?ops) * (2 * roundingLoss ?l)"
    using wfStore_new o by (intro admitted_rate_bounded [where L = "\<lambda>_. ?l"]) (simp_all add: newLimitStore_def)
  also have "\<dots> < 2" using f64.rnd_1 by (simp add: capacity_def accrual_def roundingLoss_def)
  finally have "snd (runOps ''rate'' newLimitStore ?ops) < 2" by (metis of_nat_less_iff of_nat_numeral)
  then have "snd (runOps ''rate'' newLimitStore ?ops) \<le> 1" by linarith
  with o show ?thesis unfolding Let_def by blast
qed

section \<open>Admission is decided by capacity\<close>

definition hasCapacity :: "limitStore \<Rightarrow> int \<Rightarrow> admissionScope \<Rightarrow> bool" where
  "hasCapacity s now sc \<longleftrightarrow>
     (maxConc sc > 0 \<longrightarrow> concCount s (scope_key sc) < maxConc sc) \<and>
     (rate sc > 0 \<longrightarrow> 1 \<le> tokens (currentBucket s now sc))"

lemma admitCheck_capacity_iff:
  "(\<exists>r. admitCheck s now scs states = Inr r) \<longleftrightarrow> list_all (hasCapacity s now) scs"
  by (induction scs arbitrary: states) (auto simp: Let_def hasCapacity_def not_less)

lemma admit_iff_capacity: "snd (admit s now scs) \<longleftrightarrow> list_all (hasCapacity s now) scs"
  using admitCheck_capacity_iff [of s now scs Map.empty]
  by (auto simp: admit_def split: sum.splits)

lemma refilled_bucket:
  assumes "wfBucket (scope_limits sc) now st" and "buckets s (scope_key sc) = Some st"
    and "1 \<le> burst (scope_limits sc)" and "1 \<le> minutesOf (timeSub now (updated st)) * rate sc"
  shows "1 \<le> tokens (currentBucket s now sc)"
proof -
  have "1 \<le> fl64 (minutesOf (timeSub now (updated st)) * rate sc)"
    using assms(4) by (rule f64.rnd_ge_1)
  then have "1 \<le> tokens st + fl64 (minutesOf (timeSub now (updated st)) * rate sc)"
    using assms(1) by (simp add: wfBucket_def)
  then have "1 \<le> fl64 (tokens st + fl64 (minutesOf (timeSub now (updated st)) * rate sc))"
    by (rule f64.rnd_ge_1)
  moreover have "1 \<le> fl64 (of_int (burst (scope_limits sc)))"
    using assms(3) by (intro f64.rnd_ge_1) simp
  ultimately show ?thesis using assms(2) by (simp add: currentBucket_def Let_def)
qed

text \<open>
  Claim C17. A client is not locked out: whatever happened before, once every limited scope has a
  free slot and the time for one token has passed since the bucket was last touched, the next call
  of \<^verbatim>\<open>admit\<close> grants the request.
\<close>

theorem admit_recovers:
  assumes "wfStore L now s" and "conforms L scopes"
    and "\<And>sc. sc \<in> set scopes \<Longrightarrow> maxConc sc > 0 \<Longrightarrow> concCount s (scope_key sc) < maxConc sc"
    and "\<And>sc. sc \<in> set scopes \<Longrightarrow> rate sc > 0 \<Longrightarrow> 1 \<le> burst (scope_limits sc)"
    and "\<And>sc st. sc \<in> set scopes \<Longrightarrow> rate sc > 0 \<Longrightarrow> buckets s (scope_key sc) = Some st \<Longrightarrow>
           1 \<le> minutesOf (timeSub now (updated st)) * rate sc"
  shows "snd (admit s now scopes)"
proof -
  have "1 \<le> tokens (currentBucket s now sc)" if sc: "sc \<in> set scopes" "rate sc > 0" for sc
  proof (cases "buckets s (scope_key sc)")
    case None
    have "1 \<le> fl64 (of_int (burst (scope_limits sc)))"
      using assms(4) [OF sc] by (intro f64.rnd_ge_1) simp
    with None show ?thesis by (simp add: currentBucket_def)
  next
    case (Some st)
    then have "wfBucket (scope_limits sc) now st"
      using assms(1,2) sc(1) by (auto simp: wfStore_def conforms_def)
    then show ?thesis
      using Some assms(4) [OF sc] assms(5) [OF sc Some] by (rule refilled_bucket)
  qed
  then show ?thesis using assms(3) by (simp add: admit_iff_capacity list_all_iff hasCapacity_def)
qed

text \<open>A bucket emptied at time zero admits again one minute later at one request per minute.\<close>

theorem admit_recovers_witness:
  "(let l = \<lparr>requestsPerMinute = 1, burst = 1, maxConcurrent = 1\<rparr>;
        sc = \<lparr>scope_key = ''rate'', scope_limits = l\<rparr>;
        s = \<lparr>buckets = [''rate'' \<mapsto> \<lparr>tokens = 0, updated = 0\<rparr>], concurrent = Map.empty\<rparr>
    in \<not> snd (admit s 0 [sc]) \<and> snd (admit s 60000000000 [sc]))"
proof -
  let ?l = "\<lparr>requestsPerMinute = 1, burst = 1, maxConcurrent = 1\<rparr>"
  let ?sc = "\<lparr>scope_key = ''rate'', scope_limits = ?l\<rparr>"
  let ?s = "\<lparr>buckets = [''rate'' \<mapsto> \<lparr>tokens = 0, updated = 0\<rparr>], concurrent = Map.empty\<rparr>"
  have minute: "minutesOf 60000000000 = 1" "minutesOf 0 = 0"
    using f64.rnd_1 f64.rnd_0 by (simp_all add: minutesOf_def signed_divide_int_def signed_modulo_int_def)
  have "snd (admit ?s 60000000000 [?sc])"
    using capacity_nonneg [of ?l] f64.rnd_0
    by (intro admit_recovers [where L = "\<lambda>_. ?l"])
       (auto simp: wfStore_def wfBucket_def conforms_def concCount_def timeSub_def minute split: if_splits)
  moreover have "\<not> snd (admit ?s 0 [?sc])"
    using f64.rnd_1 f64.rnd_0
    by (simp add: admit_iff_capacity hasCapacity_def currentBucket_def timeSub_def minute)
  ultimately show ?thesis by (simp only: Let_def) blast
qed

end
