(* ===== verification/Queue.thy ===== *)
theory Queue
  imports Limiter
begin

text \<open>
  The bounded waiting room of \<^verbatim>\<open>internal/gateway/queue.go\<close> and
  \<^verbatim>\<open>Gateway.admitWithQueue\<close>. The counter is a Go \<^verbatim>\<open>int\<close>; it counts goroutines, so it cannot reach
  its bounds and is an integer here.

  \<^verbatim>\<open>wait\<close> blocks, and other goroutines run while it does. What happens to one call while it blocks
  is a list of events: the ticker fires, the deadline passes, the context is cancelled, or other
  goroutines change the shared queue and store. A call that has used up its events still blocks:
  the result is \<open>None\<close>. The second half of the theory puts any number of calls of \<^verbatim>\<open>wait\<close> side by
  side, one atomic step (one critical section) at a time.
\<close>

record requestQueue =
  waiting :: int
  qmax :: int

definition newRequestQueue :: "int \<Rightarrow> requestQueue" where
  "newRequestQueue m = \<lparr>waiting = 0, qmax = m\<rparr>"

definition depth :: "requestQueue \<Rightarrow> int" where
  "depth q = waiting q"

definition setMax :: "int \<Rightarrow> requestQueue \<Rightarrow> requestQueue" where
  "setMax m q = q\<lparr>qmax := m\<rparr>"

definition enter :: "requestQueue \<Rightarrow> requestQueue \<times> bool" where
  "enter q =
     (if qmax q \<le> 0 \<or> waiting q \<ge> qmax q then (q, False)
      else (q\<lparr>waiting := waiting q + 1\<rparr>, True))"

definition leave :: "requestQueue \<Rightarrow> requestQueue" where
  "leave q = (if waiting q > 0 then q\<lparr>waiting := waiting q - 1\<rparr> else q)"

type_synonym 's shared = "requestQueue \<times> 's"

datatype 's wait_event =
    Tick int
  | Deadline
  | Cancelled
  | Others "'s shared \<Rightarrow> 's shared"

text \<open>The loop of \<^verbatim>\<open>wait\<close>; without a timeout there is no deadline to pass. \<^verbatim>\<open>defer q.leave()\<close> runs on every return.\<close>

fun waitLoop ::
    "int \<Rightarrow> (int \<Rightarrow> 's \<Rightarrow> 's \<times> bool) \<Rightarrow> 's wait_event list \<Rightarrow> 's shared \<Rightarrow> ('s shared \<times> bool) option" where
  "waitLoop timeout attempt [] st = None"
| "waitLoop timeout attempt (Tick now # evs) (q, s) =
     (case attempt now s of
        (s', True) \<Rightarrow> Some ((leave q, s'), True)
      | (s', False) \<Rightarrow> waitLoop timeout attempt evs (q, s'))"
| "waitLoop timeout attempt (Deadline # evs) (q, s) =
     (if timeout > 0 then Some ((leave q, s), False) else waitLoop timeout attempt evs (q, s))"
| "waitLoop timeout attempt (Cancelled # evs) (q, s) = Some ((leave q, s), False)"
| "waitLoop timeout attempt (Others f # evs) st = waitLoop timeout attempt evs (f st)"

text \<open>
  The results of \<^verbatim>\<open>wait\<close> are the final state, whether a release closure was obtained and whether the
  call had to queue. \<open>between\<close> is what others do between the first attempt and \<^verbatim>\<open>enter\<close>.
\<close>

record 's wait_env =
  first_now :: int
  between :: "'s shared \<Rightarrow> 's shared"
  events :: "'s wait_event list"

definition wait ::
    "int \<Rightarrow> (int \<Rightarrow> 's \<Rightarrow> 's \<times> bool) \<Rightarrow> 's wait_env \<Rightarrow> 's shared \<Rightarrow> ('s shared \<times> bool \<times> bool) option" where
  "wait timeout attempt env st =
     (case st of (q, s) \<Rightarrow>
      case attempt (first_now env) s of
        (s', True) \<Rightarrow> Some ((q, s'), True, False)
      | (s', False) \<Rightarrow>
         (case between env (q, s') of (q1, s1) \<Rightarrow>
            case enter q1 of
              (q2, False) \<Rightarrow> Some ((q2, s1), False, False)
            | (q2, True) \<Rightarrow>
               (case waitLoop timeout attempt (events env) (q2, s1) of
                  None \<Rightarrow> None
                | Some (st', ok) \<Rightarrow> Some (st', ok, True))))"

definition admitWithQueue ::
    "int \<Rightarrow> admissionScope list \<Rightarrow> limitStore wait_env \<Rightarrow> limitStore shared
     \<Rightarrow> (limitStore shared \<times> bool \<times> bool) option" where
  "admitWithQueue timeout scopes env st = wait timeout (\<lambda>now s. admit s now scopes) env st"

section \<open>One call\<close>

lemma waitLoop_returns:
  "Cancelled \<in> set evs \<or> timeout > 0 \<and> Deadline \<in> set evs \<Longrightarrow> \<exists>r. waitLoop timeout attempt evs st = Some r"
  by (induction timeout attempt evs st rule: waitLoop.induct)
     (auto split: prod.splits bool.splits)

lemma wait_returns:
  assumes "Cancelled \<in> set (events env) \<or> timeout > 0 \<and> Deadline \<in> set (events env)"
  shows "\<exists>r. wait timeout attempt env st = Some r"
proof -
  have "\<exists>r. waitLoop timeout attempt (events env) st' = Some r" for st'
    using assms by (rule waitLoop_returns)
  then obtain r where "waitLoop timeout attempt (events env) st' = Some (r st')" for st' by metis
  then have "wait timeout attempt env st \<noteq> None"
    by (auto simp: wait_def split: prod.split bool.split)
  then show ?thesis by blast
qed

lemma waitLoop_tick:
  "waitLoop timeout attempt evs (q, s) = Some ((q', s'), True) \<Longrightarrow>
   \<exists>now s0. Tick now \<in> set evs \<and> attempt now s0 = (s', True)"
  by (induction timeout attempt evs "(q, s)" arbitrary: q s rule: waitLoop.induct)
     (auto split: prod.splits bool.splits if_splits, blast+, metis surj_pair)

lemma wait_cases:
  assumes "wait timeout attempt env (q, s) = Some ((q', s'), ok, queued)"
  obtains
    (direct) "attempt (first_now env) s = (s', True)" "q' = q" "ok" "\<not> queued"
  | (refused) s1 where "attempt (first_now env) s = (s1, False)" "\<not> ok" "\<not> queued"
      "(q', s') = between env (q, s1)" "qmax q' \<le> 0 \<or> waiting q' \<ge> qmax q'"
  | (queued) s1 q1 s2 q2 where "attempt (first_now env) s = (s1, False)" "queued"
      "between env (q, s1) = (q1, s2)" "enter q1 = (q2, True)"
      "waitLoop timeout attempt (events env) (q2, s2) = Some ((q', s'), ok)"
  using assms
  by (auto simp: wait_def enter_def split: prod.splits bool.splits option.splits if_splits)

text \<open>The wait has an end: the context ends, or there is a deadline and it passes.\<close>

definition boundedWait :: "duration \<Rightarrow> limitStore wait_env \<Rightarrow> bool" where
  "boundedWait timeout env \<longleftrightarrow> Cancelled \<in> set (events env) \<or> timeout > 0 \<and> Deadline \<in> set (events env)"

lemma admitWithQueue_bounded:
  "boundedWait timeout env \<Longrightarrow> \<exists>sh' ok queued. admitWithQueue timeout scopes env sh = Some (sh', ok, queued)"
  using wait_returns [of env timeout "\<lambda>now s. admit s now scopes" sh] by (fastforce simp: boundedWait_def admitWithQueue_def)

text \<open>Other goroutines that leave the concurrency counters as they found them.\<close>

abbreviation countOf :: "limitStore shared \<Rightarrow> string \<Rightarrow> int" where
  "countOf sh \<equiv> concCount (snd sh)"

definition neutral :: "(limitStore shared \<Rightarrow> limitStore shared) \<Rightarrow> bool" where
  "neutral f \<longleftrightarrow> (\<forall>sh k. countOf (f sh) k = countOf sh k)"

definition neutralWait :: "limitStore wait_env \<Rightarrow> bool" where
  "neutralWait env \<longleftrightarrow> neutral (between env) \<and> (\<forall>f. Others f \<in> set (events env) \<longrightarrow> neutral f)"

lemma neutralD: "neutral f \<Longrightarrow> countOf (f sh) k = countOf sh k"
  unfolding neutral_def by blast

lemma waitLoop_counts:
  "waitLoop timeout (\<lambda>now s. admit s now scopes) evs sh = Some (sh', ok) \<Longrightarrow>
   (\<And>f. Others f \<in> set evs \<Longrightarrow> neutral f) \<Longrightarrow>
   countOf sh' k = countOf sh k + (if ok then slots k scopes else 0)"
proof (induction evs arbitrary: sh)
  case (Cons ev evs)
  obtain q s where sh: "sh = (q, s)" by force
  show ?case
  proof (cases ev)
    case (Tick now)
    obtain s' b where a: "admit s now scopes = (s', b)" by force
    show ?thesis
      using Cons lim.rejected_keeps [of s now scopes s' k] lim.admitted_takes [of s now scopes s' k] a Tick sh
      by (cases b) auto
  next
    case (Others f)
    then have "countOf (f sh) k = countOf sh k" using Cons.prems(2) [of f] by (simp add: neutralD)
    with Cons Others sh show ?thesis by auto
  qed (use Cons sh in \<open>auto split: if_splits\<close>)
qed simp

lemma admitWithQueue_counts:
  assumes "admitWithQueue timeout scopes env sh = Some (sh', ok, queued)" and "neutralWait env"
  shows "countOf sh' k = countOf sh k + (if ok then slots k scopes else 0)"
proof -
  obtain q s q' s' where sh: "sh = (q, s)" "sh' = (q', s')" by force
  have "wait timeout (\<lambda>now s. admit s now scopes) env (q, s) = Some ((q', s'), ok, queued)"
    using assms(1) by (simp add: admitWithQueue_def sh)
  then show ?thesis
  proof (cases rule: wait_cases)
    case direct
    then show ?thesis using lim.admitted_takes [of s "first_now env" scopes s' k] by (simp add: sh)
  next
    case (refused s1)
    then have "countOf (q', s') k = concCount s1 k"
      using assms(2) by (simp add: neutralWait_def neutral_def)
    with refused lim.rejected_keeps [of s "first_now env" scopes s1 k] show ?thesis by (simp add: sh)
  next
    case (queued s1 q1 s2 q2)
    have "countOf (q1, s2) k = concCount s1 k"
      using assms(2) queued(3) by (metis neutralWait_def neutral_def snd_conv)
    moreover have "countOf (q', s') k = countOf (q2, s2) k + (if ok then slots k scopes else 0)"
      using waitLoop_counts [OF queued(5)] assms(2) by (simp add: neutralWait_def)
    ultimately show ?thesis
      using lim.rejected_keeps [of s "first_now env" scopes s1 k] queued(1) by (simp add: sh)
  qed
qed

text \<open>
  Claim C18. A queued request never waits for ever: whatever the limiter answers and whatever other
  goroutines do, a call of \<^verbatim>\<open>admitWithQueue\<close> returns once its wait timeout passes (when there is
  one) or its context ends. It takes slots only by a granted admission, which is the last thing
  it does to the store: when the other goroutines leave the concurrency counters as they were, each counter has grown by the slots of
  the scopes if the call reports an admission, and by nothing if it does not.
\<close>

theorem admitWithQueue_returns:
  assumes "Cancelled \<in> set (events env) \<or> timeout > 0 \<and> Deadline \<in> set (events env)"
  shows "\<exists>q' s' ok queued.
           admitWithQueue timeout scopes env (q, s) = Some ((q', s'), ok, queued) \<and>
           (ok \<longrightarrow> (\<exists>now s0. admit s0 now scopes = (s', True))) \<and>
           (neutralWait env \<longrightarrow> (\<forall>k. concCount s' k = concCount s k + (if ok then slots k scopes else 0)))"
proof -
  let ?at = "\<lambda>now s. admit s now scopes"
  obtain r where r: "wait timeout ?at env (q, s) = Some r"
    using wait_returns [OF assms, of ?at "(q, s)"] by blast
  obtain q' s' ok queued where rr: "r = ((q', s'), ok, queued)" by (metis surj_pair)
  have "\<exists>now s0. admit s0 now scopes = (s', True)" if ok
    using r [unfolded rr]
  proof (cases rule: wait_cases)
    case (queued s1 q1 s2 q2)
    then have "waitLoop timeout ?at (events env) (q2, s2) = Some ((q', s'), True)" using that by simp
    then show ?thesis using waitLoop_tick by fast
  qed (use that in auto)
  moreover have a: "admitWithQueue timeout scopes env (q, s) = Some ((q', s'), ok, queued)" using r rr by (simp add: admitWithQueue_def)
  ultimately show ?thesis using admitWithQueue_counts [OF a] by auto
qed

text \<open>A full queue and an exhausted limiter, and a deadline while waiting.\<close>

theorem admitWithQueue_returns_witness:
  "(let sc = \<lparr>scope_key = ''ingress'', scope_limits = zeroLimits\<lparr>maxConcurrent := 1\<rparr>\<rparr>;
        s = fst (admit newLimitStore 0 [sc]);
        env = \<lparr>first_now = 0, between = (\<lambda>x. x), events = [Tick 25000000, Deadline]\<rparr>
    in \<exists>q' s'. admitWithQueue 1 [sc] env (newRequestQueue 1, s) = Some ((q', s'), False, True) \<and> concCount s' ''ingress'' = 1)"
proof -
  let ?sc = "\<lparr>scope_key = ''ingress'', scope_limits = zeroLimits\<lparr>maxConcurrent := 1\<rparr>\<rparr>"
  let ?s = "fst (admit newLimitStore 0 [?sc])"
  let ?env = "\<lparr>first_now = 0, between = (\<lambda>x. x), events = [Tick 25000000, Deadline]\<rparr>"
  have full: "concCount ?s ''ingress'' = 1"
    by (simp add: admit_def newLimitStore_def concCount_def zeroLimits_def takeOne_def Let_def)
  then have no: "admit ?s now [?sc] = (?s, False)" for now
    by (simp add: admit_def zeroLimits_def)
  have n: "neutralWait ?env" by (simp add: neutralWait_def neutral_def)
  have pre: "Cancelled \<in> set (events ?env) \<or> (1 :: int) > 0 \<and> Deadline \<in> set (events ?env)" by simp
  obtain q' s' ok queued where r: "admitWithQueue 1 [?sc] ?env (newRequestQueue 1, ?s) = Some ((q', s'), ok, queued)"
    "concCount s' ''ingress'' = concCount ?s ''ingress'' + (if ok then slots ''ingress'' [?sc] else 0)"
    using admitWithQueue_returns [OF pre, of "[?sc]" "newRequestQueue 1" ?s] n by blast
  from r(1) have "ok = False" "queued = True"
    by (simp_all add: admitWithQueue_def wait_def no newRequestQueue_def enter_def leave_def)
  with r full show ?thesis unfolding Let_def by (intro exI [of _ q'] exI [of _ s']) (simp only: if_False add_0_right simp_thms)
qed

section \<open>All calls together\<close>

text \<open>
  A goroutine that calls \<^verbatim>\<open>admitWithQueue\<close> with some scopes has failed its first attempt, waits in
  the queue, is on its way out of the queue with or without an admission, or holds an admission.
\<close>

datatype phase = Tried | Waiting | Leaving bool | Holding

type_synonym goroutine = "admissionScope list \<times> phase"

type_synonym queue_system = "requestQueue \<times> limitStore \<times> goroutine multiset"

inductive queue_step :: "int \<Rightarrow> (string \<Rightarrow> int) \<Rightarrow> queue_system \<Rightarrow> queue_system \<Rightarrow> bool" for M B where
  first_ok: "withinBounds B c \<Longrightarrow> admit s now c = (s', True) \<Longrightarrow>
     queue_step M B (q, s, T) (q, s', add_mset (c, Holding) T)"
| first_no: "withinBounds B c \<Longrightarrow> admit s now c = (s', False) \<Longrightarrow>
     queue_step M B (q, s, T) (q, s', add_mset (c, Tried) T)"
| enters: "enter q = (q', True) \<Longrightarrow>
     queue_step M B (q, s, add_mset (c, Tried) T) (q', s, add_mset (c, Waiting) T)"
| refused: "enter q = (q', False) \<Longrightarrow> queue_step M B (q, s, add_mset (c, Tried) T) (q', s, T)"
| tick_ok: "withinBounds B c \<Longrightarrow> admit s now c = (s', True) \<Longrightarrow>
     queue_step M B (q, s, add_mset (c, Waiting) T) (q, s', add_mset (c, Leaving True) T)"
| tick_no: "admit s now c = (s', False) \<Longrightarrow>
     queue_step M B (q, s, add_mset (c, Waiting) T) (q, s', add_mset (c, Waiting) T)"
| expires: "queue_step M B (q, s, add_mset (c, Waiting) T) (q, s, add_mset (c, Leaving False) T)"
| leaves_ok: "queue_step M B (q, s, add_mset (c, Leaving True) T) (leave q, s, add_mset (c, Holding) T)"
| leaves_no: "queue_step M B (q, s, add_mset (c, Leaving False) T) (leave q, s, T)"
| gives_back: "queue_step M B (q, s, add_mset (c, Holding) T) (q, release c s, T)"
| resized: "m \<le> M \<Longrightarrow> queue_step M B (q, s, T) (setMax m q, s, T)"
| reloaded: "queue_step M B (q, s, T) (q, limits_clear s, T)"

inductive queue_reachable :: "int \<Rightarrow> (string \<Rightarrow> int) \<Rightarrow> queue_system \<Rightarrow> bool" for M B where
  start: "m \<le> M \<Longrightarrow> queue_reachable M B (newRequestQueue m, newLimitStore, {#})"
| step: "queue_reachable M B x \<Longrightarrow> queue_step M B x y \<Longrightarrow> queue_reachable M B y"

fun inQueue :: "goroutine \<Rightarrow> bool" where
  "inQueue (c, Waiting) = True"
| "inQueue (c, Leaving b) = True"
| "inQueue (c, p) = False"

fun holds :: "goroutine \<Rightarrow> bool" where
  "holds (c, Holding) = True"
| "holds (c, Leaving b) = b"
| "holds (c, p) = False"

abbreviation admissions :: "goroutine multiset \<Rightarrow> admissionScope list multiset" where
  "admissions T \<equiv> image_mset fst (filter_mset holds T)"

definition queue_inv :: "int \<Rightarrow> (string \<Rightarrow> int) \<Rightarrow> queue_system \<Rightarrow> bool" where
  "queue_inv M B x \<longleftrightarrow>
     (case x of (q, s, T) \<Rightarrow>
        waiting q = int (size (filter_mset inQueue T)) \<and> waiting q \<le> max 0 M \<and> qmax q \<le> M \<and>
        limiter_inv B (s, admissions T))"

lemma leave_occupied:
  "waiting q = 1 + int n \<Longrightarrow> waiting (leave q) = int n"
  "qmax (leave q) = qmax q"
  by (auto simp: leave_def)

text \<open>Every step of the queue is, on the store, a step of the limiter or no step at all.\<close>

lemma limiter_gives_back: "limiter_step B (s, add_mset c H) (release c s, H)"
  using limiter_step.released [of c "add_mset c H" B s] by simp

lemma queue_step_limiter:
  "queue_step M B (q, s, T) (q', s', T') \<Longrightarrow>
   s' = s \<and> admissions T' = admissions T \<or> limiter_step B (s, admissions T) (s', admissions T')"
  by (induction "(q, s, T)" "(q', s', T')" arbitrary: q s T q' s' T' rule: queue_step.induct)
     (auto intro: limiter_step.intros limiter_gives_back)

lemma queue_step_inv: "queue_step M B x y \<Longrightarrow> queue_inv M B x \<Longrightarrow> queue_inv M B y"
proof -
  assume step: "queue_step M B x y" and inv: "queue_inv M B x"
  obtain q s T where x: "x = (q, s, T)" by (metis surj_pair)
  obtain q' s' T' where y: "y = (q', s', T')" by (metis surj_pair)
  have "limiter_inv B (s', admissions T')"
    using queue_step_limiter [OF step [unfolded x y]] limiter_step_inv inv x
    by (auto simp: queue_inv_def)
  moreover have "waiting q' = int (size (filter_mset inQueue T')) \<and> waiting q' \<le> max 0 M \<and> qmax q' \<le> M"
    using step inv unfolding x y queue_inv_def prod.case
    by (induction "(q, s, T)" "(q', s', T')" rule: queue_step.induct)
       (auto simp: enter_def leave_occupied setMax_def split: if_splits)
  ultimately show ?thesis by (simp add: queue_inv_def y)
qed

lemma queue_reachable_inv: "queue_reachable M B x \<Longrightarrow> queue_inv M B x"
proof (induction rule: queue_reachable.induct)
  case (start m)
  then show ?case
    using limiter_reachable_inv [OF limiter_reachable.start, of B]
    by (simp add: queue_inv_def newRequestQueue_def)
qed (blast intro: queue_step_inv)

text \<open>
  Claim C3. For any number of concurrent requests and any order of their critical sections, with
  reloads in between: the queue's counter is the number of requests that are in the queue, it is
  never more than the largest configured queue size, and the limiter's counters are those of the
  requests that hold an admission, within the configured concurrency limits.
\<close>

theorem queue_accounting:
  assumes "queue_reachable M B (q, s, T)"
  shows "waiting q = int (size (filter_mset inQueue T)) \<and> waiting q \<le> max 0 M \<and>
         concCount s k = held k (admissions T) \<and> concCount s k \<le> max 0 (B k)"
  using queue_reachable_inv [OF assms] unfolding queue_inv_def limiter_inv_def prod.case by blast

text \<open>One request holds the only slot while another waits for it.\<close>

theorem queue_accounting_witness:
  "\<exists>q s T. queue_reachable 1 (\<lambda>_. 1) (q, s, T) \<and> waiting q = 1 \<and> concCount s ''ingress'' = 1"
proof -
  let ?sc = "\<lparr>scope_key = ''ingress'', scope_limits = zeroLimits\<lparr>maxConcurrent := 1\<rparr>\<rparr>"
  let ?s = "fst (admit newLimitStore 0 [?sc])" and ?q = "newRequestQueue 1"
  let ?T = "{#([?sc], Waiting), ([?sc], Holding)#}"
  have b: "withinBounds (\<lambda>_. 1) [?sc]" by (simp add: withinBounds_def)
  have ok: "admit newLimitStore 0 [?sc] = (?s, True)"
    by (simp add: admit_def newLimitStore_def concCount_def zeroLimits_def)
  have "concCount ?s ''ingress'' = 1"
    using lim.admitted_takes [OF ok, of "''ingress''"] by (simp add: newLimitStore_def concCount_def zeroLimits_def)
  then have no: "admit ?s 0 [?sc] = (?s, False)" by (simp add: admit_def zeroLimits_def)
  have e: "enter ?q = (fst (enter ?q), True)" by (simp add: enter_def newRequestQueue_def)
  have "queue_reachable 1 (\<lambda>_. 1) (?q, ?s, {#([?sc], Holding)#})"
    by (rule queue_reachable.step [OF queue_reachable.start queue_step.first_ok [OF b ok]]) simp
  then have "queue_reachable 1 (\<lambda>_. 1) (?q, ?s, {#([?sc], Tried), ([?sc], Holding)#})"
    by (rule queue_reachable.step) (rule queue_step.first_no [OF b no])
  then have r: "queue_reachable 1 (\<lambda>_. 1) (fst (enter ?q), ?s, ?T)"
    by (rule queue_reachable.step) (rule queue_step.enters [OF e])
  from queue_accounting [OF r, of "''ingress''"] r show ?thesis
    by (intro exI [of _ "fst (enter ?q)"] exI [of _ ?s] exI [of _ ?T]) (simp add: held_def zeroLimits_def)
qed

end
