(* ===== verification/GoJson.thy ===== *)
theory GoJson
  imports GoNet GoFloat
begin

text \<open>
  Package \<^verbatim>\<open>encoding/json\<close> as the gateway uses it: the text of a value is checked and read into a
  syntax tree by a scanner with a stack of open arrays and objects (\<^verbatim>\<open>json.Unmarshal\<close>), a tree is
  turned into values of type \<^verbatim>\<open>any\<close>, and such values are printed (\<^verbatim>\<open>json.Marshal\<close>). Number literals
  are kept as text in the tree. Byte sequences that are not UTF-8 are replaced by U+FFFD in both
  directions, as in Go. Negative zero, which is no rational number, is a value of its own.
\<close>

section \<open>UTF-8\<close>

abbreviation code :: "char \<Rightarrow> nat" where
  "code c \<equiv> of_char c"

definition byteIn :: "nat \<Rightarrow> nat \<Rightarrow> char \<Rightarrow> bool" where
  "byteIn lo hi c \<longleftrightarrow> lo \<le> code c \<and> code c \<le> hi"

text \<open>What the first byte says: the length of the sequence and the range of the second byte.\<close>

definition leadByte :: "char \<Rightarrow> (nat \<times> nat \<times> nat) option" where
  "leadByte c =
     (let b = code c in
      if b < 0x80 then Some (1, 0, 0)
      else if b < 0xC2 then None
      else if b < 0xE0 then Some (2, 0x80, 0xBF)
      else if b = 0xE0 then Some (3, 0xA0, 0xBF)
      else if b = 0xED then Some (3, 0x80, 0x9F)
      else if b < 0xF0 then Some (3, 0x80, 0xBF)
      else if b = 0xF0 then Some (4, 0x90, 0xBF)
      else if b < 0xF4 then Some (4, 0x80, 0xBF)
      else if b = 0xF4 then Some (4, 0x80, 0x8F)
      else None)"

text \<open>The length of the encoded rune a string begins with, zero when there is none (\<^verbatim>\<open>utf8.DecodeRune\<close>).\<close>

fun runeLen :: "string \<Rightarrow> nat" where
  "runeLen [] = 0"
| "runeLen (c # s) =
     (case leadByte c of
        None \<Rightarrow> 0
      | Some (n, lo, hi) \<Rightarrow>
          if n = 1 then 1
          else (case s of
                  [] \<Rightarrow> 0
                | d # ds \<Rightarrow>
                    if byteIn lo hi d \<and> n - 2 \<le> length ds \<and> list_all (byteIn 0x80 0xBF) (take (n - 2) ds) then n else 0))"

definition replacement :: string where
  "replacement = [CHR 0xEF, CHR 0xBF, CHR 0xBD]"

text \<open>\<^verbatim>\<open>utf8.AppendRune\<close>; surrogates and numbers beyond the last rune are replaced.\<close>

definition encodeRune :: "nat \<Rightarrow> string" where
  "encodeRune r =
     (if r < 0x80 then [char_of r]
      else if r < 0x800 then [char_of (0xC0 + r div 64), char_of (0x80 + r mod 64)]
      else if 0xD800 \<le> r \<and> r < 0xE000 \<or> 0x10FFFF < r then replacement
      else if r < 0x10000 then
        [char_of (0xE0 + r div 4096), char_of (0x80 + r div 64 mod 64), char_of (0x80 + r mod 64)]
      else
        [char_of (0xF0 + r div 262144), char_of (0x80 + r div 4096 mod 64),
         char_of (0x80 + r div 64 mod 64), char_of (0x80 + r mod 64)])"

section \<open>Strings\<close>

text \<open>\<^verbatim>\<open>getu4\<close> without its backslash and letter: the number and what follows.\<close>

fun hex4 :: "string \<Rightarrow> (nat \<times> string) option" where
  "hex4 (a # b # c # d # s) =
     (case (hexVal a, hexVal b, hexVal c, hexVal d) of
        (Some w, Some x, Some y, Some z) \<Rightarrow> Some (((w * 16 + x) * 16 + y) * 16 + z, s)
      | _ \<Rightarrow> None)"
| "hex4 s = None"

definition highSurrogate :: "nat \<Rightarrow> bool" where
  "highSurrogate r \<longleftrightarrow> 0xD800 \<le> r \<and> r < 0xDC00"

definition lowSurrogate :: "nat \<Rightarrow> bool" where
  "lowSurrogate r \<longleftrightarrow> 0xDC00 \<le> r \<and> r < 0xE000"

text \<open>
  The rune of a \<^verbatim>\<open>\u\<close> escape whose number is \<open>r\<close>, and what follows: two escapes that form a surrogate
  pair are one rune, a surrogate on its own is replaced.
\<close>

definition escapedRune :: "nat \<Rightarrow> string \<Rightarrow> string \<times> string" where
  "escapedRune r s =
     (case s of
        b # u # t \<Rightarrow>
          if highSurrogate r \<and> b = CHR 0x5C \<and> u = CHR ''u'' then
            (case hex4 t of
               Some (r2, t2) \<Rightarrow>
                 if lowSurrogate r2
                 then (encodeRune ((r - 0xD800) * 1024 + (r2 - 0xDC00) + 0x10000), t2)
                 else (encodeRune r, s)
             | None \<Rightarrow> (encodeRune r, s))
          else (encodeRune r, s)
      | _ \<Rightarrow> (encodeRune r, s))"

definition escapeChar :: "char \<Rightarrow> char option" where
  "escapeChar c =
     map_of [(CHR 0x22, CHR 0x22), (CHR 0x5C, CHR 0x5C), (CHR ''/'', CHR ''/''), (CHR ''b'', CHR 0x08),
             (CHR ''f'', CHR 0x0C), (CHR ''n'', CHR 0x0A), (CHR ''r'', CHR 0x0D), (CHR ''t'', CHR 0x09)] c"

lemma hex4_length: "hex4 s = Some (r, t) \<Longrightarrow> length t < length s"
  by (cases s rule: hex4.cases) (auto split: option.splits)

lemma escapedRune_length: "length (snd (escapedRune r s)) \<le> length s"
  by (auto simp: escapedRune_def dest!: hex4_length split: list.split option.split)

text \<open>The contents of a string literal, after the opening quote; the second component is what follows it.\<close>

definition prepend :: "string \<Rightarrow> (string \<times> 'r) option \<Rightarrow> (string \<times> 'r) option" where
  "prepend x r = map_option (\<lambda>(v, rest). (x @ v, rest)) r"

function lexString :: "string \<Rightarrow> (string \<times> string) option" where
  "lexString [] = None"
| "lexString (c # s) =
     (if c = CHR 0x22 then Some ([], s)
      else if c = CHR 0x5C then
        (case s of
           [] \<Rightarrow> None
         | e # t \<Rightarrow>
             if e = CHR ''u'' then
               (case hex4 t of
                  None \<Rightarrow> None
                | Some (r, t1) \<Rightarrow> prepend (fst (escapedRune r t1)) (lexString (snd (escapedRune r t1))))
             else
               (case escapeChar e of
                  None \<Rightarrow> None
                | Some x \<Rightarrow> prepend [x] (lexString t)))
      else if code c < 0x20 then None
      else if runeLen (c # s) = 0 then prepend replacement (lexString s)
      else prepend (take (runeLen (c # s)) (c # s)) (lexString (drop (runeLen (c # s)) (c # s))))"
  by pat_completeness auto
termination
proof (relation "measure length", goal_cases)
  case (2 c s e t a r t1)
  then show ?case using hex4_length [of t r t1] escapedRune_length [of r t1] by auto
qed auto

declare lexString.simps [simp del]

lemma prepend_Some: "prepend x r = Some (v, rest) \<longleftrightarrow> (\<exists>w. r = Some (w, rest) \<and> v = x @ w)"
  by (auto simp: prepend_def)

lemma runeLen_le: "runeLen s \<le> length s"
  by (cases s) (auto simp: leadByte_def Let_def split: list.split)

lemma lexString_cases:
  assumes "lexString s = Some (v, rest)"
  obtains
    (quote) "s = CHR 0x22 # rest" "v = []"
  | (unicode) t r t1 w where "s = CHR 0x5C # CHR ''u'' # t" "hex4 t = Some (r, t1)"
      "lexString (snd (escapedRune r t1)) = Some (w, rest)" "v = fst (escapedRune r t1) @ w"
  | (escape) e x t w where "s = CHR 0x5C # e # t" "escapeChar e = Some x" "lexString t = Some (w, rest)" "v = x # w"
  | (invalid) c t w where "s = c # t" "runeLen s = 0" "lexString t = Some (w, rest)" "v = replacement @ w"
  | (rune) w where "0 < runeLen s" "lexString (drop (runeLen s) s) = Some (w, rest)" "v = take (runeLen s) s @ w"
proof (cases s)
  case Nil
  with assms show thesis by (simp add: lexString.simps)
next
  case (Cons c t)
  show thesis
    using assms unfolding Cons
    by (subst (asm) lexString.simps)
       (auto simp: prepend_Some Cons split: if_splits list.splits option.splits intro: that unicode [unfolded Cons])
qed

lemma lexString_length: "lexString s = Some (v, rest) \<Longrightarrow> length rest < length s"
proof (induction "length s" arbitrary: s v rule: less_induct)
  case less
  note IH = less.hyps
  from less.prems show ?case
  proof (cases rule: lexString_cases)
    case (unicode t r t1 w)
    then show ?thesis
      using IH [OF _ unicode(3)] hex4_length [OF unicode(2)] escapedRune_length [of r t1] by simp
  next
    case (rune w)
    then show ?thesis using IH [OF _ rune(2)] runeLen_le [of s] by fastforce
  next
    case (escape e x t w)
    then show ?thesis using IH [OF _ escape(3)] by simp
  next
    case (invalid c t w)
    then show ?thesis using IH [OF _ invalid(3)] by simp
  qed simp
qed

section \<open>Tokens\<close>

datatype json =
    JNull | JBool bool | JNum string | JStr string | JArr "json list" | JObj "(string \<times> json) list"

datatype token = TPunct char | TString string | TNumber string | TConst json

definition numChar :: "char \<Rightarrow> bool" where
  "numChar c \<longleftrightarrow> isDigit c \<or> c \<in> set ''+-.eE''"

definition validExponent :: "string \<Rightarrow> bool" where
  "validExponent r \<longleftrightarrow>
     (case r of
        [] \<Rightarrow> True
      | c # t \<Rightarrow>
          let ds = (case t of d # ds \<Rightarrow> if d = CHR ''+'' \<or> d = CHR ''-'' then ds else t | [] \<Rightarrow> []) in
          (c = CHR ''e'' \<or> c = CHR ''E'') \<and> ds \<noteq> [] \<and> list_all isDigit ds)"

definition validFraction :: "string \<Rightarrow> bool" where
  "validFraction r \<longleftrightarrow>
     (case r of
        [] \<Rightarrow> True
      | c # t \<Rightarrow>
          if c = CHR ''.'' then takeWhile isDigit t \<noteq> [] \<and> validExponent (dropWhile isDigit t)
          else validExponent r)"

text \<open>The literals of the number states of the scanner: no superfluous leading zero, digits around the dot.\<close>

definition validNumber :: "string \<Rightarrow> bool" where
  "validNumber lit \<longleftrightarrow>
     (let u = trimPrefix lit ''-''; ip = takeWhile isDigit u in
      ip \<noteq> [] \<and> (hd ip = CHR ''0'' \<longrightarrow> ip = ''0'') \<and> validFraction (dropWhile isDigit u))"

definition jsonSpace :: "char \<Rightarrow> bool" where
  "jsonSpace c \<longleftrightarrow> c = CHR 0x20 \<or> c = CHR 0x09 \<or> c = CHR 0x0D \<or> c = CHR 0x0A"

function lexJSON :: "string \<Rightarrow> token list option" where
  "lexJSON [] = Some []"
| "lexJSON (c # s) =
     (if jsonSpace c then lexJSON s
      else if c \<in> set ''{}[]:,'' then map_option ((#) (TPunct c)) (lexJSON s)
      else if c = CHR 0x22 then
        (case lexString s of
           None \<Rightarrow> None
         | Some (v, rest) \<Rightarrow> map_option ((#) (TString v)) (lexJSON rest))
      else if c = CHR ''-'' \<or> isDigit c then
        (if validNumber (c # takeWhile numChar s)
         then map_option ((#) (TNumber (c # takeWhile numChar s))) (lexJSON (dropWhile numChar s))
         else None)
      else if hasPrefix (c # s) ''null'' then map_option ((#) (TConst JNull)) (lexJSON (drop 3 s))
      else if hasPrefix (c # s) ''true'' then map_option ((#) (TConst (JBool True))) (lexJSON (drop 3 s))
      else if hasPrefix (c # s) ''false'' then map_option ((#) (TConst (JBool False))) (lexJSON (drop 4 s))
      else None)"
  by pat_completeness auto
termination
  by (relation "measure length") (auto dest: lexString_length simp: length_dropWhile_le le_imp_less_Suc)

declare lexJSON.simps [simp del]

section \<open>The scanner\<close>

text \<open>The open arrays and objects, innermost first, and the states between tokens.\<close>

datatype frame = FArr "json list" | FMember "(string \<times> json) list" string

datatype scan_state =
    BeginValue "frame list"
  | BeginValueOrEmpty "frame list"
  | EndElement "json list" "frame list"
  | BeginStringOrEmpty "frame list"
  | BeginString "(string \<times> json) list" "frame list"
  | EndKey "(string \<times> json) list" string "frame list"
  | EndMember "(string \<times> json) list" "frame list"
  | EndTop json

definition maxNestingDepth :: nat where
  "maxNestingDepth = 10000"

fun endValue :: "json \<Rightarrow> frame list \<Rightarrow> scan_state" where
  "endValue v [] = EndTop v"
| "endValue v (FArr xs # fs) = EndElement (xs @ [v]) fs"
| "endValue v (FMember kvs k # fs) = EndMember (kvs @ [(k, v)]) fs"

definition beginValue :: "token \<Rightarrow> frame list \<Rightarrow> scan_state option" where
  "beginValue t fs =
     (case t of
        TString s \<Rightarrow> Some (endValue (JStr s) fs)
      | TNumber lit \<Rightarrow> Some (endValue (JNum lit) fs)
      | TConst v \<Rightarrow> Some (endValue v fs)
      | TPunct c \<Rightarrow>
          if length fs < maxNestingDepth \<and> c = CHR ''['' then Some (BeginValueOrEmpty fs)
          else if length fs < maxNestingDepth \<and> c = CHR ''{'' then Some (BeginStringOrEmpty fs)
          else None)"

fun scanStep :: "token \<Rightarrow> scan_state \<Rightarrow> scan_state option" where
  "scanStep t (BeginValue fs) = beginValue t fs"
| "scanStep t (BeginValueOrEmpty fs) =
     (if t = TPunct (CHR '']'') then Some (endValue (JArr []) fs) else beginValue t (FArr [] # fs))"
| "scanStep t (EndElement xs fs) =
     (if t = TPunct (CHR '','') then Some (BeginValue (FArr xs # fs))
      else if t = TPunct (CHR '']'') then Some (endValue (JArr xs) fs) else None)"
| "scanStep t (BeginStringOrEmpty fs) =
     (case t of
        TString k \<Rightarrow> Some (EndKey [] k fs)
      | _ \<Rightarrow> if t = TPunct (CHR ''}'') then Some (endValue (JObj []) fs) else None)"
| "scanStep t (BeginString kvs fs) = (case t of TString k \<Rightarrow> Some (EndKey kvs k fs) | _ \<Rightarrow> None)"
| "scanStep t (EndKey kvs k fs) = (if t = TPunct (CHR '':'') then Some (BeginValue (FMember kvs k # fs)) else None)"
| "scanStep t (EndMember kvs fs) =
     (if t = TPunct (CHR '','') then Some (BeginString kvs fs)
      else if t = TPunct (CHR ''}'') then Some (endValue (JObj kvs) fs) else None)"
| "scanStep t (EndTop v) = None"

fun scanTokens :: "token list \<Rightarrow> scan_state \<Rightarrow> scan_state option" where
  "scanTokens [] st = Some st"
| "scanTokens (t # ts) st = (case scanStep t st of None \<Rightarrow> None | Some st' \<Rightarrow> scanTokens ts st')"

definition parseJSON :: "string \<Rightarrow> json option" where
  "parseJSON s =
     (case lexJSON s of
        None \<Rightarrow> None
      | Some ts \<Rightarrow> (case scanTokens ts (BeginValue []) of Some (EndTop v) \<Rightarrow> Some v | _ \<Rightarrow> None))"

section \<open>Values\<close>

definition digitsVal :: "string \<Rightarrow> nat" where
  "digitsVal s = foldl (\<lambda>n c. 10 * n + digitVal c) 0 s"

definition splitFirst :: "char list \<Rightarrow> string \<Rightarrow> string \<times> string" where
  "splitFirst cs s = (takeWhile (\<lambda>c. c \<notin> set cs) s, drop 1 (dropWhile (\<lambda>c. c \<notin> set cs) s))"

definition exponentVal :: "string \<Rightarrow> int" where
  "exponentVal s =
     (if hasPrefix s ''-'' then - int (digitsVal (drop 1 s))
      else if hasPrefix s ''+'' then int (digitsVal (drop 1 s)) else int (digitsVal s))"

text \<open>The exact value of a number literal, and the \<^verbatim>\<open>float64\<close> it is decoded to; too large is an error.\<close>

definition numberValue :: "string \<Rightarrow> rat" where
  "numberValue lit =
     (let neg = hasPrefix lit ''-'';
          u = trimPrefix lit ''-'';
          (mant, ex) = splitFirst ''eE'' u;
          (ip, fp) = splitFirst ''.'' mant;
          v = of_nat (digitsVal (ip @ fp)) * 10 powi (exponentVal ex - int (length fp))
      in if neg then - v else v)"

text \<open>Rounding with the sign kept.\<close>

definition toFloat :: "rat \<Rightarrow> rat" where
  "toFloat x = (if x < 0 then - roundFloat64 (- x) else roundFloat64 x)"

definition jsonNumber :: "string \<Rightarrow> any option" where
  "jsonNumber lit =
     (let v = toFloat (numberValue lit) in
      if \<bar>v\<bar> \<ge> 2 ^ 1024 then None
      else if v = 0 \<and> hasPrefix lit ''-'' then Some ANegZero
      else Some (ANum v))"

fun toAny :: "json \<Rightarrow> any option" and toAnyList :: "json list \<Rightarrow> any list option"
  and toAnyObj :: "(string \<times> json) list \<Rightarrow> any gomap \<Rightarrow> any gomap option" where
  "toAny JNull = Some ANil"
| "toAny (JBool b) = Some (ABool b)"
| "toAny (JNum lit) = jsonNumber lit"
| "toAny (JStr s) = Some (AStr s)"
| "toAny (JArr xs) = map_option AArr (toAnyList xs)"
| "toAny (JObj kvs) = map_option AObj (toAnyObj kvs [])"
| "toAnyList [] = Some []"
| "toAnyList (x # xs) =
     (case toAny x of None \<Rightarrow> None | Some v \<Rightarrow> map_option ((#) v) (toAnyList xs))"
| "toAnyObj [] m = Some m"
| "toAnyObj ((k, x) # kvs) m =
     (case toAny x of None \<Rightarrow> None | Some v \<Rightarrow> toAnyObj kvs (AList.update k v m))"

section \<open>Printing\<close>

text \<open>
  The shortest decimal that reads back as a \<^verbatim>\<open>float64\<close> (\<^verbatim>\<open>strconv.AppendFloat\<close> with precision -1):
  with \<open>n = 1, 2, \<dots>\<close> digits the nearest decimal, or else its neighbour on the other side. Seventeen
  digits are always enough.
\<close>

definition decimalExp :: "rat \<Rightarrow> int" where
  "decimalExp x =
     (case quotient_of x of (n, d) \<Rightarrow>
        let k = int (floorlog 10 (nat n)) - int (floorlog 10 (nat d)) in if 10 powi k \<le> x then k + 1 else k)"

definition scaled :: "nat \<Rightarrow> rat \<Rightarrow> rat" where
  "scaled n x = x * 10 powi (int n - decimalExp x)"

definition readsAs :: "nat \<Rightarrow> rat \<Rightarrow> int \<Rightarrow> bool" where
  "readsAs n x m \<longleftrightarrow> roundFloat64 (of_int m * 10 powi (decimalExp x - int n)) = x"

definition decimalWith :: "nat \<Rightarrow> rat \<Rightarrow> int option" where
  "decimalWith n x =
     (let y = scaled n x; r = roundHalfEven y; other = (if of_int r \<le> y then r + 1 else r - 1) in
      if readsAs n x r then Some r else if readsAs n x other then Some other else None)"

fun shortestFrom :: "nat list \<Rightarrow> rat \<Rightarrow> int \<times> int" where
  "shortestFrom [] x = (roundHalfEven (scaled 17 x), decimalExp x - 17)"
| "shortestFrom (n # ns) x =
     (case decimalWith n x of
        Some m \<Rightarrow> (m, decimalExp x - int n)
      | None \<Rightarrow> shortestFrom ns x)"

definition shortestDecimal :: "rat \<Rightarrow> int \<times> int" where
  "shortestDecimal x = shortestFrom [1..<17] x"

definition stripZeros :: "string \<Rightarrow> string" where
  "stripZeros s = rev (dropWhile (\<lambda>c. c = CHR ''0'') (rev s))"

text \<open>Layout of a positive number from its digits and the position of the decimal point.\<close>

definition fixedFormat :: "string \<Rightarrow> int \<Rightarrow> string" where
  "fixedFormat ds dp =
     (if dp \<le> 0 then ''0.'' @ replicate (nat (- dp)) (CHR ''0'') @ ds
      else if int (length ds) \<le> dp then ds @ replicate (nat dp - length ds) (CHR ''0'')
      else take (nat dp) ds @ ''.'' @ drop (nat dp) ds)"

definition exponentFormat :: "string \<Rightarrow> int \<Rightarrow> string" where
  "exponentFormat ds dp =
     take 1 ds @ (if length ds \<le> 1 then [] else ''.'' @ drop 1 ds) @ ''e'' @
     (if dp - 1 < 0 then ''-'' else ''+'') @ showNat (nat \<bar>dp - 1\<bar>)"

definition formatPositive :: "rat \<Rightarrow> string" where
  "formatPositive x =
     (case shortestDecimal x of (m, q) \<Rightarrow>
        let ds = showNat (nat m); dp = int (length ds) + q in
        if x < fl64 (1 / 1000000) \<or> x \<ge> 10 ^ 21 then exponentFormat (stripZeros ds) dp
        else fixedFormat (stripZeros ds) dp)"

definition formatNumber :: "rat \<Rightarrow> string" where
  "formatNumber x =
     (if x = 0 then ''0'' else if x < 0 then ''-'' @ formatPositive (- x) else formatPositive x)"

definition showInt :: "int \<Rightarrow> string" where
  "showInt i = (if i < 0 then ''-'' @ showNat (nat (- i)) else showNat (nat i))"

text \<open>The literal of a string; the characters that matter in HTML are escaped too.\<close>

definition hexChar :: "nat \<Rightarrow> char" where
  "hexChar n = (if n < 10 then char_of (48 + n) else char_of (87 + n))"

definition quoteByte :: "char \<Rightarrow> string" where
  "quoteByte c =
     (if c = CHR 0x22 \<or> c = CHR 0x5C then [CHR 0x5C, c]
      else if c = CHR 0x08 then [CHR 0x5C, CHR ''b'']
      else if c = CHR 0x0C then [CHR 0x5C, CHR ''f'']
      else if c = CHR 0x0A then [CHR 0x5C, CHR ''n'']
      else if c = CHR 0x0D then [CHR 0x5C, CHR ''r'']
      else if c = CHR 0x09 then [CHR 0x5C, CHR ''t'']
      else if code c < 0x20 \<or> c \<in> set ''<>&'' then
        [CHR 0x5C, CHR ''u'', CHR ''0'', CHR ''0'', hexChar (code c div 16), hexChar (code c mod 16)]
      else [c])"

definition quoteRune :: "string \<Rightarrow> string" where
  "quoteRune r =
     (if r = [CHR 0xE2, CHR 0x80, CHR 0xA8] then CHR 0x5C # ''u2028''
      else if r = [CHR 0xE2, CHR 0x80, CHR 0xA9] then CHR 0x5C # ''u2029''
      else r)"

function quoteBody :: "string \<Rightarrow> string" where
  "quoteBody [] = []"
| "quoteBody (c # s) =
     (if code c < 0x80 then quoteByte c @ quoteBody s
      else if runeLen (c # s) = 0 then CHR 0x5C # ''ufffd'' @ quoteBody s
      else quoteRune (take (runeLen (c # s)) (c # s)) @ quoteBody (drop (runeLen (c # s)) (c # s)))"
  by pat_completeness auto
termination by (relation "measure length") auto

declare quoteBody.simps [simp del]

definition quote :: "string \<Rightarrow> string" where
  "quote s = [CHR 0x22] @ quoteBody s @ [CHR 0x22]"

fun render :: "json \<Rightarrow> string" and renderList :: "json list \<Rightarrow> string list"
  and renderObj :: "(string \<times> json) list \<Rightarrow> string list" where
  "render JNull = ''null''"
| "render (JBool b) = (if b then ''true'' else ''false'')"
| "render (JNum lit) = lit"
| "render (JStr s) = quote s"
| "render (JArr xs) = ''['' @ joinWith '','' (renderList xs) @ '']''"
| "render (JObj kvs) = ''{'' @ joinWith '','' (renderObj kvs) @ ''}''"
| "renderList [] = []"
| "renderList (x # xs) = render x # renderList xs"
| "renderObj [] = []"
| "renderObj ((k, x) # kvs) = (quote k @ '':'' @ render x) # renderObj kvs"

text \<open>The tree of a value: the keys of a map in order. \<open>None\<close>: a part has no JSON form.\<close>

fun tree :: "any \<Rightarrow> json option" and treeList :: "any list \<Rightarrow> json list option"
  and treeObj :: "(string \<times> any) list \<Rightarrow> (string \<times> json) list option" where
  "tree ANil = Some JNull"
| "tree (ABool b) = Some (JBool b)"
| "tree (ANum x) = Some (JNum (formatNumber x))"
| "tree ANegZero = Some (JNum ''-0'')"
| "tree (AInt i) = Some (JNum (showInt i))"
| "tree (AStr s) = Some (JStr s)"
| "tree (AArr xs) = map_option JArr (treeList xs)"
| "tree (AObj kvs) = map_option (\<lambda>ps. JObj (sort_key fst ps)) (treeObj kvs)"
| "tree AUnsupported = None"
| "treeList [] = Some []"
| "treeList (x # xs) =
     (case tree x of None \<Rightarrow> None | Some j \<Rightarrow> map_option ((#) j) (treeList xs))"
| "treeObj [] = Some []"
| "treeObj ((k, x) # kvs) =
     (case tree x of None \<Rightarrow> None | Some j \<Rightarrow> map_option ((#) (k, j)) (treeObj kvs))"

definition marshal :: "any \<Rightarrow> string option" where
  "marshal v = map_option render (tree v)"

end
