(* ===== verification/JsonCodec.thy ===== *)
theory JsonCodec
  imports GoJson
begin

text \<open>
  The laws of the JSON codec: what is printed can be read back, and what is read is well formed.
\<close>

section \<open>Valid strings\<close>

function toValid :: "string \<Rightarrow> string" where
  "toValid [] = []"
| "toValid (c # s) =
     (if runeLen (c # s) = 0 then replacement @ toValid s
      else take (runeLen (c # s)) (c # s) @ toValid (drop (runeLen (c # s)) (c # s)))"
  by pat_completeness auto
termination by (relation "measure length") auto

declare toValid.simps [simp del] toValid.simps(1) [simp]

definition validUTF8 :: "string \<Rightarrow> bool" where
  "validUTF8 s \<longleftrightarrow> toValid s = s"

lemma runeLen_append: "0 < runeLen s \<Longrightarrow> runeLen (s @ t) = runeLen s"
  by (cases s) (auto split: list.splits option.splits if_splits)

lemma runeLen_take: "0 < runeLen s \<Longrightarrow> runeLen (take (runeLen s) s) = runeLen s"
proof (cases s)
  case (Cons c u)
  assume p: "0 < runeLen s"
  then obtain n lo hi where l: "leadByte c = Some (n, lo, hi)" using Cons by (auto split: option.splits)
  then have n: "1 \<le> n" by (auto simp: leadByte_def Let_def split: if_splits)
  show ?thesis
  proof (cases "n = 1")
    case False
    with p l Cons obtain d ds where "u = d # ds" "byteIn lo hi d" "n - 2 \<le> length ds"
      "list_all (byteIn 128 191) (take (n - 2) ds)" by (auto split: list.splits if_splits)
    moreover from this n False l Cons have "runeLen s = n" by simp
    moreover have "take n (c # d # ds) = c # d # take (n - 2) ds"
      using n False by (cases n; cases "n - 1") auto
    ultimately show ?thesis using l False Cons by (simp add: min_def)
  qed (use l Cons in simp)
qed simp

lemma runeLen_take_append: "0 < runeLen s \<Longrightarrow> runeLen (take (runeLen s) s @ t) = runeLen s"
  by (metis runeLen_take runeLen_append)

lemma runeLen_ascii: "code c < 0x80 \<Longrightarrow> runeLen (c # s) = 1"
  by (simp add: leadByte_def)

lemma length_take_rune: "length (take (runeLen s) s) = runeLen s"
  using runeLen_le [of s] by simp

lemma toValid_rune: "0 < runeLen r \<Longrightarrow> runeLen r = length r \<Longrightarrow> toValid (r @ s) = r @ toValid s"
proof -
  assume r: "0 < runeLen r" "runeLen r = length r"
  then obtain c u where cu: "r @ s = c # u" by (cases r) auto
  have "runeLen (c # u) = length r" using runeLen_append [OF r(1), of s] r cu by simp
  with r show ?thesis
    unfolding cu by (subst toValid.simps) (simp flip: cu)
qed

lemma runeLen_replacement: "runeLen replacement = length replacement"
  by (simp add: replacement_def leadByte_def byteIn_def)

lemma char_code_eq: "code c = n \<Longrightarrow> c = char_of n"
  by auto

lemma mod_window: "a * 64 \<le> n \<Longrightarrow> n < a * 64 + k \<Longrightarrow> k \<le> 64 \<Longrightarrow> n mod 64 < (k::nat)"
  using mod_mult_self3 [of a 64 "n - a * 64"] by simp

lemma runeLen_encodeRune: "runeLen (encodeRune r) = length (encodeRune r) \<and> encodeRune r \<noteq> []"
proof -
  have m: "r mod 64 < 64" "r div 64 mod 64 < 64" "r div 4096 mod 64 < 64" by simp_all
  consider "r < 0x80" | "0x80 \<le> r" "r < 0x800" | "0x800 \<le> r" "0xD800 \<le> r \<and> r < 0xE000 \<or> 0x10FFFF < r"
    | "0x800 \<le> r" "r < 0x10000" "\<not> (0xD800 \<le> r \<and> r < 0xE000)" | "0x10000 \<le> r" "r \<le> 0x10FFFF" by linarith
  then show ?thesis
  proof cases
    case 1
    then show ?thesis by (simp add: encodeRune_def leadByte_def)
  next
    case 2
    then have "r div 64 < 32" "2 \<le> r div 64" by simp_all
    with 2 m show ?thesis by (simp add: encodeRune_def leadByte_def byteIn_def Let_def)
  next
    case 3
    then show ?thesis using runeLen_replacement by (simp add: encodeRune_def) (simp add: replacement_def)
  next
    case 4
    then have d: "r div 4096 < 16" by simp
    have "r div 4096 = 0 \<Longrightarrow> 32 \<le> r div 64 mod 64" using 4 by simp
    moreover have "r div 64 mod 64 < 32" if "r div 4096 = 13"
    proof (rule mod_window)
      have "r div 4096 < 14" "13 \<le> r div 4096" using that by simp_all
      then have r: "r < 57344" "53248 \<le> r"
        using div_less_iff_less_mult [of 4096 r 14] less_eq_div_iff_mult_less_eq [of 4096 13 r] by simp_all
      with 4(3) show "r div 64 < 13 * 64 + 32" using div_less_iff_less_mult [of 64 r 864] by simp
      show "13 * 64 \<le> r div 64" using r less_eq_div_iff_mult_less_eq [of 64 832 r] by simp
    qed simp
    ultimately show ?thesis
      using 4 d m by (auto simp: encodeRune_def leadByte_def byteIn_def Let_def)
  next
    case 5
    then have d: "r div 262144 \<le> 4" by simp
    have "64 \<le> r div 4096 \<Longrightarrow> 0 < r div 262144"
      using less_eq_div_iff_mult_less_eq [of 4096 64 r] less_eq_div_iff_mult_less_eq [of 262144 1 r] by simp
    moreover
    have "r div 262144 = 0 \<Longrightarrow> 16 \<le> r div 4096 mod 64" using 5 by simp
    moreover have "r div 4096 mod 64 < 16" if "r div 262144 = 4"
    proof (rule mod_window)
      show "r div 4096 < 4 * 64 + 16" using 5 div_less_iff_less_mult [of 4096 r 272] by simp
      have "4 \<le> r div 262144" using that by simp
      then have "1048576 \<le> r" using less_eq_div_iff_mult_less_eq [of 262144 4 r] by simp
      then show "4 * 64 \<le> r div 4096" using less_eq_div_iff_mult_less_eq [of 4096 256 r] by simp
    qed simp
    ultimately show ?thesis
      using 5 d m by (auto simp: encodeRune_def leadByte_def byteIn_def Let_def)
  qed
qed

declare runeLen.simps(2) [simp del]

lemma toValid_encodeRune: "toValid (encodeRune r @ s) = encodeRune r @ toValid s"
  using runeLen_encodeRune [of r] by (intro toValid_rune) auto

lemma toValid_take_rune: "0 < runeLen t \<Longrightarrow> toValid (take (runeLen t) t @ s) = take (runeLen t) t @ toValid s"
  by (intro toValid_rune) (simp_all add: runeLen_take length_take_rune del: length_take)

lemma toValid_replacement: "toValid (replacement @ s) = replacement @ toValid s"
  using runeLen_replacement by (intro toValid_rune) (simp_all, simp add: replacement_def)

lemma toValid_ascii: "code c < 0x80 \<Longrightarrow> toValid (c # s) = c # toValid s"
  using toValid_rune [of "[c]" s] by (simp add: runeLen_ascii)

lemma validUTF8_toValid: "validUTF8 (toValid s)"
proof (induction s rule: toValid.induct)
  case (2 c s)
  show ?case
  proof (cases "runeLen (c # s) = 0")
    case True
    then show ?thesis using 2(1) by (simp add: toValid.simps validUTF8_def toValid_replacement)
  next
    case False
    then have "toValid (c # s) = take (runeLen (c # s)) (c # s) @ toValid (drop (runeLen (c # s)) (c # s))"
      by (subst toValid.simps) simp
    then show ?thesis using False 2(2) toValid_take_rune [of "c # s"] by (simp only: validUTF8_def) simp
  qed
qed (simp add: validUTF8_def)

text \<open>Every string the decoder produces is valid UTF-8.\<close>

lemma fst_escapedRune: "\<exists>n. fst (escapedRune r s) = encodeRune n"
  by (auto simp: escapedRune_def split: list.split option.split)

lemma escapeChar_ascii: "escapeChar e = Some x \<Longrightarrow> code x < 0x80"
  by (auto simp: escapeChar_def split: if_splits)

lemma lexString_valid: "lexString s = Some (v, rest) \<Longrightarrow> validUTF8 v"
proof (induction "length s" arbitrary: s v rule: less_induct)
  case less
  note IH = less.hyps [unfolded validUTF8_def]
  from less.prems show ?case
    unfolding validUTF8_def
  proof (cases rule: lexString_cases)
    case (unicode t r t1 w)
    obtain n where "fst (escapedRune r t1) = encodeRune n" using fst_escapedRune by blast
    moreover have "toValid w = w"
      using unicode hex4_length [OF unicode(2)] escapedRune_length [of r t1] by (intro IH [OF _ unicode(3)]) simp
    ultimately show "toValid v = v" by (simp add: unicode(4) toValid_encodeRune)
  next
    case (escape e x t w)
    then show "toValid v = v" using IH [OF _ escape(3)] escapeChar_ascii [OF escape(2)] by (simp add: toValid_ascii)
  next
    case (invalid c t w)
    then show "toValid v = v" using IH [OF _ invalid(3)] by (simp add: toValid_replacement)
  next
    case (rune w)
    moreover have "toValid w = w" using rune runeLen_le [of s] by (intro IH [OF _ rune(2)]) simp
    ultimately show "toValid v = v" by (simp add: toValid_take_rune)
  qed simp
qed

section \<open>String literals\<close>

lemma hexVal_hexChar: "n < 16 \<Longrightarrow> hexVal (hexChar n) = Some n"
proof -
  have "list_all (\<lambda>n. hexVal (hexChar n) = Some n) [0..<16]"
    by (simp add: upt_rec hexVal_def hexChar_def char_of_def bit_0)
  then show "n < 16 \<Longrightarrow> ?thesis" by (simp add: list_all_iff)
qed

lemma encodeRune_examples:
  "encodeRune 0xFFFD = replacement"
  "encodeRune 0x2028 = [CHR 0xE2, CHR 0x80, CHR 0xA8]"
  "encodeRune 0x2029 = [CHR 0xE2, CHR 0x80, CHR 0xA9]"
  by (simp_all add: encodeRune_def replacement_def char_of_def bit_0)

lemma escapedRune_plain: "\<not> highSurrogate r \<Longrightarrow> escapedRune r s = (encodeRune r, s)"
  by (simp add: escapedRune_def split: list.split)

lemma lexString_unicode:
  "hex4 t = Some (r, u) \<Longrightarrow> \<not> highSurrogate r \<Longrightarrow>
   lexString (CHR 0x5C # CHR ''u'' # t) = prepend (encodeRune r) (lexString u)"
  by (subst lexString.simps) (simp add: escapedRune_plain)

lemma lexString_escape:
  "escapeChar e = Some x \<Longrightarrow> lexString (CHR 0x5C # e # t) = prepend [x] (lexString t)"
  by (subst lexString.simps) (auto simp: escapeChar_def split: if_splits)

lemma lexString_quoteByte:
  assumes "code c < 0x80"
  shows "lexString (quoteByte c @ t) = prepend [c] (lexString t)"
proof -
  have "(\<exists>e. quoteByte c = [CHR 0x5C, e] \<and> escapeChar e = Some c) \<or>
      quoteByte c = [CHR 0x5C, CHR ''u'', CHR ''0'', CHR ''0'', hexChar (code c div 16), hexChar (code c mod 16)] \<or>
      quoteByte c = [c] \<and> c \<noteq> CHR 0x22 \<and> c \<noteq> CHR 0x5C \<and> \<not> code c < 0x20"
    by (auto simp: quoteByte_def escapeChar_def)
  then consider (esc) e where "quoteByte c = [CHR 0x5C, e]" "escapeChar e = Some c"
    | (hex) "quoteByte c = [CHR 0x5C, CHR ''u'', CHR ''0'', CHR ''0'', hexChar (code c div 16), hexChar (code c mod 16)]"
    | (plain) "quoteByte c = [c]" "c \<noteq> CHR 0x22" "c \<noteq> CHR 0x5C" "\<not> code c < 0x20"
    by blast
  then show ?thesis
  proof cases
    case esc
    then show ?thesis by (simp add: lexString_escape)
  next
    case hex
    have "code c div 16 < 16" "code c mod 16 < 16" using assms by simp_all
    then have "hex4 (CHR ''0'' # CHR ''0'' # hexChar (code c div 16) # hexChar (code c mod 16) # t) = Some (code c, t)"
      by (simp add: hexVal_hexChar) (simp add: hexVal_def)
    moreover have "\<not> highSurrogate (code c)" "encodeRune (code c) = [c]"
      using assms by (simp_all add: highSurrogate_def encodeRune_def)
    ultimately show ?thesis using hex lexString_unicode by simp
  next
    case plain
    then show ?thesis
      using runeLen_ascii [OF assms, of t] by (simp add: lexString.simps del: runeLen.simps)
  qed
qed

lemma lexString_rune:
  assumes "0x80 \<le> code c" and "0 < runeLen (c # s)"
  shows "lexString (quoteRune (take (runeLen (c # s)) (c # s)) @ t) =
           prepend (take (runeLen (c # s)) (c # s)) (lexString t)"
proof -
  let ?r = "take (runeLen (c # s)) (c # s)"
  consider (ls) "?r = [CHR 0xE2, CHR 0x80, CHR 0xA8]" | (ps) "?r = [CHR 0xE2, CHR 0x80, CHR 0xA9]"
    | (other) "quoteRune ?r = ?r" by (metis quoteRune_def)
  then show ?thesis
  proof cases
    case ls
    have "hex4 (''2028'' @ t) = Some (0x2028, t)" by (simp add: hexVal_def)
    from lexString_unicode [OF this] show ?thesis
      unfolding ls by (simp add: quoteRune_def highSurrogate_def encodeRune_examples)
  next
    case ps
    have "hex4 (''2029'' @ t) = Some (0x2029, t)" by (simp add: hexVal_def)
    from lexString_unicode [OF this] show ?thesis
      unfolding ps by (simp add: quoteRune_def highSurrogate_def encodeRune_examples)
  next
    case other
    obtain u where u: "?r @ t = c # u" using assms(2) by (cases "runeLen (c # s)") auto
    have n: "runeLen (c # u) = runeLen (c # s)" using runeLen_take_append [OF assms(2), of t] by (simp only: u)
    have "c \<noteq> CHR 0x22" "c \<noteq> CHR 0x5C" "\<not> code c < 0x20" using assms(1) by auto
    then have "lexString (c # u) = prepend (take (runeLen (c # u)) (c # u)) (lexString (drop (runeLen (c # u)) (c # u)))"
      using n assms(2) by (subst lexString.simps) simp
    moreover have "take (runeLen (c # s)) (c # u) = ?r" "drop (runeLen (c # s)) (c # u) = t"
      using length_take_rune [of "c # s"] by (simp_all flip: u del: length_take)
    ultimately show ?thesis using other u n by simp
  qed
qed

lemma lexString_quoteBody: "lexString (quoteBody s @ CHR 0x22 # rest) = Some (toValid s, rest)"
proof (induction s rule: quoteBody.induct)
  case 1
  show ?case by (simp add: quoteBody.simps lexString.simps)
next
  case (2 c s)
  show ?case
  proof (cases "code c < 0x80")
    case True
    then show ?thesis
      using 2(1) by (subst quoteBody.simps) (simp add: lexString_quoteByte prepend_def toValid_ascii)
  next
    case hi: False
    show ?thesis
    proof (cases "runeLen (c # s) = 0")
      case True
      have "hex4 (''fffd'' @ quoteBody s @ CHR 0x22 # rest) = Some (0xFFFD, quoteBody s @ CHR 0x22 # rest)"
        by (simp add: hexVal_def)
      from lexString_unicode [OF this] show ?thesis
        using hi True 2(2) by (simp add: quoteBody.simps toValid.simps prepend_def highSurrogate_def encodeRune_examples)
    next
      case False
      then have "quoteBody (c # s) = quoteRune (take (runeLen (c # s)) (c # s)) @ quoteBody (drop (runeLen (c # s)) (c # s))"
        using hi by (subst quoteBody.simps) simp
      then show ?thesis
        using lexString_rune [of c s] hi False 2(3) by (simp only: append_assoc toValid.simps(2)) (simp add: prepend_def)
    qed
  qed
qed

section \<open>Trees and tokens\<close>

definition numberLiteral :: "string \<Rightarrow> bool" where
  "numberLiteral lit \<longleftrightarrow> validNumber lit \<and> list_all numChar lit \<and> (hd lit = CHR ''-'' \<or> isDigit (hd lit))"

fun wfJson :: "json \<Rightarrow> bool" and wfJsons :: "json list \<Rightarrow> bool" and wfMembers :: "(string \<times> json) list \<Rightarrow> bool" where
  "wfJson JNull = True"
| "wfJson (JBool b) = True"
| "wfJson (JNum lit) = numberLiteral lit"
| "wfJson (JStr s) = validUTF8 s"
| "wfJson (JArr xs) = wfJsons xs"
| "wfJson (JObj kvs) = wfMembers kvs"
| "wfJsons [] = True"
| "wfJsons (x # xs) = (wfJson x \<and> wfJsons xs)"
| "wfMembers [] = True"
| "wfMembers ((k, x) # kvs) = (validUTF8 k \<and> wfJson x \<and> wfMembers kvs)"

fun depthOf :: "json \<Rightarrow> nat" and depthOfs :: "json list \<Rightarrow> nat" and depthOfMembers :: "(string \<times> json) list \<Rightarrow> nat" where
  "depthOf (JArr xs) = Suc (depthOfs xs)"
| "depthOf (JObj kvs) = Suc (depthOfMembers kvs)"
| "depthOf j = 0"
| "depthOfs [] = 0"
| "depthOfs (x # xs) = max (depthOf x) (depthOfs xs)"
| "depthOfMembers [] = 0"
| "depthOfMembers ((k, x) # kvs) = max (depthOf x) (depthOfMembers kvs)"

fun commas :: "token list list \<Rightarrow> token list" where
  "commas [] = []"
| "commas [p] = p"
| "commas (p # q # ps) = p @ TPunct (CHR '','') # commas (q # ps)"

fun toks :: "json \<Rightarrow> token list" and toksList :: "json list \<Rightarrow> token list list"
  and toksObj :: "(string \<times> json) list \<Rightarrow> token list list" where
  "toks (JNum lit) = [TNumber lit]"
| "toks (JStr s) = [TString s]"
| "toks (JArr xs) = TPunct (CHR ''['') # commas (toksList xs) @ [TPunct (CHR '']'')]"
| "toks (JObj kvs) = TPunct (CHR ''{'') # commas (toksObj kvs) @ [TPunct (CHR ''}'')]"
| "toks j = [TConst j]"
| "toksList [] = []"
| "toksList (x # xs) = toks x # toksList xs"
| "toksObj [] = []"
| "toksObj ((k, x) # kvs) = (TString k # TPunct (CHR '':'') # toks x) # toksObj kvs"

definition stops :: "string \<Rightarrow> bool" where
  "stops rest \<longleftrightarrow> rest = [] \<or> \<not> numChar (hd rest)"

lemma stops_simps [simp]: "stops []" "stops (c # s) \<longleftrightarrow> \<not> numChar c"
  by (simp_all add: stops_def)

lemma punct_stops [simp]: "\<not> numChar (CHR '','')" "\<not> numChar (CHR '']'')" "\<not> numChar (CHR ''}'')"
  by (simp_all add: numChar_def isDigit_def)

text \<open>Tokens put in front of what the lexer makes of the rest.\<close>

definition emit :: "token list \<Rightarrow> token list option \<Rightarrow> token list option" where
  "emit ts r = map_option (\<lambda>us. ts @ us) r"

lemma emit_simps [simp]: "emit ts (emit us r) = emit (ts @ us) r" "emit [] r = r" "emit ts (Some us) = Some (ts @ us)"
  by (cases r; simp add: emit_def)+

lemma lexJSON_punct: "c \<in> set ''{}[]:,'' \<Longrightarrow> lexJSON (c # s) = emit [TPunct c] (lexJSON s)"
  by (subst lexJSON.simps) (auto simp: jsonSpace_def emit_def)

lemma lexJSON_quote: "lexJSON (quote s @ rest) = emit [TString (toValid s)] (lexJSON rest)"
  by (simp add: quote_def) (subst lexJSON.simps, simp add: jsonSpace_def lexString_quoteBody emit_def)

lemma lexJSON_number:
  assumes "numberLiteral lit" and "stops rest"
  shows "lexJSON (lit @ rest) = emit [TNumber lit] (lexJSON rest)"
proof -
  obtain c s where lit: "lit = c # s" using assms(1)
    by (cases lit) (auto simp: numberLiteral_def validNumber_def trimPrefix_def)
  then have num: "list_all numChar s" "c = CHR ''-'' \<or> isDigit c" "validNumber (c # s)"
    using assms(1) by (auto simp: numberLiteral_def)
  then have "takeWhile numChar (s @ rest) = s" "dropWhile numChar (s @ rest) = rest"
    using assms(2) by (cases rest; simp add: takeWhile_append2 dropWhile_append2 list_all_iff)+
  moreover have "\<not> jsonSpace c" "c \<notin> set ''{}[]:,''" "c \<noteq> CHR 0x22"
    using num(2) by (auto simp: jsonSpace_def isDigit_def)
  ultimately show ?thesis
    using num lit by (simp add: lexJSON.simps emit_def)
qed

lemma lexJSON_words:
  "lexJSON (''null'' @ rest) = emit [TConst JNull] (lexJSON rest)"
  "lexJSON (''true'' @ rest) = emit [TConst (JBool True)] (lexJSON rest)"
  "lexJSON (''false'' @ rest) = emit [TConst (JBool False)] (lexJSON rest)"
  by (simp_all add: lexJSON.simps jsonSpace_def isDigit_def emit_def)

lemma lexJSON_render:
  "wfJson j \<Longrightarrow> stops rest \<Longrightarrow> lexJSON (render j @ rest) = emit (toks j) (lexJSON rest)"
  "wfJsons xs \<Longrightarrow> stops rest \<Longrightarrow>
     lexJSON (joinWith '','' (renderList xs) @ rest) = emit (commas (toksList xs)) (lexJSON rest)"
  "wfMembers kvs \<Longrightarrow> stops rest \<Longrightarrow>
     lexJSON (joinWith '','' (renderObj kvs) @ rest) = emit (commas (toksObj kvs)) (lexJSON rest)"
proof (induction j and xs and kvs arbitrary: rest and rest and rest rule: render_renderList_renderObj.induct)
  case (8 x xs)
  show ?case
  proof (cases xs)
    case (Cons y ys)
    then show ?thesis
      using 8(1) [of "'','' @ joinWith '','' (renderList xs) @ rest"] 8(2) [of rest] 8(3,4)
      by (simp add: lexJSON_punct)
  qed (use 8 in simp)
next
  case (10 k x kvs)
  show ?case
  proof (cases kvs)
    case (Cons y ys)
    then show ?thesis
      using 10(1) [of "'','' @ joinWith '','' (renderObj kvs) @ rest"] 10(2) [of rest] 10(3,4)
      by (cases y) (simp add: lexJSON_punct lexJSON_quote validUTF8_def)
  qed (use 10 in \<open>simp add: lexJSON_punct lexJSON_quote validUTF8_def\<close>)
qed (simp_all add: lexJSON_words [simplified] lexJSON_number lexJSON_quote lexJSON_punct validUTF8_def)

section \<open>The scanner builds the tree\<close>

lemma scan_first: "scanTokens (toks j @ ts) (BeginValueOrEmpty fs) = scanTokens (toks j @ ts) (BeginValue (FArr [] # fs))"
  by (cases j) simp_all

lemma commas_Cons: "commas (p # ps) = p @ (if ps = [] then [] else TPunct (CHR '','') # commas ps)"
  by (cases ps) simp_all

lemma scanTokens_append: "scanTokens (ts @ us) st = Option.bind (scanTokens ts st) (scanTokens us)"
  by (induction ts arbitrary: st) (auto split: option.split)

lemma scan_toks:
  "length fs + depthOf j \<le> maxNestingDepth \<Longrightarrow>
     scanTokens (toks j @ ts) (BeginValue fs) = scanTokens ts (endValue j fs)"
  "length fs + depthOfs xs < maxNestingDepth \<Longrightarrow> xs \<noteq> [] \<Longrightarrow>
     scanTokens (commas (toksList xs) @ ts) (BeginValue (FArr ys # fs)) = scanTokens ts (EndElement (ys @ xs) fs)"
  "length fs + depthOfMembers kvs < maxNestingDepth \<Longrightarrow> kvs \<noteq> [] \<Longrightarrow>
     scanTokens (commas (toksObj kvs) @ ts) (BeginString ms fs) = scanTokens ts (EndMember (ms @ kvs) fs)"
proof (induction j and xs and kvs arbitrary: fs ts and fs ts ys and fs ts ms rule: toks_toksList_toksObj.induct)
  case (3 xs)
  show ?case
  proof (cases xs)
    case (Cons x xs')
    have "scanTokens (commas (toksList xs) @ TPunct (CHR '']'') # ts) (BeginValueOrEmpty fs)
        = scanTokens (commas (toksList xs) @ TPunct (CHR '']'') # ts) (BeginValue (FArr [] # fs))"
      using scan_first [of x _ fs] Cons by (cases xs') simp_all
    then show ?thesis using 3 Cons by (simp add: beginValue_def)
  qed (use 3 in \<open>simp add: beginValue_def\<close>)
next
  case (4 kvs)
  show ?case
  proof (cases kvs)
    case (Cons m kvs')
    have "scanTokens (commas (toksObj kvs) @ TPunct (CHR ''}'') # ts) (BeginStringOrEmpty fs)
        = scanTokens (commas (toksObj kvs) @ TPunct (CHR ''}'') # ts) (BeginString [] fs)"
      using Cons by (cases m) (simp add: commas_Cons)
    then show ?thesis using 4 Cons by (simp add: beginValue_def)
  qed (use 4 in \<open>simp add: beginValue_def\<close>)
next
  case (7 x xs)
  show ?case
  proof (cases xs)
    case (Cons y zs)
    then show ?thesis using "7.IH"(1) [of "FArr ys # fs"] "7.IH"(2) [of fs ts "ys @ [x]"] "7.prems" by simp
  qed (use 7 in simp)
next
  case (9 k x kvs)
  show ?case
  proof (cases kvs)
    case (Cons y zs)
    then show ?thesis using "9.IH"(1) [of "FMember ms k # fs"] "9.IH"(2) [of fs ts "ms @ [(k, x)]"] "9.prems" by (cases y) simp
  qed (use 9 in simp)
qed (simp_all add: beginValue_def)

lemma parse_render:
  assumes "wfJson j" and "depthOf j \<le> maxNestingDepth"
  shows "parseJSON (render j) = Some j"
proof -
  have "lexJSON (render j) = Some (toks j)"
    using lexJSON_render(1) [OF assms(1), of "[]"] by (simp add: lexJSON.simps)
  moreover have "scanTokens (toks j) (BeginValue []) = Some (EndTop j)"
    using scan_toks(1) [of "[]" j "[]"] assms(2) by simp
  ultimately show ?thesis by (simp add: parseJSON_def)
qed

text \<open>Conversely, every tree the parser builds is well formed.\<close>

fun wfToken :: "token \<Rightarrow> bool" where
  "wfToken (TString s) = validUTF8 s"
| "wfToken (TNumber lit) = numberLiteral lit"
| "wfToken (TConst j) = (case j of JNull \<Rightarrow> True | JBool b \<Rightarrow> True | _ \<Rightarrow> False)"
| "wfToken (TPunct c) = True"

lemma wfJsons_iff: "wfJsons xs \<longleftrightarrow> list_all wfJson xs"
  by (induction xs) auto

lemma wfMembers_iff: "wfMembers kvs \<longleftrightarrow> list_all (\<lambda>(k, x). validUTF8 k \<and> wfJson x) kvs"
  by (induction kvs) auto

lemma number_literal:
  "validNumber (c # takeWhile numChar s) \<Longrightarrow> c = CHR ''-'' \<or> isDigit c \<Longrightarrow> numberLiteral (c # takeWhile numChar s)"
  by (auto simp: numberLiteral_def list_all_iff numChar_def dest: set_takeWhileD)

lemma lexJSON_step:
  assumes "lexJSON (c # s) = Some ts"
  obtains (space) "lexJSON s = Some ts"
  | (token) t rest us where "wfToken t" "ts = t # us" "lexJSON rest = Some us" "length rest \<le> length s"
proof (cases "jsonSpace c")
  case True
  with assms show thesis by (intro space) (simp add: lexJSON.simps)
next
  case sp: False
  have tok: thesis if "map_option ((#) t) (lexJSON rest) = Some ts" "wfToken t" "length rest \<le> length s" for t rest
    using that by (auto intro: token)
  show thesis
  proof (cases "c \<in> set ''{}[]:,''")
    case True
    then show thesis using assms sp by (intro tok [of "TPunct c" s]) (simp_all add: lexJSON.simps)
  next
    case pn: False
    show thesis
    proof (cases "c = CHR 0x22")
      case True
      then obtain v rest where v: "lexString s = Some (v, rest)" "map_option ((#) (TString v)) (lexJSON rest) = Some ts"
        using assms sp pn by (auto simp: lexJSON.simps split: option.splits)
      then show thesis using lexString_length [OF v(1)] lexString_valid [OF v(1)] by (intro tok [OF v(2)]) simp_all
    next
      case qt: False
      show thesis
      proof (cases "c = CHR ''-'' \<or> isDigit c")
        case True
        then have "validNumber (c # takeWhile numChar s)"
          "map_option ((#) (TNumber (c # takeWhile numChar s))) (lexJSON (dropWhile numChar s)) = Some ts"
          using assms sp pn qt
          by (simp_all only: lexJSON.simps if_True if_False option.distinct option.map split: if_splits)
        with True show thesis
          using number_literal [of c s] by (intro tok [of "TNumber (c # takeWhile numChar s)" "dropWhile numChar s"])
            (simp_all add: length_dropWhile_le)
      next
        case False
        then have "map_option ((#) (TConst JNull)) (lexJSON (drop 3 s)) = Some ts \<or>
            map_option ((#) (TConst (JBool True))) (lexJSON (drop 3 s)) = Some ts \<or>
            map_option ((#) (TConst (JBool False))) (lexJSON (drop 4 s)) = Some ts"
          using assms sp pn qt by (simp only: lexJSON.simps if_False option.distinct split: if_splits) simp_all
        then show thesis
          using tok [of "TConst JNull" "drop 3 s"] tok [of "TConst (JBool True)" "drop 3 s"]
            tok [of "TConst (JBool False)" "drop 4 s"] by (simp only: wfToken.simps json.case length_drop diff_le_self) blast
      qed
    qed
  qed
qed

lemma lexJSON_wf: "lexJSON s = Some ts \<Longrightarrow> list_all wfToken ts"
proof (induction "length s" arbitrary: s ts rule: less_induct)
  case less
  show ?case
  proof (cases s)
    case (Cons c u)
    with less.prems have "lexJSON (c # u) = Some ts" by simp
    then show ?thesis
    proof (cases rule: lexJSON_step)
      case (token t rest us)
      with less.hyps [of rest us] Cons show ?thesis by simp
    qed (use less.hyps [of u ts] Cons in simp)
  qed (use less.prems in \<open>simp add: lexJSON.simps\<close>)
qed

fun wfFrame :: "frame \<Rightarrow> bool" where
  "wfFrame (FArr xs) = wfJsons xs"
| "wfFrame (FMember kvs k) = (wfMembers kvs \<and> validUTF8 k)"

fun wfState :: "scan_state \<Rightarrow> bool" where
  "wfState (BeginValue fs) = list_all wfFrame fs"
| "wfState (BeginValueOrEmpty fs) = list_all wfFrame fs"
| "wfState (EndElement xs fs) = (wfJsons xs \<and> list_all wfFrame fs)"
| "wfState (BeginStringOrEmpty fs) = list_all wfFrame fs"
| "wfState (BeginString kvs fs) = (wfMembers kvs \<and> list_all wfFrame fs)"
| "wfState (EndKey kvs k fs) = (wfMembers kvs \<and> validUTF8 k \<and> list_all wfFrame fs)"
| "wfState (EndMember kvs fs) = (wfMembers kvs \<and> list_all wfFrame fs)"
| "wfState (EndTop v) = wfJson v"

lemma endValue_wf: "wfJson v \<Longrightarrow> list_all wfFrame fs \<Longrightarrow> wfState (endValue v fs)"
  by (cases "(v, fs)" rule: endValue.cases) (auto simp: wfJsons_iff wfMembers_iff)

lemma beginValue_wf: "beginValue t fs = Some st \<Longrightarrow> wfToken t \<Longrightarrow> list_all wfFrame fs \<Longrightarrow> wfState st"
  by (auto simp: beginValue_def intro!: endValue_wf split: token.splits json.splits if_splits)

lemma scanStep_wf: "scanStep t st = Some st' \<Longrightarrow> wfToken t \<Longrightarrow> wfState st \<Longrightarrow> wfState st'"
  by (cases st) (auto simp: intro!: endValue_wf elim!: beginValue_wf split: if_splits token.splits)

lemma scanTokens_wf: "scanTokens ts st = Some st' \<Longrightarrow> list_all wfToken ts \<Longrightarrow> wfState st \<Longrightarrow> wfState st'"
  by (induction ts arbitrary: st) (auto intro: scanStep_wf split: option.splits)

lemma parseJSON_wf: "parseJSON s = Some j \<Longrightarrow> wfJson j"
  unfolding parseJSON_def
  by (auto split: option.splits scan_state.splits dest!: lexJSON_wf scanTokens_wf)

section \<open>The scanner accepts nothing but the tokens of a tree\<close>

text \<open>The tokens that have been read in a state, and the bound on the nesting of what has been built.\<close>

fun trailing :: "token list list \<Rightarrow> token list" where
  "trailing [] = []"
| "trailing (p # ps) = p @ TPunct (CHR '','') # trailing ps"

lemma commas_snoc: "commas (ps @ [p]) = trailing ps @ p"
  by (induction ps) (simp_all add: commas_Cons)

lemma trailing_commas: "ps \<noteq> [] \<Longrightarrow> trailing ps = commas ps @ [TPunct (CHR '','')]"
  by (induction ps) (simp_all add: commas_Cons)

fun frameToks :: "frame list \<Rightarrow> token list" where
  "frameToks [] = []"
| "frameToks (FArr xs # fs) = frameToks fs @ TPunct (CHR ''['') # trailing (toksList xs)"
| "frameToks (FMember kvs k # fs) =
     frameToks fs @ TPunct (CHR ''{'') # trailing (toksObj kvs) @ [TString k, TPunct (CHR '':'')]"

fun readToks :: "scan_state \<Rightarrow> token list" where
  "readToks (BeginValue fs) = frameToks fs"
| "readToks (BeginValueOrEmpty fs) = frameToks fs @ [TPunct (CHR ''['')]"
| "readToks (EndElement xs fs) = frameToks fs @ TPunct (CHR ''['') # commas (toksList xs)"
| "readToks (BeginStringOrEmpty fs) = frameToks fs @ [TPunct (CHR ''{'')]"
| "readToks (BeginString kvs fs) = frameToks fs @ TPunct (CHR ''{'') # trailing (toksObj kvs)"
| "readToks (EndKey kvs k fs) = frameToks fs @ TPunct (CHR ''{'') # trailing (toksObj kvs) @ [TString k]"
| "readToks (EndMember kvs fs) = frameToks fs @ TPunct (CHR ''{'') # commas (toksObj kvs)"
| "readToks (EndTop v) = toks v"

fun frameFits :: "frame list \<Rightarrow> bool" where
  "frameFits [] = True"
| "frameFits (FArr xs # fs) \<longleftrightarrow> length fs + depthOfs xs < maxNestingDepth \<and> frameFits fs"
| "frameFits (FMember kvs k # fs) \<longleftrightarrow> length fs + depthOfMembers kvs < maxNestingDepth \<and> frameFits fs"

fun stateFits :: "scan_state \<Rightarrow> bool" where
  "stateFits (BeginValue fs) = frameFits fs"
| "stateFits (BeginValueOrEmpty fs) = frameFits (FArr [] # fs)"
| "stateFits (EndElement xs fs) = (xs \<noteq> [] \<and> frameFits (FArr xs # fs))"
| "stateFits (BeginStringOrEmpty fs) = frameFits (FMember [] [] # fs)"
| "stateFits (BeginString kvs fs) = frameFits (FMember kvs [] # fs)"
| "stateFits (EndKey kvs k fs) = frameFits (FMember kvs k # fs)"
| "stateFits (EndMember kvs fs) = (kvs \<noteq> [] \<and> frameFits (FMember kvs [] # fs))"
| "stateFits (EndTop v) = (depthOf v \<le> maxNestingDepth)"

lemma depthOfs_le: "depthOfs xs \<le> n \<longleftrightarrow> (\<forall>x \<in> set xs. depthOf x \<le> n)"
  by (induction xs) auto

lemma depthOfMembers_le: "depthOfMembers kvs \<le> n \<longleftrightarrow> (\<forall>kv \<in> set kvs. depthOf (snd kv) \<le> n)"
  by (induction kvs) auto

lemma depth_snoc:
  "depthOfs (xs @ [x]) = max (depthOfs xs) (depthOf x)"
  "depthOfMembers (kvs @ [(k, x)]) = max (depthOfMembers kvs) (depthOf x)"
  by (induction xs; simp) (induction kvs; auto)

lemma toks_snoc:
  "toksList (xs @ [x]) = toksList xs @ [toks x]"
  "toksObj (kvs @ [(k, x)]) = toksObj kvs @ [TString k # TPunct (CHR '':'') # toks x]"
  by (induction xs; simp) (induction kvs; auto)

lemma toks_nonempty: "toksList xs \<noteq> [] \<longleftrightarrow> xs \<noteq> []" "toksObj kvs \<noteq> [] \<longleftrightarrow> kvs \<noteq> []"
  by (cases xs; simp) (cases kvs; auto)

lemma endValue_reads: "readToks (endValue v fs) = frameToks fs @ toks v"
  by (cases "(v, fs)" rule: endValue.cases) (simp_all add: toks_snoc commas_snoc)

lemma endValue_fits: "length fs + depthOf v \<le> maxNestingDepth \<Longrightarrow> frameFits fs \<Longrightarrow> stateFits (endValue v fs)"
  by (cases "(v, fs)" rule: endValue.cases) (auto simp: depth_snoc)

lemma frameFits_length: "frameFits fs \<Longrightarrow> length fs \<le> maxNestingDepth"
  by (cases fs rule: frameFits.cases) auto

lemma beginValue_reads:
  assumes "beginValue t fs = Some st" and "wfToken t" and "frameFits fs"
  shows "readToks st = frameToks fs @ [t] \<and> stateFits st"
  using assms frameFits_length [OF assms(3)]
  by (auto simp: beginValue_def endValue_reads intro!: endValue_fits split: token.splits json.splits if_splits)

lemma scanStep_reads:
  assumes "scanStep t st = Some st'" and "wfToken t" and "stateFits st"
  shows "readToks st' = readToks st @ [t] \<and> stateFits st'"
proof (cases st)
  case (BeginValueOrEmpty fs)
  then show ?thesis
    using assms beginValue_reads [of t "FArr [] # fs" st']
    by (auto simp: endValue_reads intro!: endValue_fits split: if_splits)
qed (use assms beginValue_reads [of t _ st'] in
  \<open>auto simp: endValue_reads trailing_commas toks_nonempty intro!: endValue_fits split: if_splits token.splits\<close>)

lemma scanTokens_reads:
  "scanTokens ts st = Some st' \<Longrightarrow> list_all wfToken ts \<Longrightarrow> stateFits st \<Longrightarrow>
   readToks st' = readToks st @ ts \<and> stateFits st'"
proof (induction ts arbitrary: st)
  case (Cons t ts)
  then obtain st1 where st1: "scanStep t st = Some st1" "scanTokens ts st1 = Some st'" by (auto split: option.splits)
  from scanStep_reads [OF st1(1)] Cons.IH [OF st1(2)] Cons.prems show ?case by simp
qed simp

text \<open>
  What the parser accepts: texts whose tokens are those of a tree that is not nested too deeply; and
  the tree it builds is that tree.
\<close>

lemma parseJSON_iff: "parseJSON s = Some j \<longleftrightarrow> lexJSON s = Some (toks j) \<and> depthOf j \<le> maxNestingDepth"
proof
  assume "parseJSON s = Some j"
  then obtain ts where ts: "lexJSON s = Some ts" "scanTokens ts (BeginValue []) = Some (EndTop j)"
    by (auto simp: parseJSON_def split: option.splits scan_state.splits)
  from scanTokens_reads [OF ts(2) lexJSON_wf [OF ts(1)]] ts(1)
  show "lexJSON s = Some (toks j) \<and> depthOf j \<le> maxNestingDepth" by simp
next
  assume "lexJSON s = Some (toks j) \<and> depthOf j \<le> maxNestingDepth"
  then show "parseJSON s = Some j" using scan_toks(1) [of "[]" j "[]"] by (simp add: parseJSON_def)
qed

end
