(* ===== verification/JsonNumber.thy ===== *)
theory JsonNumber
  imports JsonCodec
begin

text \<open>
  Numbers in JSON: the literal printed for a \<^verbatim>\<open>float64\<close> is a valid number and reads back as the same
  \<^verbatim>\<open>float64\<close>.
\<close>

section \<open>Decimals that round to a float\<close>

lemma roundHalfEven_near: "\<bar>y - of_int n\<bar> < 1 / 2 \<Longrightarrow> roundHalfEven y = n"
proof -
  assume y: "\<bar>y - of_int n\<bar> < 1 / 2"
  show ?thesis
  proof (cases "of_int n \<le> y")
    case True
    then have "\<lfloor>y\<rfloor> = n" using y by (intro floor_unique) (auto simp: abs_less_iff)
    with y True show ?thesis by (simp add: roundHalfEven_def abs_less_iff)
  next
    case False
    then have "\<lfloor>y\<rfloor> = n - 1" using y by (intro floor_unique) (auto simp: abs_less_iff)
    with y False show ?thesis by (simp add: roundHalfEven_def abs_less_iff)
  qed
qed

lemma roundHalfEven_dist: "\<bar>of_int (roundHalfEven y) - y\<bar> \<le> 1 / 2"
  unfolding roundHalfEven_def Let_def abs_le_iff by (auto; linarith)

text \<open>A number closer to a float than a quarter of its relative spacing rounds to it.\<close>

lemma fl64_near:
  assumes x: "fl64 x = x" "0 < x" and d: "\<bar>d - x\<bar> * 2 ^ 54 < x"
  shows "fl64 d = x"
proof -
  let ?u = "ulp64 x" and ?k = "ilog2 x"
  obtain j where j: "x = of_int j * ?u" "2 ^ 52 \<le> j" using fl64_significand [OF x(2)] x(1) by metis
  have u: "2 ^ 52 * ?u = 2 powi ?k" "2 ^ 53 * ?u = 2 powi (?k + 1)" "0 < ?u"
    by (simp_all add: ulp64_def power_int_diff power_int_add)
  have b: "2 powi ?k \<le> x" "x < 2 powi (?k + 1)" using ilog2_bounds [OF x(2)] .
  have d': "\<bar>d - x\<bar> * 18014398509481984 < x" using d by simp
  have u': "4503599627370496 * ?u = 2 powi ?k" "9007199254740992 * ?u = 2 powi (?k + 1)" using u by simp_all
  have "\<bar>d - x\<bar> * 18014398509481984 < 9007199254740992 * ?u" unfolding u'(2) using d' b(2) by (rule less_trans)
  then have half: "\<bar>d - x\<bar> < ?u / 2" by simp
  have "of_int j * ?u < of_int (2 ^ 53) * ?u" using b(2) u(2) j(1) by simp
  then have j53: "j < 2 ^ 53" using u(3) by (simp only: mult_less_cancel_right_pos of_int_less_iff)
  then have "of_int j \<le> (of_int (2 ^ 53 - 1) :: rat)" by (simp only: of_int_le_iff zle_diff1_eq)
  then have "of_int j * ?u \<le> of_int (2 ^ 53 - 1) * ?u" using u(3) by (intro mult_right_mono less_imp_le [OF u(3)])
  then have top: "x \<le> 2 powi (?k + 1) - ?u" unfolding j(1) [symmetric] using u(2) by simp
  have d0: "0 < d" using d x(2) by (simp add: abs_if split: if_splits)
  show ?thesis
  proof (cases "2 powi ?k \<le> d")
    case True
    moreover have "d < 2 powi (?k + 1)" using top half u(3) by linarith
    ultimately have "ilog2 d = ?k" by (rule ilog2_unique)
    then have ud: "ulp64 d = ?u" by (simp add: ulp64_def)
    have "of_int j = x / ?u" using j(1) u(3) by (metis less_irrefl nonzero_mult_div_cancel_right)
    then have "d / ?u - of_int j = (d - x) / ?u" by (simp add: diff_divide_distrib)
    then have "\<bar>d / ?u - of_int j\<bar> < 1 / 2" using half u(3) by (simp add: field_simps)
    from roundHalfEven_near [OF this] show ?thesis using d0 ud j(1) by (simp add: fl64_def)
  next
    case False
    have "j = 2 ^ 52"
    proof (rule ccontr)
      assume "j \<noteq> 2 ^ 52"
      then have "of_int (2 ^ 52 + 1) \<le> (of_int j :: rat)" using j(2) by (simp only: of_int_le_iff)
      then have "of_int (2 ^ 52 + 1) * ?u \<le> of_int j * ?u" by (intro mult_right_mono less_imp_le [OF u(3)])
      then have "2 powi ?k + ?u \<le> x" unfolding j(1) [symmetric] using u(1) by (simp add: distrib_right)
      with False half u(3) show False by linarith
    qed
    then have xk: "x = 2 powi ?k" using j(1) u(1) by simp
    have "\<bar>d - x\<bar> * 18014398509481984 < 4503599627370496 * ?u" unfolding u'(1) using d' by (simp only: xk [symmetric])
    then have q: "\<bar>d - x\<bar> < ?u / 4" by simp
    have h: "2 powi ?k = 2 * (2::rat) powi (?k - 1)" by (simp add: power_int_diff)
    have "2 powi (?k - 1) \<le> d" using q xk u'(1) h u(3) by linarith
    moreover have "d < 2 powi (?k - 1 + 1)" using False by simp
    ultimately have "ilog2 d = ?k - 1" by (rule ilog2_unique)
    then have ud: "ulp64 d = ?u / 2" by (simp add: ulp64_def power_int_diff)
    have e: "d / (?u / 2) - of_int (2 ^ 53) = (d - x) * 2 / ?u"
      using xk u(1,3) by (simp add: field_simps)
    have "\<bar>(d - x) * 2 / ?u\<bar> = \<bar>d - x\<bar> * 2 / ?u" by (simp only: abs_divide abs_mult abs_numeral abs_of_pos [OF u(3)])
    then have "\<bar>d / (?u / 2) - of_int (2 ^ 53)\<bar> < 1 / 2" unfolding e using q u(3) by (simp add: divide_less_eq)
    from roundHalfEven_near [OF this] have "fl64 d = of_int (2 ^ 53) * (?u / 2)"
      using d0 by (simp only: fl64_def ud not_le [symmetric] if_False)
    then show ?thesis using xk u(1) by simp
  qed
qed

text \<open>The same in the full range of \<^verbatim>\<open>float64\<close>, subnormal numbers included.\<close>

lemma subnormal_near:
  assumes x: "x = of_int j * minUlp" and d: "0 < d" "d < minNormal" "\<bar>d - x\<bar> < minUlp / 2"
  shows "roundFloat64 d = x"
proof -
  have "d / minUlp - of_int j = (d - x) / minUlp" using x minUlp_pos by (simp add: diff_divide_distrib del: minUlp_pos)
  then have "\<bar>d / minUlp - of_int j\<bar> = \<bar>d - x\<bar> / minUlp" using minUlp_pos by (simp add: abs_divide del: minUlp_pos)
  then have "\<bar>d / minUlp - of_int j\<bar> < 1 / 2" using d(3) minUlp_pos by (simp add: divide_less_eq del: minUlp_pos)
  from roundHalfEven_near [OF this] show ?thesis using roundFloat64_subnormal [OF d(1,2)] x by simp
qed

lemma roundFloat64_near:
  assumes x: "roundFloat64 x = x" "0 < x" and d: "\<bar>d - x\<bar> * 2 ^ 54 < x"
  shows "roundFloat64 d = x"
proof -
  have d0: "0 < d" using d x(2) by (simp add: abs_if split: if_splits)
  have n: "4503599627370496 * minUlp = minNormal" using minUlp_normal by simp
  have d': "\<bar>d - x\<bar> * 18014398509481984 < x" using d by simp
  show ?thesis
  proof (cases "minNormal \<le> x")
    case normal: True
    then have fx: "fl64 x = x" using x(1) roundFloat64_normal by simp
    show ?thesis
    proof (cases "minNormal \<le> d")
      case True
      then show ?thesis using fl64_near [OF fx x(2) d] roundFloat64_normal by simp
    next
      case False
      then have less: "x < 2 * minNormal" using d' normal by (simp add: abs_if split: if_splits)
      have "ilog2 x = -1022"
      proof (rule ilog2_unique)
        show "x < 2 powi (-1022 + 1)" using less power_int_add [of "2 :: rat" "-1022" 1] unfolding minNormal_def by simp
      qed (use normal in \<open>simp only: minNormal_def\<close>)
      then have "ulp64 x = minUlp" by (simp add: ulp64_def minUlp_def)
      then obtain j where j: "x = of_int j * minUlp" using fl64_significand [OF x(2)] fx by metis
      have "\<bar>d - x\<bar> * 18014398509481984 < 2 * (4503599627370496 * minUlp)" unfolding n using d' less by (rule less_trans)
      then have "\<bar>d - x\<bar> < minUlp / 2" by simp
      then show ?thesis using d0 False by (intro subnormal_near [OF j]) simp_all
    qed
  next
    case False
    then obtain j where j: "x = of_int j * minUlp" using roundFloat64_subnormal [OF x(2)] x(1) by (metis not_le)
    have "\<bar>d - x\<bar> * 18014398509481984 < 4503599627370496 * minUlp" unfolding n using d' False by (meson less_trans not_le)
    then have close: "\<bar>d - x\<bar> < minUlp / 4" by simp
    have "of_int j * minUlp < of_int (2 ^ 52) * minUlp" using False j minUlp_normal by simp
    then have "j < 2 ^ 52" by (simp only: mult_less_cancel_right_pos minUlp_pos of_int_less_iff)
    then have "of_int j \<le> (of_int (2 ^ 52 - 1) :: rat)" by (simp only: of_int_le_iff zle_diff1_eq)
    then have "of_int j * minUlp \<le> of_int (2 ^ 52 - 1) * minUlp" by (intro mult_right_mono less_imp_le [OF minUlp_pos])
    moreover have "of_int (2 ^ 52 - 1) * minUlp = minNormal - minUlp" using n by simp
    ultimately have "x \<le> minNormal - minUlp" using j by (simp only:)
    then have "d < minNormal" using close minUlp_pos by linarith
    moreover have "\<bar>d - x\<bar> < minUlp / 2" using close minUlp_pos by linarith
    ultimately show ?thesis using d0 by (intro subnormal_near [OF j])
  qed
qed

section \<open>Decimal exponents\<close>

lemma p10_pos [simp]: "0 < (10::rat) powi k"
  by simp

lemma floorlog_rat:
  assumes "0 < n"
  shows "(10::rat) powi (int (floorlog 10 (nat n)) - 1) \<le> of_int n" and "of_int n < (10::rat) powi (int (floorlog 10 (nat n)))"
proof -
  let ?f = "floorlog 10 (nat n)"
  have "10 ^ (?f - 1) \<le> nat n" "nat n < 10 ^ ?f" using floorlog_bounds [of "nat n" 10] assms by auto
  then have "(of_nat (10 ^ (?f - 1)) :: rat) \<le> of_nat (nat n)" "(of_nat (nat n) :: rat) < of_nat (10 ^ ?f)"
    by (simp_all only: of_nat_le_iff of_nat_less_iff)
  moreover have "1 \<le> ?f" using assms floorlog_eq_zero_iff [of 10 "nat n"] by (cases ?f) auto
  ultimately show "(10::rat) powi (int ?f - 1) \<le> of_int n" and "of_int n < (10::rat) powi (int ?f)"
    using assms by (simp_all add: power_int_def nat_diff_distrib)
qed

lemma decimalExp_bounds:
  assumes x: "0 < x"
  shows "10 powi (decimalExp x - 1) \<le> x" and "x < 10 powi (decimalExp x)"
proof -
  obtain n d where q: "quotient_of x = (n, d)" by (cases "quotient_of x")
  then have d: "0 < d" and xnd: "x = of_int n / of_int d"
    using quotient_of_denom_pos quotient_of_div by auto
  have n: "0 < n" using x d xnd by (simp add: zero_less_divide_iff)
  let ?a = "int (floorlog 10 (nat n))" and ?b = "int (floorlog 10 (nat d))"
  have "10 powi (?a - 1) / 10 powi ?b \<le> x"
    unfolding xnd using floorlog_rat(1) [OF n] floorlog_rat(2) [OF d] d n by (intro frac_le) auto
  then have lo: "10 powi (?a - ?b - 1) \<le> x" by (simp add: power_int_diff power_int_add)
  have "x < 10 powi ?a / 10 powi (?b - 1)"
    unfolding xnd using floorlog_rat(2) [OF n] floorlog_rat(1) [OF d] d n by (intro frac_less) auto
  then have hi: "x < 10 powi (?a - ?b + 1)" by (simp add: power_int_diff power_int_add)
  show "10 powi (decimalExp x - 1) \<le> x" "x < 10 powi (decimalExp x)"
    using lo hi by (auto simp: decimalExp_def q Let_def)
qed

lemma seventeen_digits:
  assumes x: "roundFloat64 x = x" "0 < x"
  shows "roundFloat64 (of_int (roundHalfEven (scaled 17 x)) * 10 powi (decimalExp x - 17)) = x"
proof (rule roundFloat64_near [OF x])
  let ?e = "decimalExp x" and ?y = "scaled 17 x"
  let ?p = "10 powi (?e - 17) :: rat" and ?r = "of_int (roundHalfEven ?y) :: rat"
  have y: "?y * ?p = x" by (simp add: scaled_def power_int_diff)
  have "?r * ?p - x = (?r - ?y) * ?p" using y by (simp add: left_diff_distrib)
  then have "\<bar>?r * ?p - x\<bar> = \<bar>?r - ?y\<bar> * ?p" by (simp add: abs_mult)
  also have "\<dots> \<le> 1 / 2 * ?p" using roundHalfEven_dist by (intro mult_right_mono) auto
  finally have "\<bar>?r * ?p - x\<bar> * 2 ^ 54 \<le> 1 / 2 * ?p * 2 ^ 54" by (rule mult_right_mono) simp
  moreover have "1 / 2 * ?p * 2 ^ 54 < 10 powi (?e - 1)"
  proof -
    have "10 powi (?e - 1) = 10000000000000000 * ?p" by (simp add: power_int_diff)
    then show ?thesis using p10_pos [of "?e - 17"] by (simp del: p10_pos)
  qed
  ultimately show "\<bar>?r * ?p - x\<bar> * 2 ^ 54 < x" using decimalExp_bounds(1) [OF x(2)] by (meson le_less_trans less_le_trans)
qed

lemma shortestDecimal_reads:
  assumes "roundFloat64 x = x" "0 < x" "shortestDecimal x = (m, q)"
  shows "roundFloat64 (of_int m * 10 powi q) = x" and "0 < m"
proof -
  have "shortestFrom ns x = (m, q) \<Longrightarrow> roundFloat64 (of_int m * 10 powi q) = x" for ns
    using seventeen_digits [OF assms(1,2)]
    by (induction ns) (auto simp: decimalWith_def readsAs_def Let_def split: if_splits option.splits)
  then show r: "roundFloat64 (of_int m * 10 powi q) = x" using assms(3) by (simp add: shortestDecimal_def)
  show "0 < m"
  proof (rule ccontr)
    assume "\<not> 0 < m"
    then have "of_int m * (10::rat) powi q \<le> 0" by (simp add: mult_nonpos_nonneg)
    with r assms(2) show False by (simp add: roundFloat64_def)
  qed
qed

section \<open>Digits\<close>

definition digits :: "string \<Rightarrow> bool" where
  "digits s \<longleftrightarrow> list_all isDigit s"

lemma digits_simps [simp]: "digits []" "digits (c # s) \<longleftrightarrow> isDigit c \<and> digits s" "digits (s @ t) \<longleftrightarrow> digits s \<and> digits t"
  by (simp_all add: digits_def)

lemma digits_parts: "digits s \<Longrightarrow> digits (take n s)" "digits s \<Longrightarrow> digits (drop n s)"
  by (auto simp: digits_def list_all_iff dest: in_set_takeD in_set_dropD)

lemma digits_zeros [simp]: "digits (replicate n (CHR ''0''))"
  by (simp add: digits_def list_all_iff isDigit_def)

lemma digitsVal_Nil [simp]: "digitsVal [] = 0"
  by (simp add: digitsVal_def)

lemma digitsVal_append: "digitsVal (s @ t) = digitsVal s * 10 ^ length t + digitsVal t"
proof (induction t rule: rev_induct)
  case (snoc c t)
  then show ?case by (simp add: digitsVal_def flip: append_assoc)
qed (simp add: digitsVal_def)

lemma digitsVal_zeros [simp]: "digitsVal (replicate n (CHR ''0'')) = 0"
proof (induction n)
  case (Suc n)
  have "digitsVal (replicate n (CHR ''0'') @ [CHR ''0'']) = 0"
    by (simp only: digitsVal_append Suc) (simp add: digitsVal_def digitVal_def)
  then show ?case by (simp add: replicate_append_same)
qed simp

lemma showNat_digits: "digits (showNat n) \<and> digitsVal (showNat n) = n \<and> showNat n \<noteq> []"
proof (induction n rule: showNat.induct)
  case (1 n)
  show ?case
  proof (cases "n < 10")
    case True
    then show ?thesis using digit_char [of n] by (simp add: showNat.simps [of n] digitsVal_def)
  next
    case False
    then show ?thesis
      using 1 digit_char [of "n mod 10"]
      by (simp add: showNat.simps [of n] digitsVal_append digitsVal_def [of "[char_of (48 + n mod 10)]"])
  qed
qed

lemma showNat_hd: "0 < n \<Longrightarrow> hd (showNat n) \<noteq> CHR ''0''"
proof (induction n rule: showNat.induct)
  case (1 n)
  show ?case
  proof (cases "n < 10")
    case True
    then show ?thesis using 1(2) digit_char [of n] by (auto simp: showNat.simps [of n] digitVal_def)
  next
    case False
    then show ?thesis using 1(1) showNat_digits [of "n div 10"] by (simp add: showNat.simps [of n])
  qed
qed

lemma stripZeros_snoc [simp]: "stripZeros (s @ [c]) = (if c = CHR ''0'' then stripZeros s else s @ [c])"
  by (simp add: stripZeros_def)

lemma stripZeros_split: "\<exists>n. s = stripZeros s @ replicate n (CHR ''0'')"
proof (induction s rule: rev_induct)
  case (snoc c s)
  then obtain n where n: "s = stripZeros s @ replicate n (CHR ''0'')" by blast
  show ?case
  proof (cases "c = CHR ''0''")
    case True
    have "s @ [c] = stripZeros s @ replicate (Suc n) (CHR ''0'')"
      using n True by (metis append_assoc replicate_Suc replicate_append_same)
    then show ?thesis using True by (metis stripZeros_snoc)
  qed (intro exI [of _ 0], simp)
qed (simp add: stripZeros_def)

lemma stripped_decimal:
  assumes "0 < m"
  obtains ds k where "stripZeros (showNat m) = ds" "showNat m = ds @ replicate k (CHR ''0'')" "digits ds" "ds \<noteq> []"
    "hd ds \<noteq> CHR ''0''" "digitsVal ds * 10 ^ k = m"
proof -
  obtain k where k: "showNat m = stripZeros (showNat m) @ replicate k (CHR ''0'')" using stripZeros_split by blast
  have v: "digits (showNat m)" "digitsVal (showNat m) = m" using showNat_digits by auto
  have val: "digitsVal (stripZeros (showNat m)) * 10 ^ k = m"
    using v(2) k digitsVal_append [of "stripZeros (showNat m)" "replicate k (CHR ''0'')"] by simp
  with assms have ne: "stripZeros (showNat m) \<noteq> []" by auto
  have "digits (stripZeros (showNat m))" using v(1) k by (metis digits_simps(3))
  moreover have "hd (stripZeros (showNat m)) \<noteq> CHR ''0''" using showNat_hd [OF assms] k ne by (metis hd_append2)
  ultimately show thesis using that k val ne by blast
qed

section \<open>Layout\<close>

lemma isDigit_numChar: "isDigit c \<Longrightarrow> numChar c"
  by (simp add: numChar_def)

lemma digit_not: "isDigit c \<Longrightarrow> c \<notin> set ''+-.eE''"
  by (auto simp: isDigit_def)

lemma takeWhile_digits: "digits s \<Longrightarrow> t = [] \<or> \<not> isDigit (hd t) \<Longrightarrow>
    takeWhile isDigit (s @ t) = s \<and> dropWhile isDigit (s @ t) = t"
  by (cases t) (auto simp: digits_def list_all_iff takeWhile_append2 dropWhile_append2)

lemma splitFirst_at:
  assumes "\<forall>c \<in> set s. c \<notin> set cs" and "t = [] \<or> hd t \<in> set cs"
  shows "splitFirst cs (s @ t) = (s, drop 1 t)"
proof -
  have "takeWhile (\<lambda>c. c \<notin> set cs) (s @ t) = s @ takeWhile (\<lambda>c. c \<notin> set cs) t"
    "dropWhile (\<lambda>c. c \<notin> set cs) (s @ t) = dropWhile (\<lambda>c. c \<notin> set cs) t"
    using assms(1) by (simp_all add: dropWhile_append2)
  with assms(2) show ?thesis unfolding splitFirst_def by (cases t) (simp_all only:, simp_all)
qed

text \<open>A literal from its integer part, its fraction and its exponent part, each of which may be missing but the first.\<close>

definition fractionPart :: "string \<Rightarrow> string" where
  "fractionPart fp = (if fp = [] then [] else ''.'' @ fp)"

definition exponentPart :: "int option \<Rightarrow> string" where
  "exponentPart e = (case e of None \<Rightarrow> [] | Some k \<Rightarrow> ''e'' @ (if k < 0 then ''-'' else ''+'') @ showNat (nat \<bar>k\<bar>))"

definition literal :: "string \<Rightarrow> string \<Rightarrow> int option \<Rightarrow> string" where
  "literal ip fp e = ip @ fractionPart fp @ exponentPart e"

definition exponentOf :: "int option \<Rightarrow> int" where
  "exponentOf e = (case e of None \<Rightarrow> 0 | Some k \<Rightarrow> k)"

lemma digits_avoid: "digits s \<Longrightarrow> set cs \<subseteq> set ''+-.eE'' \<Longrightarrow> \<forall>c \<in> set s. c \<notin> set cs"
  using digit_not by (fastforce simp: digits_def list_all_iff)

lemma exponentVal_part: "exponentVal (drop 1 (exponentPart e)) = exponentOf e"
  using showNat_digits by (auto simp: exponentVal_def exponentPart_def exponentOf_def digitsVal_def split: option.split)

lemma literal_sign: "digits ip \<Longrightarrow> ip \<noteq> [] \<Longrightarrow> \<not> hasPrefix (literal ip fp e) ''-''"
  using digit_not [of "hd ip"] by (cases ip) (auto simp: literal_def)

lemma numberValue_literal:
  assumes "digits ip" "ip \<noteq> []" "digits fp"
  shows "numberValue (literal ip fp e) = of_nat (digitsVal (ip @ fp)) * 10 powi (exponentOf e - int (length fp))"
proof -
  have "splitFirst ''eE'' ((ip @ fractionPart fp) @ exponentPart e) = (ip @ fractionPart fp, drop 1 (exponentPart e))"
  proof (rule splitFirst_at)
    show "\<forall>c \<in> set (ip @ fractionPart fp). c \<notin> set ''eE''"
      using digits_avoid [OF assms(1), of "''eE''"] digits_avoid [OF assms(3), of "''eE''"] by (auto simp: fractionPart_def)
  qed (simp add: exponentPart_def split: option.split)
  moreover have "splitFirst ''.'' (ip @ fractionPart fp) = (ip, fp)"
    using splitFirst_at [of ip "''.''" "fractionPart fp"] digits_avoid [OF assms(1), of "''.''"]
    by (simp add: fractionPart_def split: if_splits)
  ultimately show ?thesis
    using literal_sign [OF assms(1,2), of fp e]
    by (simp add: numberValue_def trimPrefix_def literal_def exponentVal_part [simplified] Let_def)
qed

lemma numberLiteral_literal:
  assumes "digits ip" "ip \<noteq> []" "digits fp" "hd ip = CHR ''0'' \<longrightarrow> ip = ''0''"
  shows "numberLiteral (literal ip fp e)" and "numberLiteral (CHR ''-'' # literal ip fp e)"
proof -
  have ex: "validExponent (exponentPart e)"
    using showNat_digits by (auto simp: validExponent_def exponentPart_def digits_def split: option.split list.split)
  have nd: "exponentPart e = [] \<or> \<not> isDigit (hd (exponentPart e))"
    by (simp add: exponentPart_def isDigit_def split: option.split)
  have "validFraction (fractionPart fp @ exponentPart e)"
  proof (cases "fp = []")
    case True
    then show ?thesis using ex by (auto simp: validFraction_def fractionPart_def exponentPart_def split: option.split)
  next
    case False
    then show ?thesis using ex takeWhile_digits [OF assms(3) nd] by (simp add: validFraction_def fractionPart_def)
  qed
  moreover have "takeWhile isDigit (literal ip fp e) = ip" "dropWhile isDigit (literal ip fp e) = fractionPart fp @ exponentPart e"
    using takeWhile_digits [OF assms(1), of "fractionPart fp @ exponentPart e"] nd
    by (auto simp: literal_def fractionPart_def isDigit_def)
  ultimately have v: "validNumber (literal ip fp e)" "validNumber (CHR ''-'' # literal ip fp e)"
    using assms literal_sign [OF assms(1,2), of fp e] by (auto simp: validNumber_def trimPrefix_def Let_def)
  have "list_all numChar (literal ip fp e)"
    using assms showNat_digits isDigit_numChar
    by (auto simp: literal_def fractionPart_def exponentPart_def digits_def list_all_iff numChar_def split: option.split)
  moreover have "isDigit (hd (literal ip fp e))" using assms(1,2) by (cases ip) (auto simp: literal_def)
  ultimately show "numberLiteral (literal ip fp e)" "numberLiteral (CHR ''-'' # literal ip fp e)"
    using v by (auto simp: numberLiteral_def numChar_def)
qed

lemma fixedFormat_literal:
  assumes "digits ds" "ds \<noteq> []" "hd ds \<noteq> CHR ''0''"
  obtains ip fp where "fixedFormat ds dp = literal ip fp None" "digits ip" "ip \<noteq> []" "digits fp"
    "hd ip = CHR ''0'' \<longrightarrow> ip = ''0''"
    "of_nat (digitsVal (ip @ fp)) * 10 powi (- int (length fp)) = (of_nat (digitsVal ds) * 10 powi (dp - int (length ds)) :: rat)"
proof -
  consider "dp \<le> 0" | "0 < dp" "int (length ds) \<le> dp" | "0 < dp" "dp < int (length ds)" by linarith
  then show thesis
  proof cases
    case 1
    then have "digitsVal (''0'' @ replicate (nat (- dp)) (CHR ''0'') @ ds) = digitsVal ds"
      by (simp only: digitsVal_append digitsVal_zeros) (simp add: digitsVal_def digitVal_def)
    with 1 assms show thesis
      by (intro that [of "''0''" "replicate (nat (- dp)) (CHR ''0'') @ ds"])
        (simp_all add: fixedFormat_def literal_def fractionPart_def exponentPart_def isDigit_def)
  next
    case 2
    then have "of_nat (digitsVal (ds @ replicate (nat dp - length ds) (CHR ''0''))) =
        (of_nat (digitsVal ds) * 10 powi (dp - int (length ds)) :: rat)"
      by (simp add: digitsVal_append power_int_def nat_diff_distrib)
    with 2 assms show thesis
      by (intro that [of "ds @ replicate (nat dp - length ds) (CHR ''0'')" "[]"])
        (simp_all add: fixedFormat_def literal_def fractionPart_def exponentPart_def)
  next
    case 3
    then obtain n where n: "dp = int n" "0 < n" "n < length ds" by (metis nat_0_le less_imp_le nat_less_iff zero_less_nat_eq)
    then have "hd (take n ds) = hd ds" "take n ds \<noteq> []" by (auto simp: hd_take)
    with n assms show thesis
      by (intro that [of "take n ds" "drop n ds"])
        (simp_all add: fixedFormat_def literal_def fractionPart_def exponentPart_def digits_parts of_nat_diff)
  qed
qed

lemma exponentFormat_literal:
  assumes "digits ds" "ds \<noteq> []" "hd ds \<noteq> CHR ''0''"
  obtains ip fp where "exponentFormat ds dp = literal ip fp (Some (dp - 1))" "digits ip" "ip \<noteq> []" "digits fp"
    "hd ip = CHR ''0'' \<longrightarrow> ip = ''0''"
    "of_nat (digitsVal (ip @ fp)) * 10 powi (dp - 1 - int (length fp)) = (of_nat (digitsVal ds) * 10 powi (dp - int (length ds)) :: rat)"
proof -
  obtain c cs where ds: "ds = c # cs" using assms(2) by (cases ds) auto
  with assms show thesis
    by (intro that [of "[c]" cs])
      (simp_all add: exponentFormat_def literal_def fractionPart_def exponentPart_def diff_diff_eq)
qed

lemma formatPositive_literal:
  assumes "roundFloat64 x = x" "0 < x"
  obtains ip fp e where "formatPositive x = literal ip fp e" "digits ip" "ip \<noteq> []" "digits fp"
    "hd ip = CHR ''0'' \<longrightarrow> ip = ''0''" "roundFloat64 (numberValue (literal ip fp e)) = x"
proof -
  obtain m q where mq: "shortestDecimal x = (m, q)" by (cases "shortestDecimal x")
  have rd: "roundFloat64 (of_int m * 10 powi q) = x" and m: "0 < m" using shortestDecimal_reads [OF assms mq] .
  then have "0 < nat m" by simp
  then obtain ds k where ds: "stripZeros (showNat (nat m)) = ds" "showNat (nat m) = ds @ replicate k (CHR ''0'')"
    "digits ds" "ds \<noteq> []" "hd ds \<noteq> CHR ''0''" "digitsVal ds * 10 ^ k = nat m" by (rule stripped_decimal)
  let ?dp = "int (length (showNat (nat m))) + q"
  have "of_nat (digitsVal ds) * 10 powi (?dp - int (length ds)) = (of_nat (digitsVal ds * 10 ^ k) * 10 powi q :: rat)"
    by (simp add: ds(2) power_int_add add.commute)
  then have val: "of_nat (digitsVal ds) * 10 powi (?dp - int (length ds)) = (of_int m * 10 powi q :: rat)"
    unfolding ds(6) using m by simp
  show thesis
  proof (cases "x < fl64 (1 / 1000000) \<or> x \<ge> 10 ^ 21")
    case True
    then have "formatPositive x = exponentFormat ds ?dp" using mq ds(1) by (simp add: formatPositive_def Let_def)
    moreover obtain ip fp where "exponentFormat ds ?dp = literal ip fp (Some (?dp - 1))" "digits ip" "ip \<noteq> []" "digits fp"
      "hd ip = CHR ''0'' \<longrightarrow> ip = ''0''"
      "of_nat (digitsVal (ip @ fp)) * 10 powi (?dp - 1 - int (length fp)) = (of_nat (digitsVal ds) * 10 powi (?dp - int (length ds)) :: rat)"
      by (rule exponentFormat_literal [OF ds(3-5), where dp = ?dp])
    ultimately show thesis
      using val rd by (intro that [of ip fp "Some (?dp - 1)"]) (simp_all add: numberValue_literal exponentOf_def)
  next
    case False
    then have "formatPositive x = fixedFormat ds ?dp" using mq ds(1) by (simp add: formatPositive_def Let_def)
    moreover obtain ip fp where "fixedFormat ds ?dp = literal ip fp None" "digits ip" "ip \<noteq> []" "digits fp"
      "hd ip = CHR ''0'' \<longrightarrow> ip = ''0''"
      "of_nat (digitsVal (ip @ fp)) * 10 powi (- int (length fp)) = (of_nat (digitsVal ds) * 10 powi (?dp - int (length ds)) :: rat)"
      by (rule fixedFormat_literal [OF ds(3-5), where dp = ?dp])
    ultimately show thesis
      using val rd by (intro that [of ip fp None]) (simp_all add: numberValue_literal exponentOf_def)
  qed
qed

section \<open>Numbers survive\<close>

text \<open>The finite values of \<^verbatim>\<open>float64\<close>, and reading them.\<close>

definition isFloat :: "rat \<Rightarrow> bool" where
  "isFloat x \<longleftrightarrow> roundFloat64 \<bar>x\<bar> = \<bar>x\<bar> \<and> \<bar>x\<bar> < 2 ^ 1024"

lemma jsonNumber_value:
  "toFloat (numberValue lit) = x \<Longrightarrow> \<bar>x\<bar> < 2 ^ 1024 \<Longrightarrow> x \<noteq> 0 \<or> \<not> hasPrefix lit ''-'' \<Longrightarrow> jsonNumber lit = Some (ANum x)"
  unfolding jsonNumber_def Let_def not_le [symmetric] by auto

lemma numberValue_minus: "digits ip \<Longrightarrow> ip \<noteq> [] \<Longrightarrow> numberValue (CHR ''-'' # literal ip fp e) = - numberValue (literal ip fp e)"
  using literal_sign [of ip fp e] by (simp add: numberValue_def trimPrefix_def Let_def split: prod.split)

lemma numberValue_nonneg: "digits ip \<Longrightarrow> ip \<noteq> [] \<Longrightarrow> digits fp \<Longrightarrow> 0 \<le> numberValue (literal ip fp e)"
  by (simp add: numberValue_literal)

lemma toFloat_minus: "toFloat (- x) = - toFloat x"
  by (simp add: toFloat_def roundFloat64_def)

lemma isFloat_toFloat: "\<bar>toFloat x\<bar> < 2 ^ 1024 \<Longrightarrow> isFloat (toFloat x)"
  using roundFloat64_nonneg [of x] roundFloat64_nonneg [of "- x"]
  by (simp add: isFloat_def toFloat_def roundFloat64_idem split: if_splits)

lemma zero_literal: "''0'' = literal ''0'' [] None"
  by (simp add: literal_def fractionPart_def exponentPart_def)

text \<open>The literal of a float, in the form the lemmas above speak of.\<close>

lemma formatNumber_literal:
  assumes "isFloat x"
  shows "numberLiteral (formatNumber x) \<and> jsonNumber (formatNumber x) = Some (ANum x)"
proof -
  have pos: "numberLiteral (formatPositive y) \<and> numberLiteral (CHR ''-'' # formatPositive y) \<and>
      toFloat (numberValue (formatPositive y)) = y \<and> toFloat (numberValue (CHR ''-'' # formatPositive y)) = - y"
    if y: "roundFloat64 y = y" "0 < y" for y
  proof -
    obtain ip fp e where l: "formatPositive y = literal ip fp e" "digits ip" "ip \<noteq> []" "digits fp"
      "hd ip = CHR ''0'' \<longrightarrow> ip = ''0''" "roundFloat64 (numberValue (literal ip fp e)) = y"
      by (rule formatPositive_literal [OF y])
    then show ?thesis
      using numberLiteral_literal [OF l(2-4)] numberValue_nonneg [OF l(2-4), of e]
      by (simp add: numberValue_minus toFloat_minus) (simp add: toFloat_def)
  qed
  consider "x = 0" | "0 < x" | "x < 0" by linarith
  then show ?thesis
  proof cases
    case 1
    have "numberLiteral ''0''" "numberValue ''0'' = 0"
      using numberLiteral_literal(1) [of "''0''" "[]" None] numberValue_literal [of "''0''" "[]" None]
      by (simp_all add: zero_literal [symmetric] isDigit_def digitsVal_def digitVal_def)
    then show ?thesis using 1 jsonNumber_value [of "''0''" 0] by (simp add: formatNumber_def toFloat_def roundFloat64_def)
  next
    case 2
    then show ?thesis
      using pos [of x] jsonNumber_value [of "formatPositive x" x] assms by (simp add: formatNumber_def isFloat_def)
  next
    case 3
    then show ?thesis
      using pos [of "- x"] jsonNumber_value [of "CHR ''-'' # formatPositive (- x)" x] assms by (simp add: formatNumber_def isFloat_def)
  qed
qed

lemma roundFloat64_int:
  assumes "0 < i" "i \<le> 2 ^ 64"
  shows "0 < roundFloat64 (of_int i) \<and> roundFloat64 (of_int i) \<le> 2 ^ 64"
proof -
  have "minNormal \<le> 1" using p2_mono [of "-1022" 0] by (simp only: minNormal_def) simp
  moreover have i: "of_int 1 \<le> (of_int i :: rat)" using assms(1) by (simp only: of_int_le_iff)
  ultimately have "roundFloat64 (of_int i) = fl64 (of_int i)" by (intro roundFloat64_normal) simp
  moreover have "fl64 1 \<le> fl64 (of_int i)" using i by (intro fl64_mono) simp
  moreover have "of_int i \<le> (of_int (2 ^ 64) :: rat)" using assms(2) by (simp only: of_int_le_iff)
  then have "fl64 (of_int i) \<le> fl64 (of_int (2 ^ 64))" by (rule fl64_mono)
  moreover have "fl64 (of_int (2 ^ 64)) = of_int (2 ^ 64)" using fl64_exact [of 1 64] by simp
  ultimately show ?thesis by (simp add: f64.rnd_1)
qed

lemma negZero_literal: "numberLiteral ''-0'' \<and> jsonNumber ''-0'' = Some ANegZero"
proof -
  have "numberLiteral (CHR ''-'' # ''0'')" "numberValue (CHR ''-'' # ''0'') = 0"
    using numberLiteral_literal(2) [of "''0''" "[]" None] numberValue_minus [of "''0''" "[]" None]
      numberValue_literal [of "''0''" "[]" None]
    by (simp_all add: zero_literal [symmetric] isDigit_def digitsVal_def digitVal_def)
  then show ?thesis by (simp add: jsonNumber_def toFloat_def roundFloat64_def)
qed

lemma showInt_literal:
  assumes "\<bar>i\<bar> < 2 ^ 64"
  shows "numberLiteral (showInt i) \<and> jsonNumber (showInt i) = Some (ANum (toFloat (of_int i)))"
proof -
  have l: "showNat n = literal (showNat n) [] None" for n
    by (simp add: literal_def fractionPart_def exponentPart_def)
  have h: "hd (showNat n) = CHR ''0'' \<Longrightarrow> showNat n = ''0''" for n
    using showNat_hd [of n] by (cases "n = 0") (simp_all add: showNat.simps)
  have v: "numberValue (showNat n) = of_nat n" for n
    using numberValue_literal [of "showNat n" "[]" None] showNat_digits [of n] l [of n]
    by (simp add: exponentOf_def)
  have m: "numberValue (CHR ''-'' # showNat n) = - of_nat n" for n
    using numberValue_minus [of "showNat n" "[]" None] showNat_digits [of n] l [of n] v [of n] by simp
  have n: "numberLiteral (showNat n)" "numberLiteral (CHR ''-'' # showNat n)" for n
    using numberLiteral_literal [of "showNat n" "[]" None] showNat_digits [of n] h [of n] l [of n] by simp_all
  have r0: "roundFloat64 0 = 0" by (simp add: roundFloat64_def)
  have b: "\<bar>toFloat (of_int i)\<bar> \<le> 2 ^ 64" and z: "i < 0 \<Longrightarrow> toFloat (of_int i) \<noteq> 0"
    using roundFloat64_int [of i] roundFloat64_int [of "- i"] assms
    by (cases "i = 0"; cases "i < 0"; simp add: toFloat_def r0)+
  from b have c: "\<bar>toFloat (of_int i)\<bar> < 2 ^ 1024" by (rule le_less_trans) simp
  show ?thesis
  proof (cases "i < 0")
    case True
    then have "showInt i = CHR ''-'' # showNat (nat (- i))" by (simp add: showInt_def)
    moreover have "numberValue (CHR ''-'' # showNat (nat (- i))) = of_int i" using True m [of "nat (- i)"] by simp
    ultimately show ?thesis using n(2) jsonNumber_value [OF _ c disjI1 [OF z [OF True]], of "showInt i"] by simp
  next
    case False
    then have "showInt i = showNat (nat i)" by (simp add: showInt_def)
    moreover have "numberValue (showNat (nat i)) = of_int i" using False v [of "nat i"] by simp
    moreover have "\<not> hasPrefix (showNat (nat i)) ''-''"
      using literal_sign [of "showNat (nat i)" "[]" None] showNat_digits [of "nat i"] l [of "nat i"] by simp
    ultimately show ?thesis using n(1) jsonNumber_value [OF _ c, of "showInt i"] by simp
  qed
qed

section \<open>Values survive\<close>

text \<open>
  Values that JSON can express: strings in UTF-8, numbers that are floats (or integers of 64 bits),
  maps with distinct keys, no unsupported parts.
\<close>

fun wfAny :: "any \<Rightarrow> bool" and wfAnys :: "any list \<Rightarrow> bool" and wfFields :: "(string \<times> any) list \<Rightarrow> bool" where
  "wfAny ANil = True"
| "wfAny (ABool b) = True"
| "wfAny (ANum x) = isFloat x"
| "wfAny ANegZero = True"
| "wfAny (AInt i) = (\<bar>i\<bar> < 2 ^ 64)"
| "wfAny (AStr s) = validUTF8 s"
| "wfAny (AArr xs) = wfAnys xs"
| "wfAny (AObj kvs) = (distinct (map fst kvs) \<and> wfFields kvs)"
| "wfAny AUnsupported = False"
| "wfAnys [] = True"
| "wfAnys (x # xs) = (wfAny x \<and> wfAnys xs)"
| "wfFields [] = True"
| "wfFields ((k, x) # kvs) = (validUTF8 k \<and> wfAny x \<and> wfFields kvs)"

text \<open>What a value becomes on its way through JSON: keys in order, integers as floats.\<close>

fun canonical :: "any \<Rightarrow> any" and canonicals :: "any list \<Rightarrow> any list"
  and canonicalFields :: "(string \<times> any) list \<Rightarrow> (string \<times> any) list" where
  "canonical (AInt i) = ANum (toFloat (of_int i))"
| "canonical (AArr xs) = AArr (canonicals xs)"
| "canonical (AObj kvs) = AObj (sort_key fst (canonicalFields kvs))"
| "canonical v = v"
| "canonicals [] = []"
| "canonicals (x # xs) = canonical x # canonicals xs"
| "canonicalFields [] = []"
| "canonicalFields ((k, x) # kvs) = (k, canonical x) # canonicalFields kvs"

text \<open>Decoding an object key by key is decoding the values, when the keys are distinct.\<close>

fun toAnys :: "(string \<times> json) list \<Rightarrow> (string \<times> any) list option" where
  "toAnys [] = Some []"
| "toAnys ((k, x) # kvs) = (case toAny x of None \<Rightarrow> None | Some v \<Rightarrow> map_option ((#) (k, v)) (toAnys kvs))"

lemma toAnys_keys: "toAnys kvs = Some vs \<Longrightarrow> map fst vs = map fst kvs"
  by (induction kvs arbitrary: vs rule: toAnys.induct) (auto split: option.splits)

lemma toAnyObj_toAnys:
  "distinct (map fst kvs) \<Longrightarrow> fst ` set kvs \<inter> fst ` set m = {} \<Longrightarrow> toAnyObj kvs m = map_option (\<lambda>vs. m @ vs) (toAnys kvs)"
proof (induction kvs arbitrary: m rule: toAnys.induct)
  case (2 k x kvs)
  show ?case
  proof (cases "toAny x")
    case (Some v)
    have "AList.update k v m = m @ [(k, v)]" using "2.prems" by (intro update_fresh) auto
    moreover have "toAnyObj kvs (m @ [(k, v)]) = map_option (\<lambda>vs. (m @ [(k, v)]) @ vs) (toAnys kvs)"
      using "2.prems" by (intro "2.IH" [OF Some]) auto
    ultimately show ?thesis using Some by (simp add: option.map_comp comp_def)
  qed simp
qed (simp add: option.map_ident)

lemma toAnys_all: "toAnys kvs = Some vs \<longleftrightarrow> list_all2 (\<lambda>(k, x) (k', v). k' = k \<and> toAny x = Some v) kvs vs"
proof (induction kvs arbitrary: vs rule: toAnys.induct)
  case (2 k x kvs)
  then show ?case by (cases vs) (auto split: option.splits)
qed auto

text \<open>Sorting by key commutes with decoding the values.\<close>

lemma insort_all2:
  "list_all2 R xs ys \<Longrightarrow> R x y \<Longrightarrow> (\<And>a b. R a b \<Longrightarrow> fst b = fst a) \<Longrightarrow>
   list_all2 R (insort_key fst x xs) (insort_key fst y ys)"
  by (induction rule: list_all2_induct) auto

lemma sort_all2:
  "list_all2 R xs ys \<Longrightarrow> (\<And>a b. R a b \<Longrightarrow> fst b = fst a) \<Longrightarrow> list_all2 R (sort_key fst xs) (sort_key fst ys)"
  by (induction rule: list_all2_induct) (auto intro: insort_all2)

lemma toAnys_sort: "toAnys kvs = Some vs \<Longrightarrow> toAnys (sort_key fst kvs) = Some (sort_key fst vs)"
  unfolding toAnys_all by (rule sort_all2) auto

lemma tree_keys: "treeObj kvs = Some js \<Longrightarrow> map fst js = map fst kvs"
  by (induction kvs arbitrary: js) (auto split: option.splits)

lemma tree_toAny:
  "wfAny v \<Longrightarrow> \<exists>j. tree v = Some j \<and> wfJson j \<and> toAny j = Some (canonical v)"
  "wfAnys vs \<Longrightarrow> \<exists>js. treeList vs = Some js \<and> wfJsons js \<and> toAnyList js = Some (canonicals vs)"
  "wfFields kvs \<Longrightarrow> \<exists>js. treeObj kvs = Some js \<and> wfMembers js \<and> toAnys js = Some (canonicalFields kvs)"
proof (induction v and vs and kvs rule: tree_treeList_treeObj.induct)
  case (8 kvs)
  then obtain js where js: "treeObj kvs = Some js" "wfMembers js" "toAnys js = Some (canonicalFields kvs)" by auto
  have "distinct (map fst js)" using 8 tree_keys [OF js(1)] by simp
  then have "distinct (map fst (sort_key fst js))" by (simp add: distinct_map)
  then have "toAnyObj (sort_key fst js) [] = map_option (\<lambda>vs. [] @ vs) (toAnys (sort_key fst js))"
    by (intro toAnyObj_toAnys) auto
  with js toAnys_sort [OF js(3)] show ?case by (simp add: wfMembers_iff list_all_iff)
qed (auto simp: formatNumber_literal showInt_literal negZero_literal)

section \<open>Round trip\<close>

fun nesting :: "any \<Rightarrow> nat" and nestings :: "any list \<Rightarrow> nat" and nestingFields :: "(string \<times> any) list \<Rightarrow> nat" where
  "nesting (AArr xs) = Suc (nestings xs)"
| "nesting (AObj kvs) = Suc (nestingFields kvs)"
| "nesting v = 0"
| "nestings [] = 0"
| "nestings (x # xs) = max (nesting x) (nestings xs)"
| "nestingFields [] = 0"
| "nestingFields ((k, x) # kvs) = max (nesting x) (nestingFields kvs)"

lemma depthOfMembers_sort: "depthOfMembers (sort_key fst kvs) = depthOfMembers kvs"
proof -
  have "depthOfMembers (sort_key fst kvs) \<le> n \<longleftrightarrow> depthOfMembers kvs \<le> n" for n
    by (simp add: depthOfMembers_le)
  then show ?thesis by (metis order_antisym order_refl)
qed

lemma tree_depth:
  "tree v = Some j \<Longrightarrow> depthOf j = nesting v"
  "treeList vs = Some js \<Longrightarrow> depthOfs js = nestings vs"
  "treeObj kvs = Some ms \<Longrightarrow> depthOfMembers ms = nestingFields kvs"
  by (induction v and vs and kvs arbitrary: j and js and ms rule: tree_treeList_treeObj.induct)
     (auto simp: depthOfMembers_sort split: option.splits)

lemma marshal_parse:
  assumes "wfAny v" and "nesting v \<le> maxNestingDepth"
  shows "\<exists>s j. marshal v = Some s \<and> parseJSON s = Some j \<and> toAny j = Some (canonical v)"
proof -
  obtain j where j: "tree v = Some j" "wfJson j" "toAny j = Some (canonical v)" using tree_toAny(1) [OF assms(1)] by blast
  have "parseJSON (render j) = Some j"
    using assms(2) tree_depth(1) [OF j(1)] by (intro parse_render [OF j(2)]) simp
  with j show ?thesis by (simp add: marshal_def)
qed

text \<open>What the decoder builds is always well formed.\<close>

lemma jsonNumber_wf: "jsonNumber lit = Some v \<Longrightarrow> wfAny v"
  by (simp only: jsonNumber_def Let_def split: if_splits) (auto simp only: wfAny.simps not_le isFloat_toFloat)

lemma wfFields_iff: "wfFields kvs \<longleftrightarrow> (\<forall>kv \<in> set kvs. validUTF8 (fst kv) \<and> wfAny (snd kv))"
  by (induction kvs) auto

lemma wfFields_update: "wfFields m \<Longrightarrow> validUTF8 k \<Longrightarrow> wfAny v \<Longrightarrow> wfFields (AList.update k v m)"
  by (induction m) auto

lemma wfFields_delete: "wfFields m \<Longrightarrow> wfFields (AList.delete k m)"
  by (induction m) auto

lemma toAny_wf:
  "toAny j = Some v \<Longrightarrow> wfJson j \<Longrightarrow> wfAny v"
  "toAnyList js = Some vs \<Longrightarrow> wfJsons js \<Longrightarrow> wfAnys vs"
  "toAnyObj kvs m = Some m' \<Longrightarrow> wfMembers kvs \<Longrightarrow> wfFields m \<Longrightarrow> distinct (map fst m) \<Longrightarrow>
     wfFields m' \<and> distinct (map fst m')"
proof (induction j and js and kvs m arbitrary: v and vs and m' rule: toAny_toAnyList_toAnyObj.induct)
  case (10 k x kvs m)
  then obtain v where v: "toAny x = Some v" "toAnyObj kvs (AList.update k v m) = Some m'" by (auto split: option.splits)
  then show ?case
    using 10 by (intro "10.IH"(2) [OF v]) (auto intro: wfFields_update distinct_update)
qed (auto dest: jsonNumber_wf split: option.splits)

lemma validUTF8_append:
  assumes "validUTF8 s"
  shows "toValid (s @ t) = s @ toValid t"
proof -
  have len: "length u \<le> length (toValid u)" for u
    by (induction u rule: toValid.induct) (auto simp: toValid.simps(2) replacement_def)
  show ?thesis
    using assms unfolding validUTF8_def
  proof (induction s rule: toValid.induct)
    case (2 c s)
    let ?n = "runeLen (c # s)"
    have "?n \<noteq> 0"
    proof
      assume "?n = 0"
      then have "replacement @ toValid s = c # s" using "2.prems" by (simp add: toValid.simps(2))
      then have "3 + length (toValid s) = Suc (length s)" by (metis length_Cons length_append replacement_def numeral_3_eq_3 list.size(3))
      with len [of s] show False by simp
    qed
    then have "take ?n (c # s) @ toValid (drop ?n (c # s)) = take ?n (c # s) @ drop ?n (c # s)"
      using "2.prems" by (simp add: toValid.simps(2))
    then have "toValid (drop ?n (c # s)) = drop ?n (c # s)" by (simp only: same_append_eq)
    then have IH: "toValid (drop ?n (c # s) @ t) = drop ?n (c # s) @ toValid t" using "2.IH"(2) \<open>?n \<noteq> 0\<close> by simp
    have "toValid ((c # s) @ t) = toValid (take ?n (c # s) @ (drop ?n (c # s) @ t))" by (simp flip: append_assoc)
    also have "\<dots> = take ?n (c # s) @ toValid (drop ?n (c # s) @ t)" using \<open>?n \<noteq> 0\<close> by (intro toValid_take_rune) simp
    finally show ?case unfolding IH by (simp flip: append_assoc)
  qed simp
qed

lemma ascii_valid: "list_all (\<lambda>c. code c < 0x80) s \<Longrightarrow> validUTF8 s"
  unfolding validUTF8_def by (induction s) (auto simp: toValid_ascii)

text \<open>Bytes that a literal shows as they are.\<close>

definition plainByte :: "char \<Rightarrow> bool" where
  "plainByte c \<longleftrightarrow> 0x20 \<le> code c \<and> code c < 0x80 \<and> c \<noteq> CHR 0x22 \<and> c \<noteq> CHR 0x5C \<and> c \<notin> set ''<>&''"

lemma quoteBody_plain: "list_all plainByte s \<Longrightarrow> quoteBody s = s"
proof (induction s)
  case (Cons c s)
  then have p: "plainByte c" "quoteBody s = s" by (simp_all only: list.pred_inject)
  then have c: "code c < 0x80" "\<not> code c < 0x20" "c \<noteq> CHR 0x22" "c \<noteq> CHR 0x5C" "c \<notin> set ''<>&''"
    unfolding plainByte_def not_less by blast+
  have "code (CHR 0x08) < 0x20" "code (CHR 0x0C) < 0x20" "code (CHR 0x0A) < 0x20" "code (CHR 0x0D) < 0x20" "code (CHR 0x09) < 0x20"
    by simp_all
  then have "c \<noteq> CHR 0x08" "c \<noteq> CHR 0x0C" "c \<noteq> CHR 0x0A" "c \<noteq> CHR 0x0D" "c \<noteq> CHR 0x09" using c(2) by metis+
  with c have "quoteByte c = [c]" unfolding quoteByte_def by (simp only: if_False simp_thms)
  then show ?case using p(2) c(1) by (simp only: quoteBody.simps(2) if_True append.simps)
qed (rule quoteBody.simps(1))

end
