(* ===== verification/Payload.thy ===== *)
theory Payload
  imports Config JsonNumber
begin

text \<open>
  What the gateway does to the body of a request between the client and a provider
  (\<^verbatim>\<open>gateway.go\<close>: \<^verbatim>\<open>applySystemPrompt\<close>, \<^verbatim>\<open>applyRequestOverrides\<close>, \<^verbatim>\<open>clonePayload\<close>,
  \<^verbatim>\<open>applyProviderCompatibility\<close>). A body is the decoded JSON object; a \<^verbatim>\<open>nil\<close> map, which \<^verbatim>\<open>null\<close> decodes
  to, is the empty object. \<^verbatim>\<open>applySystemPrompt\<close> writes into a message map that the decoder has just
  built and that only the payload refers to, \<^verbatim>\<open>clonePayload\<close> copies the top level and only top-level
  keys are written afterwards, so no write is seen through a second reference and the functions
  are pure.
\<close>

type_synonym payload = "any gomap"

text \<open>\<^verbatim>\<open>json.Unmarshal\<close> of a request body into a map: only an object or \<^verbatim>\<open>null\<close> fits.\<close>

definition decodePayload :: "string \<Rightarrow> payload option" where
  "decodePayload body =
     (case parseJSON body of
        Some JNull \<Rightarrow> Some []
      | Some (JObj kvs) \<Rightarrow> toAnyObj kvs []
      | _ \<Rightarrow> None)"

definition joinPrompt :: "string list \<Rightarrow> string" where
  "joinPrompt parts = joinWith [CHR 0x0A, CHR 0x0A] (filter (\<lambda>p. trimSpace p \<noteq> []) parts)"

text \<open>The text content of a system message: the messages that the loop may rewrite.\<close>

definition systemText :: "any \<Rightarrow> string option" where
  "systemText raw =
     (case raw of
        AObj message \<Rightarrow>
          if map_of message ''role'' \<noteq> Some (AStr ''system'') then None
          else (case map_of message ''content'' of Some (AStr content) \<Rightarrow> Some content | _ \<Rightarrow> None)
      | _ \<Rightarrow> None)"

definition setContent :: "string \<Rightarrow> any \<Rightarrow> any" where
  "setContent text raw = (case raw of AObj message \<Rightarrow> AObj (AList.update ''content'' (AStr text) message) | v \<Rightarrow> v)"

text \<open>The loop over the messages: \<open>None\<close> when it runs to the end.\<close>

fun promptLoop :: "string \<Rightarrow> string \<Rightarrow> any list \<Rightarrow> any list option" where
  "promptLoop pre app [] = None"
| "promptLoop pre app (raw # rest) =
     (case systemText raw of
        Some content \<Rightarrow> Some (setContent (joinPrompt [pre, content, app]) raw # rest)
      | None \<Rightarrow> map_option (\<lambda>r. raw # r) (promptLoop pre app rest))"

datatype payload_error = MessagesNotArray

definition systemMessage :: "string \<Rightarrow> any" where
  "systemMessage text = AObj [(''role'', AStr ''system''), (''content'', AStr text)]"

definition applySystemPrompt :: "payload \<Rightarrow> string \<Rightarrow> string \<Rightarrow> string \<Rightarrow> payload_error + payload" where
  "applySystemPrompt payload endpoint pre app =
     (if pre = [] \<and> app = [] then Inr payload
      else if endpoint = ''/v1/responses'' then
        let current = (case map_of payload ''instructions'' of Some (AStr s) \<Rightarrow> s | _ \<Rightarrow> [])
        in Inr (AList.update ''instructions'' (AStr (joinPrompt [pre, current, app])) payload)
      else
        (case map_of payload ''messages'' of
           Some (AArr messages) \<Rightarrow>
             (case promptLoop pre app messages of
                Some messages' \<Rightarrow> Inr (AList.update ''messages'' (AArr messages') payload)
              | None \<Rightarrow>
                  Inr (AList.update ''messages'' (AArr (systemMessage (joinPrompt [pre, [], app]) # messages)) payload))
         | _ \<Rightarrow> Inl MessagesNotArray))"

definition applyRequestOverrides :: "payload \<Rightarrow> any gomap \<Rightarrow> payload" where
  "applyRequestOverrides payload overrides = fold (\<lambda>(key, value). AList.update key value) overrides payload"

definition clonePayload :: "payload \<Rightarrow> payload" where
  "clonePayload payload = fold (\<lambda>(key, value). AList.update key value) payload []"

text \<open>
  The two identical blocks for Ollama's \<^verbatim>\<open>thinking\<close> and \<^verbatim>\<open>think\<close>: the value is translated unless the
  client set \<^verbatim>\<open>reasoning_effort\<close> itself, and the field is removed.
\<close>

definition effortOf :: "any \<Rightarrow> any option" where
  "effortOf value =
     (case value of
        ABool v \<Rightarrow> Some (AStr (if v then ''medium'' else ''none''))
      | AStr v \<Rightarrow> Some (AStr v)
      | _ \<Rightarrow> None)"

definition translateEffort :: "string \<Rightarrow> payload \<Rightarrow> payload" where
  "translateEffort field payload =
     (case map_of payload field of
        None \<Rightarrow> payload
      | Some value \<Rightarrow>
          let payload' =
            (if map_of payload ''reasoning_effort'' = None then
               (case effortOf value of Some e \<Rightarrow> AList.update ''reasoning_effort'' e payload | None \<Rightarrow> payload)
             else payload)
          in AList.delete field payload')"

definition applyProviderCompatibility :: "payload \<Rightarrow> string \<Rightarrow> string \<Rightarrow> payload" where
  "applyProviderCompatibility payload endpoint protocol =
     (let p1 = (if protocol = ''ollama'' then translateEffort ''think'' (translateEffort ''thinking'' payload) else payload)
      in if endpoint = ''/v1/responses'' then
           (case map_of p1 ''max_tokens'' of
              None \<Rightarrow> p1
            | Some value \<Rightarrow>
                AList.delete ''max_tokens''
                  (if map_of p1 ''max_output_tokens'' = None then AList.update ''max_output_tokens'' value p1 else p1))
         else p1)"

text \<open>The body of \<^verbatim>\<open>proxy\<close>'s target loop up to the encoding of the request.\<close>

definition targetPayload :: "payload \<Rightarrow> string \<Rightarrow> string \<Rightarrow> string \<Rightarrow> payload" where
  "targetPayload payload endpoint protocol model =
     applyProviderCompatibility (AList.update ''model'' (AStr model) (clonePayload payload)) endpoint protocol"

section \<open>Keys and values\<close>

lemma map_of_fold_update:
  "distinct (map fst kvs) \<Longrightarrow>
   map_of (fold (\<lambda>(k, v). AList.update k v) kvs m) k = (case map_of kvs k of Some v \<Rightarrow> Some v | None \<Rightarrow> map_of m k)"
proof (induction kvs arbitrary: m)
  case (Cons x kvs)
  obtain k' v where x: "x = (k', v)" by force
  then have "k = k' \<Longrightarrow> map_of kvs k = None" using Cons.prems by (simp add: map_of_eq_None_iff)
  with Cons x show ?case by (simp add: update_conv split: option.split)
qed simp

lemma wfMap_update [simp]: "wfMap m \<Longrightarrow> wfMap (AList.update k v m)"
  by (simp add: wfMap_def distinct_update)

lemma wfMap_delete [simp]: "wfMap m \<Longrightarrow> wfMap (AList.delete k m)"
  by (simp add: wfMap_def distinct_delete)

lemma clonePayload_id: "wfMap p \<Longrightarrow> clonePayload p = p"
  using fold_update_fresh [of p "[]" "\<lambda>k v. v"] by (simp add: clonePayload_def wfMap_def mapValues_def)

lemma map_of_translateEffort:
  "map_of (translateEffort field p) k =
     (if k = field then None
      else if k = ''reasoning_effort'' then
        (case map_of p k of
           Some v \<Rightarrow> Some v
         | None \<Rightarrow> (case map_of p field of None \<Rightarrow> None | Some v \<Rightarrow> effortOf v))
      else map_of p k)"
  by (auto simp: translateEffort_def Let_def update_conv delete_conv split: option.split)

definition orElse :: "'a option \<Rightarrow> 'a option \<Rightarrow> 'a option" where
  "orElse a b = (case a of None \<Rightarrow> b | Some x \<Rightarrow> Some x)"

lemma orElse_simps [simp]: "orElse None b = b" "orElse (Some x) b = Some x" "orElse a None = a"
  by (simp_all add: orElse_def split: option.split)

text \<open>
  Operator overrides win over the client's fields, every other field of the client
  passes, and for a model that validation accepts the overrides cannot replace the structural
  fields \<^verbatim>\<open>model\<close>, \<^verbatim>\<open>messages\<close>, \<^verbatim>\<open>input\<close> and \<^verbatim>\<open>instructions\<close>.
\<close>

lemma overrides_win:
  assumes "validModel providers alias_name m" and "wfMap (mdl_overrides m)"
  shows "map_of (applyRequestOverrides payload (mdl_overrides m)) k =
           orElse (map_of (mdl_overrides m) k) (map_of payload k) \<and>
         (k \<in> set protectedFields \<longrightarrow>
            map_of (applyRequestOverrides payload (mdl_overrides m)) k = map_of payload k)"
proof -
  have "map_of (mdl_overrides m) k = None" if "k \<in> set protectedFields"
    using assms(1) that by (force simp: validModel_def map_of_eq_None_iff mapKeys_def)
  then show ?thesis
    using assms(2) by (auto simp: applyRequestOverrides_def map_of_fold_update wfMap_def orElse_def split: option.split)
qed

lemma overrides_win_example:
  "validModel [(''test'', exampleProvider)] ''a'' (exampleModel\<lparr>mdl_overrides := [(''temperature'', ANum 0)]\<rparr>) \<and>
   map_of (applyRequestOverrides [(''temperature'', ANum 1), (''model'', AStr ''a'')] [(''temperature'', ANum 0)])
     ''temperature'' = Some (ANum 0)"
proof -
  let ?m = "exampleModel\<lparr>mdl_overrides := [(''temperature'', ANum 0)]\<rparr>"
  have v: "validModel [(''test'', exampleProvider)] ''a'' ?m"
    by (simp add: validModel_def exampleModel_def protectedFields_def mapKeys_def validLimits_def zeroLimits_def
        resolvedTargets_def validTarget_def)
  have "wfMap (mdl_overrides ?m)" by (simp add: wfMap_def)
  from overrides_win [OF v this, of "[(''temperature'', ANum 1), (''model'', AStr ''a'')]" "''temperature''"] v
  show ?thesis by simp
qed

text \<open>
  The body sent to a provider, field by field: the target's model name; for Ollama a
  \<^verbatim>\<open>reasoning_effort\<close> taken from the first of \<^verbatim>\<open>reasoning_effort\<close>, \<^verbatim>\<open>thinking\<close> and \<^verbatim>\<open>think\<close> that has
  one, and neither of the latter two; on the responses endpoint \<^verbatim>\<open>max_output_tokens\<close> in the place
  of \<^verbatim>\<open>max_tokens\<close>; and every other field as the client sent it.
\<close>

lemma target_payload_fields:
  assumes "wfMap payload"
  shows "map_of (targetPayload payload endpoint protocol model) k =
    (if k = ''model'' then Some (AStr model)
     else if protocol = ''ollama'' \<and> k \<in> {''thinking'', ''think''} then None
     else if protocol = ''ollama'' \<and> k = ''reasoning_effort'' then
       orElse (map_of payload ''reasoning_effort'')
         (orElse (Option.bind (map_of payload ''thinking'') effortOf) (Option.bind (map_of payload ''think'') effortOf))
     else if endpoint = ''/v1/responses'' \<and> k = ''max_tokens'' then None
     else if endpoint = ''/v1/responses'' \<and> k = ''max_output_tokens'' then
       orElse (map_of payload ''max_output_tokens'') (map_of payload ''max_tokens'')
     else map_of payload k)"
  unfolding targetPayload_def applyProviderCompatibility_def clonePayload_id [OF assms]
  by (auto simp: Let_def map_of_translateEffort update_conv delete_conv orElse_def split: option.split)

lemma target_payload_fields_example:
  "map_of (targetPayload [(''model'', AStr ''alias''), (''thinking'', ABool True)] ''/v1/chat/completions'' ''ollama'' ''llama'')
     ''reasoning_effort'' = Some (AStr ''medium'')"
  using target_payload_fields [of "[(''model'', AStr ''alias''), (''thinking'', ABool True)]" "''/v1/chat/completions''"
      "''ollama''" "''llama''" "''reasoning_effort''"]
  by (simp add: wfMap_def effortOf_def)

section \<open>System prompts\<close>

lemma promptLoop_None: "promptLoop pre app ms = None \<longleftrightarrow> (\<forall>m \<in> set ms. systemText m = None)"
  by (induction ms) (auto split: option.splits)

text \<open>A message with another text: the same fields, but for the content.\<close>

definition withText :: "string \<Rightarrow> any \<Rightarrow> any \<Rightarrow> bool" where
  "withText t m m' \<longleftrightarrow>
     (\<exists>f f'. m = AObj f \<and> m' = AObj f' \<and> map_of f' ''content'' = Some (AStr t) \<and>
             (\<forall>k. k \<noteq> ''content'' \<longrightarrow> map_of f' k = map_of f k))"

lemma setContent_withText: "systemText m = Some c \<Longrightarrow> withText t m (setContent t m)"
  by (auto simp: systemText_def setContent_def withText_def update_conv split: any.splits)

lemma promptLoop_Some:
  "promptLoop pre app ms = Some ms' \<Longrightarrow>
   \<exists>before m m' after c. ms = before @ m # after \<and> ms' = before @ m' # after \<and>
     (\<forall>x \<in> set before. systemText x = None) \<and> systemText m = Some c \<and> withText (joinPrompt [pre, c, app]) m m'"
proof (induction ms arbitrary: ms')
  case (Cons x ms)
  show ?case
  proof (cases "systemText x")
    case None
    with Cons.prems obtain r where r: "promptLoop pre app ms = Some r" "ms' = x # r" by auto
    from Cons.IH [OF r(1)] obtain before m m' after c where
      "ms = before @ m # after" "r = before @ m' # after" "\<forall>x \<in> set before. systemText x = None"
      "systemText m = Some c" "withText (joinPrompt [pre, c, app]) m m'" by blast
    with None r(2) show ?thesis
      by (intro exI [of _ "x # before"] exI [of _ m] exI [of _ m'] exI [of _ after] exI [of _ c]) simp
  next
    case (Some c)
    with Cons.prems have "ms' = setContent (joinPrompt [pre, c, app]) x # ms" by simp
    with Some setContent_withText [OF Some] show ?thesis
      by (intro exI [of _ "[]"] exI [of _ x] exI [of _ "setContent (joinPrompt [pre, c, app]) x"] exI [of _ ms] exI [of _ c]) simp
  qed
qed simp



section \<open>Bodies on the wire\<close>

text \<open>A property of fields that every step from the decoded body to the encoded one keeps.\<close>

definition allFields :: "(string \<Rightarrow> any \<Rightarrow> bool) \<Rightarrow> any gomap \<Rightarrow> bool" where
  "allFields P m \<longleftrightarrow> (\<forall>(k, v) \<in> set m. P k v)"

lemma allFields_simps [simp]:
  "allFields P []"
  "allFields P ((k, v) # m) \<longleftrightarrow> P k v \<and> allFields P m"
  by (simp_all add: allFields_def)

lemma allFields_update: "allFields P m \<Longrightarrow> P k v \<Longrightarrow> allFields P (AList.update k v m)"
  by (induction m) auto

lemma allFields_delete: "allFields P m \<Longrightarrow> allFields P (AList.delete k m)"
  by (induction m) auto

lemma allFields_fold: "allFields P kvs \<Longrightarrow> allFields P m \<Longrightarrow> allFields P (fold (\<lambda>(k, v). AList.update k v) kvs m)"
  by (induction kvs arbitrary: m) (auto simp: allFields_update)

lemma allFields_lookup: "allFields P m \<Longrightarrow> map_of m k = Some v \<Longrightarrow> P k v"
  by (auto simp: allFields_def dest: map_of_SomeD)

text \<open>What a property must allow so that the steps keep it.\<close>

definition keptFields :: "(string \<Rightarrow> any \<Rightarrow> bool) \<Rightarrow> bool" where
  "keptFields P \<longleftrightarrow>
     P ''reasoning_effort'' (AStr ''medium'') \<and> P ''reasoning_effort'' (AStr ''none'') \<and>
     (\<forall>k s. P k (AStr s) \<longrightarrow> P ''reasoning_effort'' (AStr s)) \<and>
     (\<forall>v. P ''max_tokens'' v \<longrightarrow> P ''max_output_tokens'' v)"

lemma effortOf_kept: "keptFields P \<Longrightarrow> P k v \<Longrightarrow> effortOf v = Some e \<Longrightarrow> P ''reasoning_effort'' e"
  by (cases v) (auto simp: effortOf_def keptFields_def)

lemma translateEffort_kept: "keptFields P \<Longrightarrow> allFields P m \<Longrightarrow> allFields P (translateEffort field m)"
  by (auto simp: translateEffort_def Let_def intro!: allFields_delete allFields_update
      dest: effortOf_kept allFields_lookup split: option.split)

lemma maxTokens_kept:
  assumes "keptFields P" and "allFields P m"
  shows "allFields P
    (case map_of m ''max_tokens'' of
       None \<Rightarrow> m
     | Some value \<Rightarrow>
         AList.delete ''max_tokens''
           (if map_of m ''max_output_tokens'' = None then AList.update ''max_output_tokens'' value m else m))"
proof (cases "map_of m ''max_tokens''")
  case (Some v)
  then have "P ''max_output_tokens'' v" using assms allFields_lookup unfolding keptFields_def by blast
  with Some assms(2) show ?thesis by (simp add: allFields_delete allFields_update)
qed (use assms in simp)

lemma targetPayload_kept:
  assumes "keptFields P" and "allFields P m" and "P ''model'' (AStr model)"
  shows "allFields P (targetPayload m endpoint protocol model)"
proof -
  define p0 where "p0 = AList.update ''model'' (AStr model) (clonePayload m)"
  define p1 where "p1 = (if protocol = ''ollama'' then translateEffort ''think'' (translateEffort ''thinking'' p0) else p0)"
  have "allFields P p0" using assms(2,3) by (simp add: p0_def clonePayload_def allFields_fold allFields_update)
  then have "allFields P p1" using assms(1) by (simp add: p1_def translateEffort_kept)
  then show ?thesis
    using maxTokens_kept [OF assms(1), of p1]
    by (simp add: targetPayload_def applyProviderCompatibility_def Let_def flip: p0_def p1_def)
qed

lemma translateEffort_wfMap: "wfMap m \<Longrightarrow> wfMap (translateEffort field m)"
  by (simp add: translateEffort_def Let_def split: option.split)

lemma targetPayload_wfMap:
  assumes "wfMap m"
  shows "wfMap (targetPayload m endpoint protocol model)"
proof -
  define p0 where "p0 = AList.update ''model'' (AStr model) (clonePayload m)"
  define p1 where "p1 = (if protocol = ''ollama'' then translateEffort ''think'' (translateEffort ''thinking'' p0) else p0)"
  have "wfMap p1" using assms by (simp add: p1_def p0_def clonePayload_id translateEffort_wfMap)
  then show ?thesis
    by (simp add: targetPayload_def applyProviderCompatibility_def Let_def flip: p0_def p1_def split: option.split)
qed

text \<open>Two such properties: having a JSON form, and being well formed.\<close>

lemma treeObj_Some: "(\<exists>js. treeObj m = Some js) \<longleftrightarrow> allFields (\<lambda>k v. tree v \<noteq> None) m"
proof (induction m)
  case (Cons kv m)
  then show ?case by (cases kv; cases "tree (snd kv)"; cases "treeObj m") simp_all
qed simp

lemma target_has_form:
  assumes "marshal (AObj m) \<noteq> None"
  shows "marshal (AObj (targetPayload m endpoint protocol model)) \<noteq> None"
proof -
  have iff: "marshal (AObj p) \<noteq> None \<longleftrightarrow> allFields (\<lambda>k v. tree v \<noteq> None) p" for p
    using treeObj_Some [of p] by (cases "treeObj p") (simp_all add: marshal_def)
  have "keptFields (\<lambda>k v. tree v \<noteq> None)" by (simp add: keptFields_def)
  with assms show ?thesis by (simp only: iff) (rule targetPayload_kept, simp_all)
qed

definition wfField :: "string \<Rightarrow> any \<Rightarrow> bool" where
  "wfField k v \<longleftrightarrow> validUTF8 k \<and> wfAny v"

lemma wfFields_allFields: "wfFields m \<longleftrightarrow> allFields wfField m"
  by (induction m) (auto simp: wfField_def)

lemma wfAny_object: "wfAny (AObj m) \<longleftrightarrow> wfMap m \<and> allFields wfField m"
  by (simp add: wfFields_allFields wfMap_def)

lemma valid_append: "validUTF8 s \<Longrightarrow> validUTF8 t \<Longrightarrow> validUTF8 (s @ t)"
  using validUTF8_append [of s t] by (simp add: validUTF8_def)

lemma joinPrompt_valid: "\<forall>p \<in> set ps. validUTF8 p \<Longrightarrow> validUTF8 (joinPrompt ps)"
proof -
  have "\<forall>p \<in> set qs. validUTF8 p \<Longrightarrow> validUTF8 (joinWith [CHR 0x0A, CHR 0x0A] qs)" for qs
  proof (induction qs)
    case (Cons q qs)
    have "validUTF8 [CHR 0x0A, CHR 0x0A]" by (simp add: ascii_valid)
    with Cons show ?case by (cases "qs = []") (auto simp: joinWith_Cons simp del: append_Cons intro!: valid_append)
  qed (simp add: validUTF8_def)
  then show "\<forall>p \<in> set ps. validUTF8 p \<Longrightarrow> ?thesis" by (simp add: joinPrompt_def)
qed

lemma wfAnys_iff: "wfAnys vs \<longleftrightarrow> list_all wfAny vs"
  by (induction vs) auto

lemma valid_names: "validUTF8 ''content''" "validUTF8 ''messages''" "validUTF8 ''instructions''" "validUTF8 ''role''"
  "validUTF8 ''system''" "validUTF8 ''model''" "validUTF8 ''reasoning_effort''" "validUTF8 ''max_output_tokens''"
  "validUTF8 ''medium''" "validUTF8 ''none''" "validUTF8 []"
  by (simp_all add: ascii_valid)

lemma setContent_wf: "wfAny m \<Longrightarrow> validUTF8 text \<Longrightarrow> wfAny (setContent text m)"
  by (cases m) (auto simp: setContent_def distinct_update valid_names intro: wfFields_update)

lemma systemText_valid:
  assumes "wfAny m" and "systemText m = Some c"
  shows "validUTF8 c"
proof -
  obtain msg where msg: "m = AObj msg" "map_of msg ''content'' = Some (AStr c)"
    using assms(2) by (auto simp: systemText_def split: any.splits if_splits option.splits)
  then have "wfField ''content'' (AStr c)" using assms(1) by (intro allFields_lookup) (auto simp: wfFields_allFields)
  then show ?thesis by (simp add: wfField_def)
qed

lemma promptLoop_wf:
  assumes "promptLoop pre app ms = Some ms'" and "wfAnys ms" and "validUTF8 pre" "validUTF8 app"
  shows "wfAnys ms'"
  using assms(1,2)
proof (induction ms arbitrary: ms')
  case (Cons m ms)
  show ?case
  proof (cases "systemText m")
    case None
    then show ?thesis using Cons by auto
  next
    case (Some c)
    then have "validUTF8 (joinPrompt [pre, c, app])"
      using Cons.prems(2) assms(3,4) systemText_valid [of m c] by (intro joinPrompt_valid) simp
    with Some Cons.prems show ?thesis by (auto intro: setContent_wf)
  qed
qed simp

lemma applySystemPrompt_cases:
  assumes "applySystemPrompt p endpoint pre app = Inr p1"
  obtains (same) "p1 = p"
  | (instructions) c where "c = [] \<or> map_of p ''instructions'' = Some (AStr c)"
      "p1 = AList.update ''instructions'' (AStr (joinPrompt [pre, c, app])) p"
  | (messages) ms ms' where "map_of p ''messages'' = Some (AArr ms)" "p1 = AList.update ''messages'' (AArr ms') p"
      "promptLoop pre app ms = Some ms' \<or> ms' = systemMessage (joinPrompt [pre, [], app]) # ms"
proof (cases "pre = [] \<and> app = []")
  case True
  with assms show thesis by (intro same) (simp add: applySystemPrompt_def)
next
  case ne: False
  show thesis
  proof (cases "endpoint = ''/v1/responses''")
    case True
    let ?c = "case map_of p ''instructions'' of Some (AStr s) \<Rightarrow> s | _ \<Rightarrow> []"
    show thesis
    proof (rule instructions [of ?c])
      show "?c = [] \<or> map_of p ''instructions'' = Some (AStr ?c)" by (simp split: option.split any.split)
      show "p1 = AList.update ''instructions'' (AStr (joinPrompt [pre, ?c, app])) p"
        using assms ne True by (simp add: applySystemPrompt_def)
    qed
  next
    case False
    then obtain ms where ms: "map_of p ''messages'' = Some (AArr ms)"
      using assms ne by (simp add: applySystemPrompt_def split: option.splits any.splits)
    with assms ne False show thesis
      by (cases "promptLoop pre app ms") (auto simp: applySystemPrompt_def intro: messages [OF ms])
  qed
qed

lemma applySystemPrompt_wf:
  assumes "applySystemPrompt p endpoint pre app = Inr p1" and "wfAny (AObj p)" and "validUTF8 pre" "validUTF8 app"
  shows "wfAny (AObj p1)"
proof -
  have upd: "wfAny (AObj (AList.update k v p))" if "validUTF8 k" "wfAny v" for k v
    using assms(2) that by (auto simp: distinct_update intro: wfFields_update)
  have look: "wfAny v" if "map_of p k = Some v" for k v
    using assms(2) that by (auto simp: wfFields_allFields wfField_def dest!: allFields_lookup)
  have jp: "validUTF8 (joinPrompt [pre, c, app])" if "validUTF8 c" for c
    using assms(3,4) that by (intro joinPrompt_valid) simp
  from assms(1) show ?thesis
  proof (cases rule: applySystemPrompt_cases)
    case same
    with assms(2) show ?thesis by simp
  next
    case (instructions c)
    then have "validUTF8 c" using look [of "''instructions''" "AStr c"] by (auto simp: valid_names)
    then show ?thesis unfolding instructions(2) by (intro upd) (simp_all add: valid_names jp)
  next
    case (messages ms ms')
    have "wfAnys ms" using look [OF messages(1)] by simp
    moreover have "wfAny (systemMessage (joinPrompt [pre, [], app]))"
      using jp [of "[]"] by (simp add: systemMessage_def valid_names)
    ultimately have "wfAnys ms'" using messages(3) promptLoop_wf [OF _ _ assms(3,4)] by auto
    then show ?thesis unfolding messages(2) by (intro upd) (simp_all add: valid_names)
  qed
qed

text \<open>The decoder's result, and the encoder's text read back.\<close>

lemma decodePayload_object:
  assumes "decodePayload body = Some p"
  shows "wfAny (AObj p)"
  using assms parseJSON_wf [of body] toAny_wf(3) [of _ "[]" p]
  by (auto simp: decodePayload_def split: option.splits json.splits)

lemma map_of_sort: "distinct (map fst m) \<Longrightarrow> map_of (sort_key fst m) = map_of m"
  by (rule map_of_inject_set [THEN iffD2]) (simp_all add: distinct_map)

lemma canonicalFields_map: "canonicalFields m = mapValues (\<lambda>k. canonical) m"
  by (induction m) (auto simp: mapValues_def)

lemma marshal_decode:
  assumes "wfAny (AObj t)" and "nesting (AObj t) \<le> maxNestingDepth"
  shows "\<exists>wire q. marshal (AObj t) = Some wire \<and> decodePayload wire = Some q \<and>
           (\<forall>k. map_of q k = map_option canonical (map_of t k))"
proof -
  obtain wire j where w: "marshal (AObj t) = Some wire" "parseJSON wire = Some j" "toAny j = Some (canonical (AObj t))"
    using marshal_parse [OF assms] by blast
  then obtain kvs where "j = JObj kvs" "toAnyObj kvs [] = Some (sort_key fst (canonicalFields t))"
    by (cases j) (auto simp: jsonNumber_def Let_def split: if_splits)
  then have "decodePayload wire = Some (sort_key fst (canonicalFields t))" using w(2) by (simp add: decodePayload_def)
  moreover have "map_of (sort_key fst (canonicalFields t)) k = map_option canonical (map_of t k)" for k
  proof -
    have "distinct (map fst (canonicalFields t))"
      using assms(1) by (simp add: canonicalFields_map flip: wfMap_def)
    then show ?thesis by (simp only: map_of_sort canonicalFields_map map_of_mapValues)
  qed
  ultimately show ?thesis using w(1) by blast
qed

lemma decode_rendered:
  "wfJson (JObj kvs) \<Longrightarrow> depthOf (JObj kvs) \<le> maxNestingDepth \<Longrightarrow> decodePayload (render (JObj kvs)) = toAnyObj kvs []"
  using parse_render [of "JObj kvs"] by (simp add: decodePayload_def)

text \<open>The text of a JSON value: its tokens are those of the tree, which is not nested too deeply.\<close>

definition textOf :: "string \<Rightarrow> json \<Rightarrow> bool" where
  "textOf s j \<longleftrightarrow> lexJSON s = Some (toks j) \<and> depthOf j \<le> maxNestingDepth"

lemma textOf_unique: "textOf s j \<Longrightarrow> textOf s j' \<Longrightarrow> j = j'"
  unfolding textOf_def parseJSON_iff [symmetric] by simp

lemma toAnyObj_fold:
  "toAnyObj kvs m =
     (if \<forall>kv \<in> set kvs. toAny (snd kv) \<noteq> None
      then Some (fold (\<lambda>(k, x). AList.update k (the (toAny x))) kvs m) else None)"
proof (induction kvs arbitrary: m)
  case (Cons kv kvs)
  then show ?case by (cases kv; cases "toAny (snd kv)") simp_all
qed simp

lemma map_of_fold_last:
  "\<forall>kv \<in> set kvs. toAny (snd kv) \<noteq> None \<Longrightarrow>
   map_of (fold (\<lambda>(k, x). AList.update k (the (toAny x))) kvs m) k =
     (case map_of (rev kvs) k of None \<Rightarrow> map_of m k | Some x \<Rightarrow> toAny x)"
proof (induction kvs arbitrary: m)
  case (Cons kv kvs)
  obtain k' x where kv: "kv = (k', x)" by force
  then have "\<forall>kv \<in> set kvs. toAny (snd kv) \<noteq> None" "toAny x = Some (the (toAny x))" using Cons.prems by auto
  with Cons.IH [of "AList.update k' (the (toAny x)) m"] show ?case
    by (auto simp: kv update_conv map_add_def split: option.split)
qed simp

lemma decodePayload_text:
  "decodePayload body =
     (if textOf body JNull then Some []
      else case parseJSON body of Some (JObj kvs) \<Rightarrow> toAnyObj kvs [] | _ \<Rightarrow> None)"
  unfolding textOf_def parseJSON_iff [symmetric]
  by (simp add: decodePayload_def split: option.split json.split)

text \<open>
  Claim C14. What a client may send: a body is refused unless it is the text of \<^verbatim>\<open>null\<close> or of a JSON object that is nested at
  most 10000 deep and whose numbers are in the range of \<^verbatim>\<open>float64\<close>. An accepted body decodes to a
  well-formed object: for every key the value of the last member of that name; at every level distinct keys, valid
  UTF-8 strings, and \<^verbatim>\<open>float64\<close> values, subnormal ones included, as numbers.
\<close>

theorem decoded_payload_exact:
  "(decodePayload body = None \<longleftrightarrow>
      \<not> textOf body JNull \<and> (\<forall>kvs. textOf body (JObj kvs) \<longrightarrow> (\<exists>kv \<in> set kvs. toAny (snd kv) = None))) \<and>
   (\<forall>p. decodePayload body = Some p \<longrightarrow>
      wfAny (AObj p) \<and> (textOf body JNull \<longrightarrow> p = []) \<and>
      (\<forall>kvs. textOf body (JObj kvs) \<longrightarrow> (\<forall>k. map_of p k = Option.bind (map_of (rev kvs) k) toAny)))"
proof (cases "\<exists>kvs. textOf body (JObj kvs)")
  case True
  then obtain kvs where kvs: "textOf body (JObj kvs)" by blast
  then have nn: "\<not> textOf body JNull" and uniq: "\<And>kvs'. textOf body (JObj kvs') \<longleftrightarrow> kvs' = kvs"
    using textOf_unique by blast+
  have "decodePayload body = toAnyObj kvs []"
    using kvs nn decodePayload_text [of body] unfolding textOf_def parseJSON_iff [symmetric] by simp
  then show ?thesis
    using nn uniq decodePayload_object [of body] map_of_fold_last [of kvs "[]"]
    by (auto simp: toAnyObj_fold split: if_splits option.split)
next
  case False
  then have "parseJSON body \<noteq> Some (JObj kvs)" for kvs unfolding textOf_def parseJSON_iff [symmetric] by blast
  then have "decodePayload body = (if textOf body JNull then Some [] else None)"
    unfolding decodePayload_text by (auto split: option.split json.split)
  with False show ?thesis by simp
qed

text \<open>The example body: an object with a model name.\<close>

definition exampleBody :: string where
  "exampleBody = render (JObj [(''model'', JStr ''stable'')])"

lemma exampleBody_decodes: "decodePayload exampleBody = Some [(''model'', AStr ''stable'')]"
  unfolding exampleBody_def
  by (subst decode_rendered) (simp_all add: ascii_valid maxNestingDepth_def)

theorem decoded_payload_exact_witness:
  "decodePayload exampleBody = Some [(''model'', AStr ''stable'')] \<and> wfAny (AObj [(''model'', AStr ''stable'')]) \<and>
   decodePayload '']'' = None"
proof -
  have "lexJSON '']'' = Some [TPunct (CHR '']'')]" by (simp add: lexJSON.simps jsonSpace_def)
  then have "\<not> textOf '']'' JNull" "\<not> textOf '']'' (JObj kvs)" for kvs by (simp_all add: textOf_def)
  then show ?thesis
    using decoded_payload_exact [of exampleBody] decoded_payload_exact [of "'']''"] exampleBody_decodes by blast
qed



end
