(* ===== verification/Headers.thy ===== *)
theory Headers
  imports Config
begin

text \<open>
  HTTP header maps and what the gateway does with them: the operations of Go's
  \<^verbatim>\<open>http.Header\<close>, the allowlists of \<^verbatim>\<open>gateway.go\<close> for headers that cross the gateway, the
  credentials put on provider requests, and the redaction of \<^verbatim>\<open>logging.go\<close>. A header map is
  iterated over, so it is an association list from names to value lists.
\<close>

type_synonym header = "string list gomap"

section \<open>Package net/http\<close>

text \<open>\<^verbatim>\<open>CanonicalHeaderKey\<close>: a name with a byte that is not a token byte is left as it is.\<close>

definition charBetween :: "char \<Rightarrow> char \<Rightarrow> char \<Rightarrow> bool" where
  "charBetween lo hi c \<longleftrightarrow> lo \<le> c \<and> c \<le> hi"

definition tokenChar :: "char \<Rightarrow> bool" where
  "tokenChar c \<longleftrightarrow>
     c = CHR 0x27 \<or> c = CHR 0x60 \<or> c \<in> set ''!#$%&*+-.^_|~'' \<or>
     list_ex (\<lambda>(lo, hi). charBetween lo hi c) [(CHR ''0'', CHR ''9''), (CHR ''A'', CHR ''Z''), (CHR ''a'', CHR ''z'')]"

definition upperChar :: "char \<Rightarrow> char" where
  "upperChar c = (if CHR ''a'' \<le> c \<and> c \<le> CHR ''z'' then char_of (of_char c - (32::nat)) else c)"

fun canonicalLoop :: "bool \<Rightarrow> string \<Rightarrow> string" where
  "canonicalLoop upper [] = []"
| "canonicalLoop upper (c # cs) =
     (let c' = (if upper then upperChar c else lowerChar c) in c' # canonicalLoop (c' = CHR ''-'') cs)"

definition canonicalHeaderKey :: "string \<Rightarrow> string" where
  "canonicalHeaderKey s = (if list_all tokenChar s then canonicalLoop True s else s)"

definition headerValues :: "header \<Rightarrow> string \<Rightarrow> string list" where
  "headerValues h name = (case map_of h (canonicalHeaderKey name) of None \<Rightarrow> [] | Some vs \<Rightarrow> vs)"

definition headerGet :: "header \<Rightarrow> string \<Rightarrow> string" where
  "headerGet h name = (case headerValues h name of [] \<Rightarrow> [] | v # vs \<Rightarrow> v)"

definition headerSet :: "string \<Rightarrow> string \<Rightarrow> header \<Rightarrow> header" where
  "headerSet name value h = AList.update (canonicalHeaderKey name) [value] h"

definition headerAdd :: "string \<Rightarrow> string \<Rightarrow> header \<Rightarrow> header" where
  "headerAdd name value h = AList.update (canonicalHeaderKey name) (headerValues h name @ [value]) h"

definition headerDel :: "string \<Rightarrow> header \<Rightarrow> header" where
  "headerDel name h = AList.delete (canonicalHeaderKey name) h"

section \<open>Headers across the gateway\<close>

definition forwardedRequestHeaders :: "string list" where
  "forwardedRequestHeaders = [''accept'', ''idempotency-key'', ''x-request-id'']"

definition forwardedResponseHeaders :: "string list" where
  "forwardedResponseHeaders =
     [''cache-control'', ''content-encoding'', ''content-type'', ''openai-processing-ms'',
      ''request-id'', ''retry-after'', ''x-request-id'']"

text \<open>The loop both copies share: the names of \<open>src\<close> on the list, every value added to \<open>dst\<close>.\<close>

definition copyHeaders :: "string list \<Rightarrow> header \<Rightarrow> header \<Rightarrow> header" where
  "copyHeaders names src dst =
     fold (\<lambda>(name, values) d.
             if toLower name \<notin> set names then d else fold (headerAdd name) values d) src dst"

definition copyRequestHeaders :: "header \<Rightarrow> header \<Rightarrow> header" where
  "copyRequestHeaders dst src = copyHeaders forwardedRequestHeaders src dst"

definition copyResponseHeaders :: "header \<Rightarrow> header \<Rightarrow> header" where
  "copyResponseHeaders dst src = copyHeaders forwardedResponseHeaders src dst"

text \<open>The environment is a function; \<^verbatim>\<open>os.Getenv\<close> gives the empty string for an unset variable.\<close>

datatype header_error = EmptyEnvironmentVariable string

definition applyProviderHeaders ::
    "(string \<Rightarrow> string) \<Rightarrow> header \<Rightarrow> providerConfig \<Rightarrow> header_error + header" where
  "applyProviderHeaders getenv h p =
     (if prov_apiKeyEnv p \<noteq> [] \<and> getenv (prov_apiKeyEnv p) = [] then
        Inl (EmptyEnvironmentVariable (prov_apiKeyEnv p))
      else
        let h1 = (if prov_apiKeyEnv p \<noteq> []
                  then headerSet ''Authorization'' (''Bearer '' @ getenv (prov_apiKeyEnv p)) h
                  else headerDel ''Authorization'' h)
        in Inr (fold (\<lambda>(name, value). headerSet name value) (prov_headers p) h1))"

text \<open>
  The header map of a provider request, as \<^verbatim>\<open>doUpstreamRequest\<close> builds it: the copied client
  headers, the content type, the credentials and configured headers of the provider.
\<close>

definition upstreamHeaders ::
    "(string \<Rightarrow> string) \<Rightarrow> header \<Rightarrow> providerConfig \<Rightarrow> header_error + header" where
  "upstreamHeaders getenv incoming p =
     applyProviderHeaders getenv
       (headerSet ''Content-Type'' ''application/json'' (copyRequestHeaders [] incoming)) p"

section \<open>Redaction\<close>

definition sensitiveHeaders :: "string list" where
  "sensitiveHeaders = [''authorization'', ''proxy-authorization'', ''cookie'', ''set-cookie'', ''x-api-key'']"

definition redacted :: string where
  "redacted = ''[REDACTED]''"

definition loggedHeaders :: "header \<Rightarrow> string gomap" where
  "loggedHeaders h =
     fold (\<lambda>(name, values) result.
             AList.update name
               (if toLower name \<in> set sensitiveHeaders then redacted else joinWith '', '' values) result)
       h []"

section \<open>Laws of header maps\<close>

lemma headerValues_update:
  "headerValues (AList.update (canonicalHeaderKey n) vs h) m =
     (if canonicalHeaderKey n = canonicalHeaderKey m then vs else headerValues h m)"
  by (simp add: headerValues_def update_conv)

lemma headerValues_Set [simp]:
  "headerValues (headerSet n v h) m =
     (if canonicalHeaderKey n = canonicalHeaderKey m then [v] else headerValues h m)"
  by (simp add: headerSet_def headerValues_update)

lemma headerValues_Add [simp]:
  "headerValues (headerAdd n v h) m =
     (if canonicalHeaderKey n = canonicalHeaderKey m then headerValues h m @ [v] else headerValues h m)"
  by (simp add: headerAdd_def headerValues_update) (simp add: headerValues_def)

lemma headerValues_Del [simp]:
  "headerValues (headerDel n h) m =
     (if canonicalHeaderKey n = canonicalHeaderKey m then [] else headerValues h m)"
  by (simp add: headerDel_def headerValues_def delete_conv)

lemma headerValues_Nil [simp]: "headerValues [] m = []"
  by (simp add: headerValues_def)

lemma headerValues_fold_Add [simp]:
  "headerValues (fold (headerAdd n) vs h) m =
     (if canonicalHeaderKey n = canonicalHeaderKey m then headerValues h m @ vs else headerValues h m)"
  by (induction vs arbitrary: h) auto

text \<open>A copy depends only on the entries whose names are on the list.\<close>

definition onList :: "string list \<Rightarrow> header \<Rightarrow> header" where
  "onList names h = filter (\<lambda>(name, values). toLower name \<in> set names) h"

lemma copyHeaders_onList: "copyHeaders names src dst = copyHeaders names (onList names src) dst"
  unfolding copyHeaders_def onList_def by (induction src arbitrary: dst) auto

lemma fold_headerSet_values:
  "canonicalHeaderKey m \<notin> canonicalHeaderKey ` fst ` set nvs \<Longrightarrow>
   headerValues (fold (\<lambda>(n, v). headerSet n v) nvs h) m = headerValues h m"
  by (induction nvs arbitrary: h) auto

lemma copyHeaders_values:
  "headerValues (copyHeaders names src dst) m =
     headerValues dst m @
     concat (map snd (filter (\<lambda>(n, vs). toLower n \<in> set names \<and> canonicalHeaderKey n = canonicalHeaderKey m) src))"
  unfolding copyHeaders_def by (induction src arbitrary: dst) (auto split: if_splits)

text \<open>Canonicalisation only changes the case of letters.\<close>

lemma upperChar_code: "of_char (upperChar c) =
    (if 97 \<le> (of_char c :: nat) \<and> (of_char c :: nat) \<le> 122 then of_char c - 32 else (of_char c :: nat))"
  by (auto simp: upperChar_def less_eq_char_def)

lemma lowerChar_code: "of_char (lowerChar c) =
    (if 65 \<le> (of_char c :: nat) \<and> (of_char c :: nat) \<le> 90 then of_char c + 32 else (of_char c :: nat))"
  by (auto simp: lowerChar_def less_eq_char_def)

lemma char_eq_code: "c = d \<longleftrightarrow> (of_char c :: nat) = of_char d"
  by (simp add: of_char_eq_iff)

lemma lower_upper [simp]: "lowerChar (upperChar c) = lowerChar c"
  unfolding char_eq_code lowerChar_code upperChar_code by auto

lemma lower_lower [simp]: "lowerChar (lowerChar c) = lowerChar c"
  unfolding char_eq_code lowerChar_code by auto

lemma upper_upper [simp]: "upperChar (upperChar c) = upperChar c"
  unfolding char_eq_code upperChar_code by auto

lemma canonical_idem [simp]: "canonicalHeaderKey (canonicalHeaderKey n) = canonicalHeaderKey n"
proof -
  have "canonicalLoop u (canonicalLoop u s) = canonicalLoop u s" for u s
    by (induction s arbitrary: u) (simp_all add: Let_def)
  then show ?thesis by (simp add: canonicalHeaderKey_def)
qed

lemma toLower_canonical: "toLower (canonicalHeaderKey n) = toLower n"
proof -
  have "map lowerChar (canonicalLoop u n) = map lowerChar n" for u
    by (induction n arbitrary: u) (simp_all add: Let_def)
  then show ?thesis by (simp add: canonicalHeaderKey_def toLower_def)
qed

lemma canonical_eq_toLower: "canonicalHeaderKey n = canonicalHeaderKey m \<Longrightarrow> toLower n = toLower m"
  by (metis toLower_canonical)

section \<open>What crosses the gateway\<close>

text \<open>
  Claim C5. Credentials stay on their side. A provider request depends on the client's headers
  only through the three names on the allowlist, and its \<^verbatim>\<open>Authorization\<close> header is the
  provider's own key, or absent when the provider has none: a client's key is never forwarded.
\<close>

theorem client_headers_isolated:
  assumes "canonicalHeaderKey ''Authorization'' \<notin> canonicalHeaderKey ` fst ` set (prov_headers p)"
  shows "upstreamHeaders getenv h p = upstreamHeaders getenv (onList forwardedRequestHeaders h) p \<and>
         (case upstreamHeaders getenv h p of
            Inl e \<Rightarrow> prov_apiKeyEnv p \<noteq> [] \<and> getenv (prov_apiKeyEnv p) = []
          | Inr u \<Rightarrow> headerValues u ''Authorization'' =
              (if prov_apiKeyEnv p = [] then [] else [''Bearer '' @ getenv (prov_apiKeyEnv p)]))"
  using fold_headerSet_values [OF assms]
  by (simp add: upstreamHeaders_def copyRequestHeaders_def copyHeaders_onList [of _ h]
      applyProviderHeaders_def)

theorem client_headers_isolated_witness:
  "\<exists>u. upstreamHeaders (\<lambda>_. ''provider-secret'')
         [(''Authorization'', [''Bearer client-secret'']), (''Accept'', [''*/*''])]
         (exampleProvider\<lparr>prov_apiKeyEnv := ''KEY''\<rparr>) = Inr u \<and>
       headerValues u ''Authorization'' = [''Bearer provider-secret'']"
  using client_headers_isolated [of "exampleProvider\<lparr>prov_apiKeyEnv := ''KEY''\<rparr>" "\<lambda>_. ''provider-secret''"
      "[(''Authorization'', [''Bearer client-secret'']), (''Accept'', [''*/*''])]"]
  by (auto simp: exampleProvider_def split: sum.splits)

text \<open>
  What the client sees of a provider's headers: for a name on the allowlist every value
  the provider sent under that name, in order; for any other name (\<^verbatim>\<open>Set-Cookie\<close>, for instance)
  nothing at all.
\<close>

lemma provider_headers_filtered:
  "headerValues (copyResponseHeaders [] src) name =
     (if toLower name \<in> set forwardedResponseHeaders
      then concat (map snd (filter (\<lambda>(n, vs). canonicalHeaderKey n = canonicalHeaderKey name) src))
      else [])"
proof -
  have "filter (\<lambda>(n, vs). toLower n \<in> set forwardedResponseHeaders \<and> canonicalHeaderKey n = canonicalHeaderKey name) src
      = (if toLower name \<in> set forwardedResponseHeaders
         then filter (\<lambda>(n, vs). canonicalHeaderKey n = canonicalHeaderKey name) src else [])"
    by (auto simp: filter_empty_conv dest: canonical_eq_toLower intro!: filter_cong)
  then show ?thesis by (simp add: copyResponseHeaders_def copyHeaders_values)
qed

lemma loggedHeaders_map:
  "wfMap h \<Longrightarrow> loggedHeaders h =
     mapValues (\<lambda>n vs. if toLower n \<in> set sensitiveHeaders then redacted else joinWith '', '' vs) h"
  unfolding loggedHeaders_def by (subst fold_update_fresh) (auto simp: wfMap_def)

text \<open>
  Claim C35. The log holds no credential: the logged copy of a header map is the same whatever the
  values of the sensitive headers are, and of every other header it holds all values.
\<close>

theorem logged_headers_redacted:
  assumes "wfMap h"
  shows "loggedHeaders h =
           loggedHeaders (mapValues (\<lambda>n vs. if toLower n \<in> set sensitiveHeaders then secret n else vs) h) \<and>
         (\<forall>n vs. map_of h n = Some vs \<longrightarrow>
            map_of (loggedHeaders h) n =
              Some (if toLower n \<in> set sensitiveHeaders then redacted else joinWith '', '' vs))"
proof -
  let ?h = "mapValues (\<lambda>n vs. if toLower n \<in> set sensitiveHeaders then secret n else vs) h"
  have "wfMap ?h" using assms by (simp add: wfMap_def mapValues_def case_prod_unfold comp_def)
  from loggedHeaders_map [OF assms] loggedHeaders_map [OF this] show ?thesis
    by (auto simp: mapValues_def map_of_mapValues [unfolded mapValues_def])
qed

theorem logged_headers_redacted_witness:
  "map_of (loggedHeaders [(''Authorization'', [''Bearer k'']), (''Accept'', [''a'', ''b''])]) ''Authorization''
     = Some ''[REDACTED]'' \<and>
   map_of (loggedHeaders [(''Authorization'', [''Bearer k'']), (''Accept'', [''a'', ''b''])]) ''Accept''
     = Some ''a, b''"
proof -
  let ?h = "[(''Authorization'', [''Bearer k'']), (''Accept'', [''a'', ''b''])]"
  have wf: "wfMap ?h" by (simp add: wfMap_def)
  have "toLower ''Authorization'' = ''authorization''" "toLower ''Accept'' = ''accept''" by code_simp+
  moreover have "map_of ?h n = Some vs \<Longrightarrow>
      map_of (loggedHeaders ?h) n =
        Some (if toLower n \<in> set sensitiveHeaders then redacted else joinWith '', '' vs)" for n vs
    using logged_headers_redacted [OF wf] by blast
  from this [of "''Authorization''"] this [of "''Accept''"] calculation show ?thesis
    by (simp add: sensitiveHeaders_def redacted_def)
qed

end
