(* ===== verification/GoHttp.thy ===== *)
theory GoHttp
  imports Headers
begin

text \<open>
  The client of package \<^verbatim>\<open>net/http\<close> as of Go 1.25.0, as \<^verbatim>\<open>g.client\<close> is configured (\<^verbatim>\<open>gateway.go\<close> sets neither
  \<^verbatim>\<open>CheckRedirect\<close> nor a cookie jar): \<^verbatim>\<open>Client.Do\<close> follows redirects, up to ten requests in all. The exchange of one
  request with the server it is for is an argument. What a call does is the list of the requests that
  were put on the network, in order, and its result. Hosts that are not ASCII are compared as they are
  written, without their conversion to Punycode.
\<close>

section \<open>References\<close>

text \<open>\<^verbatim>\<open>resolvePath\<close>: the elements are written one after the other, behind a slash that is there from the start.\<close>

fun resolveElems :: "string list \<Rightarrow> string \<Rightarrow> bool \<Rightarrow> string" where
  "resolveElems [] str first = str"
| "resolveElems (e # es) str first =
     (if e = ''.'' then resolveElems es str False
      else if e = ''..'' then
        (case lastIndexByte (CHR ''/'') str of
           None \<Rightarrow> resolveElems es [] True
         | Some i \<Rightarrow> resolveElems es (take i str) first)
      else resolveElems es (str @ (if first then [] else ''/'') @ e) False)"

definition resolvePath :: "string \<Rightarrow> string \<Rightarrow> string" where
  "resolvePath base ref =
     (let full = (if ref = [] then base
                  else if hd ref \<noteq> CHR ''/'' then
                    (case lastIndexByte (CHR ''/'') base of None \<Rightarrow> [] | Some i \<Rightarrow> take (Suc i) base) @ ref
                  else ref)
      in if full = [] then []
         else
           let elems = splitOn (CHR ''/'') full;
               r = ''/'' @ resolveElems elems [] True @ (if last elems \<in> {''.'', ''..''} then ''/'' else [])
           in if length r > 1 \<and> r ! 1 = CHR ''/'' then tl r else r)"

text \<open>The error of \<^verbatim>\<open>setPath\<close> is ignored.\<close>

definition withPath :: "string \<Rightarrow> url \<Rightarrow> url" where
  "withPath p u = (case setPath p u of Some v \<Rightarrow> v | None \<Rightarrow> u)"

definition resolveReference :: "url \<Rightarrow> url \<Rightarrow> url" where
  "resolveReference u ref =
     (let v = ref\<lparr>url_Scheme := (if url_Scheme ref = [] then url_Scheme u else url_Scheme ref)\<rparr> in
      if url_Scheme ref \<noteq> [] \<or> url_Host ref \<noteq> [] \<or> url_User ref \<noteq> None then
        withPath (resolvePath (escapedPath ref) []) v
      else if url_Opaque ref \<noteq> [] then v\<lparr>url_User := None, url_Host := [], url_Path := []\<rparr>
      else
        let v1 = (if url_Path ref = [] \<and> \<not> url_ForceQuery ref \<and> url_RawQuery ref = [] then
                    (let w = v\<lparr>url_RawQuery := url_RawQuery u\<rparr> in
                     if url_Fragment ref = [] then w\<lparr>url_Fragment := url_Fragment u, url_RawFragment := url_RawFragment u\<rparr> else w)
                  else v)
        in if url_Path ref = [] \<and> url_Opaque u \<noteq> [] then
             v1\<lparr>url_Opaque := url_Opaque u, url_User := None, url_Host := [], url_Path := []\<rparr>
           else
             withPath (resolvePath (escapedPath u) (escapedPath ref)) (v1\<lparr>url_Host := url_Host u, url_User := url_User u\<rparr>))"

definition parseReference :: "url \<Rightarrow> string \<Rightarrow> url option" where
  "parseReference u loc = map_option (resolveReference u) (parseURL loc)"

section \<open>Hosts\<close>

definition hasPort :: "string \<Rightarrow> bool" where
  "hasPort s \<longleftrightarrow>
     (case (lastIndexByte (CHR '':'') s, lastIndexByte (CHR '']'') s) of
        (None, _) \<Rightarrow> False
      | (Some i, None) \<Rightarrow> True
      | (Some i, Some j) \<Rightarrow> j < i)"

definition removeEmptyPort :: "string \<Rightarrow> string" where
  "removeEmptyPort host = (if hasPort host then trimSuffix host '':'' else host)"

text \<open>\<^verbatim>\<open>URL.Hostname\<close>.\<close>

definition hostname :: "string \<Rightarrow> string" where
  "hostname hostPort =
     (let host = (case lastIndexByte (CHR '':'') hostPort of
                    None \<Rightarrow> hostPort
                  | Some i \<Rightarrow> if validOptionalPort (drop i hostPort) then take i hostPort else hostPort)
      in if hasPrefix host ''['' \<and> hasSuffix host '']'' then butlast (tl host) else host)"

definition isDomainOrSubdomain :: "string \<Rightarrow> string \<Rightarrow> bool" where
  "isDomainOrSubdomain sub parent =
     (if sub = parent then True
      else if CHR '':'' \<in> set sub \<or> CHR ''%'' \<in> set sub then False
      else if \<not> hasSuffix sub parent then False
      else sub ! (length sub - length parent - 1) = CHR ''.'')"

section \<open>One exchange after the other\<close>

record http_request =
  req_method :: string
  req_url :: url
  req_header :: header
  req_body :: string

record http_response =
  resp_status :: int
  resp_header :: header
  resp_reads :: "string list"
  resp_readFails :: bool

datatype upstream_error =
    BadBaseURL | BadRequest | BadHeaders header_error | TransportFailed | BadLocation | TooManyRedirects

type_synonym transport = "http_request \<Rightarrow> http_response option"

text \<open>\<^verbatim>\<open>http.NewRequest\<close> drops the colon of an empty port.\<close>

definition newRequest :: "string \<Rightarrow> url \<Rightarrow> header \<Rightarrow> string \<Rightarrow> http_request" where
  "newRequest meth u h body =
     \<lparr>req_method = meth, req_url = u\<lparr>url_Host := removeEmptyPort (url_Host u)\<rparr>, req_header = h, req_body = body\<rparr>"

text \<open>The meth of the next request and whether the body goes along. The bodies here can always be read again.\<close>

definition redirectBehavior :: "string \<Rightarrow> int \<Rightarrow> (string \<times> bool) option" where
  "redirectBehavior meth status =
     (if status \<in> {301, 302, 303} then Some (if meth \<noteq> ''GET'' \<and> meth \<noteq> ''HEAD'' then ''GET'' else meth, False)
      else if status \<in> {307, 308} then Some (meth, True)
      else None)"

definition strippedHeaders :: "string list" where
  "strippedHeaders =
     [''Authorization'', ''Www-Authenticate'', ''Cookie'', ''Cookie2'', ''Proxy-Authorization'', ''Proxy-Authenticate'']"

definition bodyHeaders :: "string list" where
  "bodyHeaders = [''Content-Encoding'', ''Content-Language'', ''Content-Location'', ''Content-Type'']"

definition keptHeaders :: "bool \<Rightarrow> bool \<Rightarrow> header \<Rightarrow> header" where
  "keptHeaders strip stripBody h =
     filter (\<lambda>(k, vs). \<not> (strip \<and> canonicalHeaderKey k \<in> set strippedHeaders) \<and>
                       \<not> (stripBody \<and> canonicalHeaderKey k \<in> set bodyHeaders)) h"

definition refererForURL :: "url \<Rightarrow> url \<Rightarrow> string \<Rightarrow> string" where
  "refererForURL lastURL newURL explicit =
     (if url_Scheme lastURL = ''https'' \<and> url_Scheme newURL = ''http'' then []
      else if explicit \<noteq> [] then explicit
      else renderURL (lastURL\<lparr>url_User := None\<rparr>))"

text \<open>The request that follows a redirect: its headers are those of the first request of all.\<close>

definition redirectRequest :: "http_request \<Rightarrow> bool \<Rightarrow> bool \<Rightarrow> url \<Rightarrow> string \<Rightarrow> url \<Rightarrow> http_request" where
  "redirectRequest ireq strip includeBody lastURL meth u =
     (let h = keptHeaders strip (\<not> includeBody) (req_header ireq);
          ref = refererForURL lastURL u (headerGet h ''Referer'')
      in \<lparr>req_method = meth, req_url = u,
          req_header = (if ref \<noteq> [] then headerSet ''Referer'' ref h else h),
          req_body = (if includeBody then req_body ireq else [])\<rparr>)"

text \<open>Whether a response is the last one, and otherwise the next request with the flags of the loop.\<close>

datatype hop = Final "upstream_error + http_response" | Follow http_request bool bool

definition clientHop :: "transport \<Rightarrow> http_request \<Rightarrow> bool \<Rightarrow> bool \<Rightarrow> http_request \<Rightarrow> hop" where
  "clientHop send ireq strip includeBody req =
     (case send req of
        None \<Rightarrow> Final (Inl TransportFailed)
      | Some resp \<Rightarrow>
          (case redirectBehavior (req_method req) (resp_status resp) of
             None \<Rightarrow> Final (Inr resp)
           | Some (meth, keepBody) \<Rightarrow>
               let loc = headerGet (resp_header resp) ''Location'' in
               if loc = [] then Final (Inr resp)
               else
                 (case parseReference (req_url req) loc of
                    None \<Rightarrow> Final (Inl BadLocation)
                  | Some u \<Rightarrow>
                      let includeBody' = (includeBody \<and> keepBody);
                          strip' = (strip \<or>
                            url_Host (req_url ireq) \<noteq> url_Host u \<and>
                            \<not> isDomainOrSubdomain (hostname (url_Host u)) (hostname (url_Host (req_url ireq))))
                      in Follow (redirectRequest ireq strip' includeBody' (req_url req) meth u) strip' includeBody')))"

fun followRedirects ::
    "transport \<Rightarrow> http_request \<Rightarrow> nat \<Rightarrow> bool \<Rightarrow> bool \<Rightarrow> http_request \<Rightarrow> http_request list \<times> (upstream_error + http_response)" where
  "followRedirects send ireq n strip includeBody req =
     (case clientHop send ireq strip includeBody req of
        Final r \<Rightarrow> ([req], r)
      | Follow req' strip' includeBody' \<Rightarrow>
          (case n of
             0 \<Rightarrow> ([req], Inl TooManyRedirects)
           | Suc m \<Rightarrow>
               (case followRedirects send ireq m strip' includeBody' req' of (reqs, r) \<Rightarrow> (req # reqs, r))))"

declare followRedirects.simps [simp del]

definition maxRequests :: nat where
  "maxRequests = 10"

definition clientDo :: "transport \<Rightarrow> http_request \<Rightarrow> http_request list \<times> (upstream_error + http_response)" where
  "clientDo send req = followRedirects send req (maxRequests - 1) False True req"

section \<open>Where the requests go\<close>

text \<open>A request that the answer to another one redirects to.\<close>

definition redirectedTo :: "transport \<Rightarrow> http_request \<Rightarrow> http_request \<Rightarrow> bool" where
  "redirectedTo send r r' \<longleftrightarrow>
     (\<exists>resp. send r = Some resp \<and> redirectBehavior (req_method r) (resp_status resp) \<noteq> None \<and>
             parseReference (req_url r) (headerGet (resp_header resp) ''Location'') = Some (req_url r'))"

lemma domain_refl [simp]: "isDomainOrSubdomain h h"
  by (simp add: isDomainOrSubdomain_def)

lemma clientHop_Follow:
  assumes "clientHop send ireq strip includeBody req = Follow req' strip' includeBody'"
  shows "redirectedTo send req req'" and "strip \<Longrightarrow> strip'"
    and "\<not> strip' \<Longrightarrow> isDomainOrSubdomain (hostname (url_Host (req_url req'))) (hostname (url_Host (req_url ireq)))"
    and "strip' \<Longrightarrow> headerValues (req_header req') ''Authorization'' = []"
proof -
  obtain resp meth keepBody u where h: "send req = Some resp"
    "redirectBehavior (req_method req) (resp_status resp) = Some (meth, keepBody)"
    "parseReference (req_url req) (headerGet (resp_header resp) ''Location'') = Some u"
    "strip' = (strip \<or> url_Host (req_url ireq) \<noteq> url_Host u \<and>
       \<not> isDomainOrSubdomain (hostname (url_Host u)) (hostname (url_Host (req_url ireq))))"
    "req' = redirectRequest ireq strip' includeBody' (req_url req) meth u"
  proof -
    obtain resp where 1: "send req = Some resp" using assms by (cases "send req") (simp_all add: clientHop_def)
    then obtain meth keepBody where 2: "redirectBehavior (req_method req) (resp_status resp) = Some (meth, keepBody)"
      using assms by (cases "redirectBehavior (req_method req) (resp_status resp)") (auto simp: clientHop_def)
    let ?loc = "headerGet (resp_header resp) ''Location''"
    have 3: "?loc \<noteq> []" using assms 1 2 by (auto simp: clientHop_def)
    then obtain u where 4: "parseReference (req_url req) ?loc = Some u"
      using assms 1 2 by (cases "parseReference (req_url req) ?loc") (auto simp: clientHop_def)
    let ?strip = "strip \<or> url_Host (req_url ireq) \<noteq> url_Host u \<and>
        \<not> isDomainOrSubdomain (hostname (url_Host u)) (hostname (url_Host (req_url ireq)))"
    have "Follow req' strip' includeBody' =
        Follow (redirectRequest ireq ?strip (includeBody \<and> keepBody) (req_url req) meth u) ?strip (includeBody \<and> keepBody)"
      unfolding assms [symmetric] using 1 2 3 4 by (simp add: clientHop_def Let_def)
    then have "strip' = ?strip" "includeBody' = (includeBody \<and> keepBody)"
      "req' = redirectRequest ireq ?strip (includeBody \<and> keepBody) (req_url req) meth u" by (simp_all only: hop.inject)
    then show thesis by (intro that [OF 1 2 4]) (simp_all only:)
  qed
  then have u: "req_url req' = u" by (simp add: redirectRequest_def Let_def)
  with h show "redirectedTo send req req'" by (auto simp: redirectedTo_def)
  show "strip \<Longrightarrow> strip'" using h(4) by simp
  show "\<not> strip' \<Longrightarrow> isDomainOrSubdomain (hostname (url_Host (req_url req'))) (hostname (url_Host (req_url ireq)))"
    using h(4) u domain_refl by metis
  have auth: "canonicalHeaderKey ''Authorization'' = ''Authorization''" "canonicalHeaderKey ''Referer'' = ''Referer''" by code_simp+
  have "map_of (keptHeaders True b h) ''Authorization'' = None" for b h
    by (auto simp: keptHeaders_def map_of_eq_None_iff auth strippedHeaders_def)
  then show "strip' \<Longrightarrow> headerValues (req_header req') ''Authorization'' = []"
    unfolding h(5) redirectRequest_def Let_def by (simp add: headerValues_def headerSet_def update_conv auth)
qed

lemma followRedirects_first: "\<exists>reqs. fst (followRedirects send ireq n strip includeBody req) = req # reqs"
  by (subst followRedirects.simps) (auto split: hop.split nat.split prod.split)

lemma followRedirects_trail:
  assumes "\<not> strip \<Longrightarrow> isDomainOrSubdomain (hostname (url_Host (req_url req))) (hostname (url_Host (req_url ireq)))"
    and "strip \<Longrightarrow> headerValues (req_header req) ''Authorization'' = []"
  shows "successively (redirectedTo send) (fst (followRedirects send ireq n strip includeBody req)) \<and>
         length (fst (followRedirects send ireq n strip includeBody req)) \<le> Suc n \<and>
         (\<forall>r \<in> set (fst (followRedirects send ireq n strip includeBody req)).
            headerValues (req_header r) ''Authorization'' \<noteq> [] \<longrightarrow>
            isDomainOrSubdomain (hostname (url_Host (req_url r))) (hostname (url_Host (req_url ireq))))"
  using assms
proof (induction n arbitrary: strip includeBody req)
  case 0
  then show ?case by (subst (1 2 3) followRedirects.simps) (auto split: hop.splits)
next
  case (Suc n)
  show ?case
  proof (cases "clientHop send ireq strip includeBody req")
    case (Final r)
    with Suc.prems show ?thesis by (subst (1 2 3) followRedirects.simps) auto
  next
    case (Follow req' strip' includeBody')
    note step = clientHop_Follow [OF Follow]
    obtain reqs where first: "fst (followRedirects send ireq n strip' includeBody' req') = req' # reqs"
      using followRedirects_first by blast
    have "fst (followRedirects send ireq (Suc n) strip includeBody req) = req # req' # reqs"
      using Follow first by (subst followRedirects.simps) (auto split: prod.split)
    with Suc.IH [of strip' req' includeBody'] step first Suc.prems show ?thesis by auto
  qed
qed

lemma clientDo_trail:
  "\<exists>reqs. fst (clientDo send req) = req # reqs \<and> successively (redirectedTo send) (req # reqs) \<and>
     length (req # reqs) \<le> maxRequests \<and>
     (\<forall>r \<in> set (req # reqs). headerValues (req_header r) ''Authorization'' \<noteq> [] \<longrightarrow>
        isDomainOrSubdomain (hostname (url_Host (req_url r))) (hostname (url_Host (req_url req))))"
  using followRedirects_trail [of False req req send "maxRequests - 1" True]
    followRedirects_first [of send req "maxRequests - 1" False True req]
  by (auto simp: clientDo_def maxRequests_def)

text \<open>What a redirect that keeps the body keeps of the headers.\<close>

lemma keptHeaders_values:
  "canonicalHeaderKey name \<notin> set strippedHeaders \<Longrightarrow> headerValues (keptHeaders strip False h) name = headerValues h name"
proof -
  assume k: "canonicalHeaderKey name \<notin> set strippedHeaders"
  have "map_of (keptHeaders strip False h) (canonicalHeaderKey name) = map_of h (canonicalHeaderKey name)"
    by (induction h) (auto simp: keptHeaders_def k)
  then show ?thesis by (simp add: headerValues_def)
qed

lemma clientDo_redirected:
  assumes "send r = Some resp" "resp_status resp \<in> {307, 308}" "headerGet (resp_header resp) ''Location'' = loc" "loc \<noteq> []"
    and "parseReference (req_url r) loc = Some u"
  shows "\<exists>r' rs. fst (clientDo send r) = r # r' # rs \<and> req_url r' = u \<and> req_method r' = req_method r \<and> req_body r' = req_body r \<and>
           (\<forall>name. canonicalHeaderKey name \<notin> set (''Referer'' # strippedHeaders) \<longrightarrow>
              headerValues (req_header r') name = headerValues (req_header r) name)"
proof -
  have "redirectBehavior (req_method r) (resp_status resp) = Some (req_method r, True)" using assms(2) by (auto simp: redirectBehavior_def)
  with assms obtain strip where f: "clientHop send r False True r = Follow (redirectRequest r strip True (req_url r) (req_method r) u) strip True"
    by (simp add: clientHop_def Let_def)
  let ?r = "redirectRequest r strip True (req_url r) (req_method r) u"
  obtain rs where rs: "fst (followRedirects send r 8 strip True ?r) = ?r # rs" using followRedirects_first by blast
  have "fst (clientDo send r) = r # ?r # rs"
    using f rs unfolding clientDo_def maxRequests_def
    by (subst followRedirects.simps) (simp add: case_prod_unfold numeral_eq_Suc)
  moreover have "canonicalHeaderKey ''Referer'' = ''Referer''" by code_simp
  then have "headerValues (req_header ?r) name = headerValues (req_header r) name"
    if "canonicalHeaderKey name \<notin> set (''Referer'' # strippedHeaders)" for name
    using that by (auto simp: redirectRequest_def Let_def keptHeaders_values)
  ultimately show ?thesis by (intro exI [of _ ?r] exI [of _ rs]) (simp add: redirectRequest_def Let_def)
qed

text \<open>A response that is no redirect is the result.\<close>

lemma clientDo_final:
  "send req = Some resp \<Longrightarrow> redirectBehavior (req_method req) (resp_status resp) = None \<Longrightarrow> clientDo send req = ([req], Inr resp)"
  by (simp add: clientDo_def followRedirects.simps [of send req] clientHop_def)

lemma clientDo_failed: "send req = None \<Longrightarrow> clientDo send req = ([req], Inl TransportFailed)"
  by (simp add: clientDo_def followRedirects.simps [of send req] clientHop_def)

end
