(* ===== verification/Upstream.thy ===== *)
theory Upstream
  imports GoHttp
begin

text \<open>
  Requests to providers (\<^verbatim>\<open>gateway.go\<close>: \<^verbatim>\<open>upstreamURL\<close>, \<^verbatim>\<open>doUpstreamRequest\<close>). \<^verbatim>\<open>http.NewRequest\<close>
  parses the target again. The network is an argument: what a server answers to one request. The
  functions give the requests that were put on the network beside their result, since
  \<^verbatim>\<open>http.Client.Do\<close> follows redirects.
\<close>

section \<open>Package path\<close>

text \<open>
  \<^verbatim>\<open>path.Clean\<close> by elements: empty elements and dots go, a double dot removes the element before
  it, and is kept at the beginning of a path that is not rooted.
\<close>

fun cleanElems :: "bool \<Rightarrow> string list \<Rightarrow> string list \<Rightarrow> string list" where
  "cleanElems rooted out [] = rev out"
| "cleanElems rooted out (e # es) =
     (if e = [] \<or> e = ''.'' then cleanElems rooted out es
      else if e = ''..'' then
        (case out of
           [] \<Rightarrow> cleanElems rooted (if rooted then [] else [e]) es
         | x # xs \<Rightarrow> if x = ''..'' then cleanElems rooted (e # out) es else cleanElems rooted xs es)
      else cleanElems rooted (e # out) es)"

definition pathClean :: "string \<Rightarrow> string" where
  "pathClean p =
     (if p = [] then ''.''
      else
        let rooted = hasPrefix p ''/'';
            body = joinWith ''/'' (cleanElems rooted [] (splitOn (CHR ''/'') p))
        in if rooted then ''/'' @ body else if body = [] then ''.'' else body)"

definition pathJoin :: "string list \<Rightarrow> string" where
  "pathJoin elems =
     (let es = filter (\<lambda>e. e \<noteq> []) elems in if es = [] then [] else pathClean (joinWith ''/'' es))"

section \<open>Provider requests\<close>

definition upstreamURL :: "string \<Rightarrow> string \<Rightarrow> string \<Rightarrow> string option" where
  "upstreamURL base incomingPath incomingRawQuery =
     (case parseURL base of
        None \<Rightarrow> None
      | Some u \<Rightarrow>
          let rel = trimPrefix incomingPath ''/v1/'' in
          Some (renderURL
            (u\<lparr>url_Path := pathJoin [trimSuffix (url_Path u) ''/'', rel], url_RawQuery := incomingRawQuery\<rparr>)))"

text \<open>The incoming request as far as it is used: its path, raw query and headers.\<close>

definition doUpstreamRequest ::
    "(string \<Rightarrow> string) \<Rightarrow> transport \<Rightarrow> string \<Rightarrow> string \<Rightarrow> header \<Rightarrow> providerConfig \<Rightarrow> string
     \<Rightarrow> http_request list \<times> (upstream_error + http_response)" where
  "doUpstreamRequest getenv send path query h provider body =
     (case upstreamURL (prov_baseURL provider) path query of
        None \<Rightarrow> ([], Inl BadBaseURL)
      | Some target \<Rightarrow>
          (case parseURL target of
             None \<Rightarrow> ([], Inl BadRequest)
           | Some u \<Rightarrow>
               (case upstreamHeaders getenv h provider of
                  Inl e \<Rightarrow> ([], Inl (BadHeaders e))
                | Inr hs \<Rightarrow> clientDo send (newRequest ''POST'' u hs body))))"

text \<open>
  The request for a provider's model list, which discovery and readiness share: no body, no client
  headers, the provider's credentials.
\<close>

definition modelsRequest ::
    "(string \<Rightarrow> string) \<Rightarrow> transport \<Rightarrow> providerConfig \<Rightarrow> http_request list \<times> (upstream_error + http_response)" where
  "modelsRequest getenv send provider =
     (case upstreamURL (prov_baseURL provider) ''/v1/models'' [] of
        None \<Rightarrow> ([], Inl BadBaseURL)
      | Some target \<Rightarrow>
          (case parseURL target of
             None \<Rightarrow> ([], Inl BadRequest)
           | Some u \<Rightarrow>
               (case applyProviderHeaders getenv [] provider of
                  Inl e \<Rightarrow> ([], Inl (BadHeaders e))
                | Inr hs \<Rightarrow> clientDo send (newRequest ''GET'' u hs []))))"

section \<open>Where a request goes\<close>

definition plainElem :: "string \<Rightarrow> bool" where
  "plainElem e \<longleftrightarrow> e \<noteq> [] \<and> e \<noteq> ''.'' \<and> e \<noteq> ''..'' \<and> CHR ''/'' \<notin> set e"

lemma cleanElems_plain: "list_all plainElem es \<Longrightarrow> cleanElems rooted out es = rev out @ es"
  by (induction es arbitrary: out) (auto simp: plainElem_def)

text \<open>A path with plain elements, below the root.\<close>

definition rootedPath :: "string list \<Rightarrow> string" where
  "rootedPath es = concat (map (\<lambda>e. ''/'' @ e) es)"

lemma rootedPath_joinWith: "es \<noteq> [] \<Longrightarrow> rootedPath es = joinWith ''/'' ([] # es)"
proof (induction es)
  case (Cons e es)
  then show ?case by (cases "es = []") (auto simp: rootedPath_def joinWith_Cons)
qed simp

lemma rootedPath_append: "rootedPath (es @ fs) = rootedPath es @ rootedPath fs"
  by (simp add: rootedPath_def)

lemma pathClean_rooted:
  assumes "list_all plainElem es" and "es \<noteq> []"
  shows "pathClean (rootedPath es) = rootedPath es"
proof -
  have r: "rootedPath es = ''/'' @ joinWith ''/'' es"
    using assms(2) by (simp add: rootedPath_joinWith joinWith_Cons)
  have s: "splitOn (CHR ''/'') (rootedPath es) = [] # es"
    unfolding rootedPath_joinWith [OF assms(2)]
    using assms by (intro splitOn_joinWith) (auto simp: list_all_iff plainElem_def)
  show ?thesis
    using cleanElems_plain [OF assms(1), of True "[]"] s r by (simp add: pathClean_def Let_def)
qed

lemma pathClean_relative:
  assumes "list_all plainElem es" and "es \<noteq> []"
  shows "pathClean (joinWith ''/'' es) = joinWith ''/'' es"
proof -
  obtain e fs where es: "es = e # fs" using assms(2) by (cases es) auto
  then obtain c cs where c: "e = c # cs" "c \<noteq> CHR ''/''"
    using assms(1) by (cases e) (auto simp: plainElem_def)
  have j: "\<exists>r. joinWith ''/'' es = c # r" using c(1) es by (cases fs) auto
  have "splitOn (CHR ''/'') (joinWith ''/'' es) = es"
    using assms by (auto simp: list_all_iff plainElem_def intro!: splitOn_joinWith)
  with j c(2) assms(1) show ?thesis by (auto simp: pathClean_def Let_def cleanElems_plain)
qed

lemma rootedPath_last: "list_all plainElem es \<Longrightarrow> es \<noteq> [] \<Longrightarrow> last (rootedPath es) \<noteq> CHR ''/''"
proof (induction es rule: rev_induct)
  case (snoc e es)
  then have "e \<noteq> []" "CHR ''/'' \<notin> set e" by (auto simp: plainElem_def)
  then have "last e \<noteq> CHR ''/''" using last_in_set by metis
  with \<open>e \<noteq> []\<close> show ?case by (simp add: rootedPath_def)
qed simp

lemma hasSuffix_char: "hasSuffix p [c] \<longleftrightarrow> p \<noteq> [] \<and> last p = c"
  by (cases p rule: rev_cases) (auto simp: hasSuffix_def)

lemma trimSuffix_rooted:
  assumes "list_all plainElem es" and "p = rootedPath es \<or> p = rootedPath es @ ''/''"
  shows "trimSuffix p ''/'' = rootedPath es"
proof (cases "p = rootedPath es")
  case True
  then have "\<not> hasSuffix p ''/''"
    using rootedPath_last [OF assms(1)] by (cases "es = []") (auto simp: hasSuffix_char rootedPath_def)
  with True show ?thesis by (simp add: trimSuffix_def)
next
  case False
  with assms(2) show ?thesis by (simp add: trimSuffix_def hasSuffix_def)
qed

lemma pathJoin_plain:
  assumes "list_all plainElem es" and "list_all plainElem op" and "op \<noteq> []"
  shows "slashedPath (pathJoin [rootedPath es, joinWith ''/'' op]) = rootedPath (es @ op)"
proof -
  obtain e fs where op: "op = e # fs" "e \<noteq> []" "CHR ''/'' \<notin> set e" using assms(2,3) by (cases op) (auto simp: plainElem_def)
  then have ne: "joinWith ''/'' op \<noteq> []" "hd (joinWith ''/'' op) \<noteq> CHR ''/''"
    by (cases fs; cases e; auto)+
  show ?thesis
  proof (cases "es = []")
    case True
    then show ?thesis
      using ne pathClean_relative [OF assms(2,3)] rootedPath_joinWith [OF assms(3)] assms(3)
      by (simp add: pathJoin_def slashedPath_def joinWith_Cons rootedPath_append) (simp add: rootedPath_def)
  next
    case False
    then obtain r where r: "rootedPath es = CHR ''/'' # r" by (cases es) (auto simp: rootedPath_def)
    moreover have "rootedPath es @ ''/'' @ joinWith ''/'' op = rootedPath (es @ op)"
      using assms(3) by (simp add: rootedPath_append rootedPath_joinWith [of op] joinWith_Cons)
    ultimately show ?thesis
      using ne assms pathClean_rooted [of "es @ op"] by (simp add: pathJoin_def slashedPath_def rootedPath_append)
  qed
qed

text \<open>What the HTTP client makes of a target, for whatever path and query the client sent.\<close>

lemma upstream_target:
  assumes "parseURL base = Some u" "url_Scheme u \<noteq> []" "url_Host u \<noteq> []"
    and "upstreamURL base path query = Some target" "parseURL target = Some v"
  shows "url_Scheme v = url_Scheme u \<and> url_User v = url_User u \<and> url_Host v = url_Host u \<and>
         url_Path v = slashedPath (pathJoin [trimSuffix (url_Path u) ''/'', trimPrefix path ''/v1/'']) \<and>
         url_RawQuery v = takeWhile (\<lambda>c. c \<noteq> CHR ''#'') query"
proof -
  let ?u = "u\<lparr>url_Path := pathJoin [trimSuffix (url_Path u) ''/'', trimPrefix path ''/v1/''], url_RawQuery := query\<rparr>"
  have "target = renderURL ?u" using assms(1,4) by (simp add: upstreamURL_def)
  with assms(5) parsed_hostURL [OF assms(1-3)] parse_rendered [of ?u v] show ?thesis by (simp add: hostURL_def)
qed

text \<open>A request for scheme, user, host and port of the provider's base URL; an empty port is dropped.\<close>

definition providerHost :: "providerConfig \<Rightarrow> string" where
  "providerHost provider = (case parseURL (prov_baseURL provider) of Some u \<Rightarrow> removeEmptyPort (url_Host u) | None \<Rightarrow> [])"

definition addressedTo :: "providerConfig \<Rightarrow> http_request \<Rightarrow> bool" where
  "addressedTo provider r \<longleftrightarrow>
     (\<exists>u. parseURL (prov_baseURL provider) = Some u \<and>
          url_Scheme (req_url r) = url_Scheme u \<and> url_User (req_url r) = url_User u \<and> url_Host (req_url r) = providerHost provider)"

lemma target_addressed:
  assumes "validProvider provider" "upstreamURL (prov_baseURL provider) path query = Some target" "parseURL target = Some v"
  shows "addressedTo provider (newRequest method v h body)"
proof -
  obtain u where u: "parseURL (prov_baseURL provider) = Some u" "url_Scheme u \<noteq> []" "url_Host u \<noteq> []"
    using assms(1) unfolding validProvider_def by blast
  from upstream_target [OF u assms(2,3)] u(1) show ?thesis by (simp add: addressedTo_def providerHost_def newRequest_def)
qed

text \<open>
  What the requests of one call look like: the first goes to the provider, each further one where the
  answer to the one before it redirects to, there are at most ten, and none but those for the provider's
  host name or a subdomain of it carry an \<^verbatim>\<open>Authorization\<close> header.
\<close>

definition providerTrail :: "transport \<Rightarrow> providerConfig \<Rightarrow> http_request list \<Rightarrow> bool" where
  "providerTrail send provider reqs \<longleftrightarrow>
     (reqs \<noteq> [] \<longrightarrow> addressedTo provider (hd reqs)) \<and> successively (redirectedTo send) reqs \<and> length reqs \<le> 10 \<and>
     (\<forall>r \<in> set reqs. headerValues (req_header r) ''Authorization'' \<noteq> [] \<longrightarrow>
        isDomainOrSubdomain (hostname (url_Host (req_url r))) (hostname (providerHost provider)))"

lemma clientDo_providerTrail: "addressedTo provider r \<Longrightarrow> providerTrail send provider (fst (clientDo send r))"
  using clientDo_trail [of send r] by (auto simp: providerTrail_def addressedTo_def maxRequests_def)

lemma providerTrail_Nil [simp]: "providerTrail send provider []"
  by (simp add: providerTrail_def)


text \<open>A provider that redirects everything to another host.\<close>

definition redirecting :: transport where
  "redirecting r =
     Some \<lparr>resp_status = (if url_Host (req_url r) = ''evil'' then 200 else 307),
           resp_header = [(''Location'', [''http://evil/''])], resp_reads = [], resp_readFails = False\<rparr>"

lemma redirect_examples:
  "map (\<lambda>r. (url_Host (req_url r), headerValues (req_header r) ''Authorization'', headerValues (req_header r) ''X-Api-Key'', req_body r))
     (fst (doUpstreamRequest (\<lambda>_. ''secret'') redirecting ''/v1/../../evil'' ''@evil/'' []
        (exampleProvider\<lparr>prov_apiKeyEnv := ''KEY'', prov_headers := [(''X-Api-Key'', ''secret'')]\<rparr>) ''{}'')) =
   [(''localhost:9999'', [''Bearer secret''], [''secret''], ''{}''), (''evil'', [], [''secret''], ''{}'')]"
  by code_simp


text \<open>
  Claim C37. What a provider is sent can reach another host: when the answer to a request is a redirect with status 307 or 308,
  the request is repeated at the place it names, whatever host that is, with the whole body of the client and with
  every header but the few that \<^verbatim>\<open>net/http\<close> knows to be sensitive, so that a key configured under another name than
  \<^verbatim>\<open>Authorization\<close> goes along.
\<close>

theorem redirect_repeats_request:
  assumes "fst (doUpstreamRequest getenv send path query h provider body) = r # rs"
    and "send r = Some resp" "resp_status resp \<in> {307, 308}"
    and "headerGet (resp_header resp) ''Location'' = loc" "loc \<noteq> []" "parseReference (req_url r) loc = Some u"
  shows "\<exists>r' rs'. rs = r' # rs' \<and> req_url r' = u \<and> req_body r' = body \<and>
           (\<forall>name. canonicalHeaderKey name \<notin> set (''Referer'' # strippedHeaders) \<longrightarrow>
              headerValues (req_header r') name = headerValues (req_header r) name)"
proof -
  obtain v hs where "doUpstreamRequest getenv send path query h provider body = clientDo send (newRequest ''POST'' v hs body)"
    using assms(1) by (auto simp: doUpstreamRequest_def split: option.splits sum.splits)
  moreover from this have "r = newRequest ''POST'' v hs body"
    using assms(1) clientDo_trail [of send "newRequest ''POST'' v hs body"] by auto
  ultimately show ?thesis
    using assms(1) clientDo_redirected [where send = send and r = r, OF assms(2-6)] by (auto simp: newRequest_def)
qed

theorem redirect_repeats_request_witness:
  "\<exists>r r'. fst (doUpstreamRequest (\<lambda>_. ''secret'') redirecting ''/v1/chat/completions'' [] []
           (exampleProvider\<lparr>prov_headers := [(''X-Api-Key'', ''secret'')]\<rparr>) ''{}'') = [r, r'] \<and>
     url_Host (req_url r') = ''evil'' \<and> req_body r' = ''{}'' \<and>
     headerValues (req_header r') ''X-Api-Key'' = headerValues (req_header r) ''X-Api-Key''"
proof -
  let ?p = "exampleProvider\<lparr>prov_headers := [(''X-Api-Key'', ''secret'')]\<rparr>"
  let ?c = "doUpstreamRequest (\<lambda>_. ''secret'') redirecting ''/v1/chat/completions'' [] [] ?p ''{}''"
  have e: "map (\<lambda>r. url_Host (req_url r)) (fst ?c) = [''localhost:9999'', ''evil'']"
    "parseReference (req_url (fst ?c ! 0)) ''http://evil/'' \<noteq> None"
    "canonicalHeaderKey ''X-Api-Key'' \<notin> set (''Referer'' # strippedHeaders)"
    "headerGet [(''Location'', [''http://evil/''])] ''Location'' = ''http://evil/''"
    by code_simp+
  then obtain r r' where c: "fst ?c = [r, r']" "url_Host (req_url r) = ''localhost:9999''" "url_Host (req_url r') = ''evil''" by auto
  then obtain u where u: "parseReference (req_url r) ''http://evil/'' = Some u" using e(2) by auto
  obtain resp where "redirecting r = Some resp" "resp_status resp \<in> {307, 308}" "headerGet (resp_header resp) ''Location'' = ''http://evil/''"
    using c(2) e(4) by (simp add: redirecting_def)
  from redirect_repeats_request [where send = redirecting and r = r, OF c(1) this _ u] e(3) c show ?thesis by auto
qed

text \<open>
  A request goes where the operator configured it to: scheme and host of the base URL,
  its path with or without a trailing slash, followed by the operation of the incoming route, and
  the client's query up to a number sign.
\<close>

lemma upstream_url_below_base:
  assumes "parseURL base = Some u" "url_Scheme u \<noteq> []" "url_Host u \<noteq> []"
    and "url_Path u = rootedPath es \<or> url_Path u = rootedPath es @ ''/''"
    and "list_all plainElem es" "list_all plainElem op" "op \<noteq> []"
    and "upstreamURL base (''/v1/'' @ joinWith ''/'' op) query = Some target" "parseURL target = Some v"
  shows "url_Scheme v = url_Scheme u \<and> url_Host v = url_Host u \<and> url_Path v = rootedPath (es @ op) \<and>
         url_RawQuery v = takeWhile (\<lambda>c. c \<noteq> CHR ''#'') query"
  using upstream_target [OF assms(1-3,8,9), unfolded trimPrefix_append]
    trimSuffix_rooted [OF assms(5,4)] pathJoin_plain [OF assms(5,6,7)] by simp

lemma upstream_url_below_base_example:
  "\<exists>v. parseURL ''http://localhost:9999/v1/chat/completions?a=b'' = Some v \<and> url_Host v = ''localhost:9999'' \<and>
       url_Path v = ''/v1/chat/completions'' \<and> url_RawQuery v = ''a=b''"
proof -
  let ?target = "''http://localhost:9999/v1/chat/completions?a=b''"
  have "upstreamURL ''http://localhost:9999/v1'' ''/v1/chat/completions'' ''a=b'' = Some ?target" by code_simp
  moreover obtain v where v: "parseURL ?target = Some v"
  proof -
    have "parseURL ?target \<noteq> None" by code_simp
    then show thesis using that by blast
  qed
  ultimately show ?thesis
    using upstream_url_below_base [OF exampleURL_parsed, of "[''v1'']" "[''chat'', ''completions'']" "''a=b''" ?target v] v
    by (simp add: exampleURL_def rootedPath_def plainElem_def)
qed

lemma example_targets [simp]:
  "upstreamURL ''http://localhost:9999/v1'' ''/v1/models'' [] = Some ''http://localhost:9999/v1/models''"
  "upstreamURL ''http://localhost:9999/v1'' ''/v1/chat/completions'' [] = Some ''http://localhost:9999/v1/chat/completions''"
  by code_simp+

lemma example_targets_parsed:
  "parseURL ''http://localhost:9999/v1/models'' =
     Some (emptyURL\<lparr>url_Scheme := ''http'', url_Host := ''localhost:9999'', url_Path := ''/v1/models''\<rparr>)"
  "parseURL ''http://localhost:9999/v1/chat/completions'' =
     Some (emptyURL\<lparr>url_Scheme := ''http'', url_Host := ''localhost:9999'', url_Path := ''/v1/chat/completions''\<rparr>)"
  by code_simp+

end
