(* ===== verification/Usage.thy ===== *)
theory Usage
  imports JsonNumber "HOL-Library.Product_Lexorder"
begin

text \<open>
  Usage accounting (\<^verbatim>\<open>internal/gateway/usage.go\<close>): the token counts found in a response body, and the
  two SQLite tables they are added to.

  Decoding the tree into the Go structs of \<^verbatim>\<open>extractUsage\<close> follows
  \<^verbatim>\<open>encoding/json\<close>: members are matched by name without regard to case, a later member overwrites
  an earlier one, \<^verbatim>\<open>null\<close> changes nothing, and a member of the wrong type makes the whole decoding
  fail. The counters are 64-bit words in Go.

  The SQL statements are functions on the tables; a transaction works on a copy that \<^verbatim>\<open>Commit\<close>
  publishes. What can fail (opening, a statement, the commit) is an argument. Table columns are
  integers; SQLite's 64-bit bound on a sum is not modelled.
\<close>

section \<open>Token counts in a response\<close>

text \<open>
  The fold under which member names are compared: ASCII letters, and the two other runes whose
  simple case folding is an ASCII letter (long s and the Kelvin sign).
\<close>

fun foldName :: "string \<Rightarrow> string" where
  "foldName [] = []"
| "foldName (c # cs) =
     (if c = CHR 0xC5 \<and> hasPrefix cs [CHR 0xBF] then CHR ''s'' # foldName (drop 1 cs)
      else if c = CHR 0xE2 \<and> hasPrefix cs [CHR 0x84, CHR 0xAA] then CHR ''k'' # foldName (drop 2 cs)
      else lowerChar c # foldName cs)"

record tokenUsage =
  promptTokens :: uint64
  completionTokens :: uint64
  inputTokens :: uint64
  outputTokens :: uint64
  totalTokens :: uint64

definition noUsage :: tokenUsage where
  "noUsage = \<lparr>promptTokens = 0, completionTokens = 0, inputTokens = 0, outputTokens = 0, totalTokens = 0\<rparr>"

text \<open>\<^verbatim>\<open>strconv.ParseUint\<close> in base ten, for a number literal that is valid JSON.\<close>

definition parseUint :: "string \<Rightarrow> uint64 option" where
  "parseUint s =
     (if s \<noteq> [] \<and> list_all isDigit s then
        let n = foldl (\<lambda>n c. 10 * n + digitVal c) 0 s in if n < 2 ^ 64 then Some (of_nat n) else None
      else None)"

text \<open>Storing one member: the new value of the field and whether the member was of the right type.\<close>

definition storeUint :: "json \<Rightarrow> uint64 \<Rightarrow> uint64 \<times> bool" where
  "storeUint v old =
     (case v of
        JNull \<Rightarrow> (old, True)
      | JNum lit \<Rightarrow> (case parseUint lit of Some n \<Rightarrow> (n, True) | None \<Rightarrow> (old, False))
      | _ \<Rightarrow> (old, False))"

definition storeMember :: "string \<times> json \<Rightarrow> tokenUsage \<times> bool \<Rightarrow> tokenUsage \<times> bool" where
  "storeMember kv r =
     (case kv of (key, v) \<Rightarrow> case r of (u, ok) \<Rightarrow>
        let k = foldName key in
        if k = ''prompt_tokens'' then
          (case storeUint v (promptTokens u) of (n, ok') \<Rightarrow> (u\<lparr>promptTokens := n\<rparr>, ok \<and> ok'))
        else if k = ''completion_tokens'' then
          (case storeUint v (completionTokens u) of (n, ok') \<Rightarrow> (u\<lparr>completionTokens := n\<rparr>, ok \<and> ok'))
        else if k = ''input_tokens'' then
          (case storeUint v (inputTokens u) of (n, ok') \<Rightarrow> (u\<lparr>inputTokens := n\<rparr>, ok \<and> ok'))
        else if k = ''output_tokens'' then
          (case storeUint v (outputTokens u) of (n, ok') \<Rightarrow> (u\<lparr>outputTokens := n\<rparr>, ok \<and> ok'))
        else if k = ''total_tokens'' then
          (case storeUint v (totalTokens u) of (n, ok') \<Rightarrow> (u\<lparr>totalTokens := n\<rparr>, ok \<and> ok'))
        else (u, ok))"

text \<open>The \<^verbatim>\<open>usage\<close> member of the envelope; the raw message of the last one stays.\<close>

definition envelopeUsage :: "json \<Rightarrow> json option" where
  "envelopeUsage j =
     (case j of
        JObj kvs \<Rightarrow> map_option snd (find (\<lambda>(k, v). foldName k = ''usage'') (rev kvs))
      | _ \<Rightarrow> None)"

definition decodeUsage :: "string \<Rightarrow> tokenUsage \<Rightarrow> tokenUsage" where
  "decodeUsage data best =
     (case Option.bind (parseJSON data) envelopeUsage of
        Some (JObj kvs) \<Rightarrow> (case fold storeMember kvs (best, True) of (u, ok) \<Rightarrow> if ok then u else best)
      | _ \<Rightarrow> best)"

definition decodeLine :: "string \<Rightarrow> tokenUsage \<Rightarrow> tokenUsage" where
  "decodeLine line best =
     (let l = trimSpace line in
      if hasPrefix l ''data:'' then decodeUsage (trimSpace (trimPrefix l ''data:'')) best else best)"

definition extractUsage :: "string \<Rightarrow> uint64 \<times> uint64 \<times> uint64" where
  "extractUsage body =
     (let best = fold decodeLine (splitOn (CHR 0x0A) body) (decodeUsage body noUsage);
          inp = (if inputTokens best = 0 then promptTokens best else inputTokens best);
          out = (if outputTokens best = 0 then completionTokens best else outputTokens best);
          tot = (if totalTokens best = 0 then inp + out else totalTokens best)
      in (inp, out, tot))"

section \<open>The tables\<close>

record counters =
  requests :: int
  errors :: int
  input_tokens :: int
  output_tokens :: int
  total_tokens :: int

record modelRow =
  mu_counters :: counters
  last_request_at :: int
  last_upstream_status :: int

type_synonym dayKey = "string \<times> string \<times> string"

record usageDB =
  model_usage :: "(string \<times> modelRow) list"
  daily_usage :: "(dayKey \<times> counters) list"

definition addCounters :: "counters \<Rightarrow> counters \<Rightarrow> counters" where
  "addCounters a b =
     \<lparr>requests = requests a + requests b, errors = errors a + errors b,
      input_tokens = input_tokens a + input_tokens b, output_tokens = output_tokens a + output_tokens b,
      total_tokens = total_tokens a + total_tokens b\<rparr>"

definition zeroCounters :: counters where
  "zeroCounters = \<lparr>requests = 0, errors = 0, input_tokens = 0, output_tokens = 0, total_tokens = 0\<rparr>"

definition emptyDB :: usageDB where
  "emptyDB = \<lparr>model_usage = [], daily_usage = []\<rparr>"

text \<open>The two upserts.\<close>

definition upsertModel :: "string \<Rightarrow> counters \<Rightarrow> int \<Rightarrow> int \<Rightarrow> usageDB \<Rightarrow> usageDB" where
  "upsertModel model inc stamp status db =
     db\<lparr>model_usage :=
       AList.map_default model \<lparr>mu_counters = inc, last_request_at = stamp, last_upstream_status = status\<rparr>
         (\<lambda>row. \<lparr>mu_counters = addCounters (mu_counters row) inc, last_request_at = stamp, last_upstream_status = status\<rparr>)
         (model_usage db)\<rparr>"

definition upsertDaily :: "dayKey \<Rightarrow> counters \<Rightarrow> usageDB \<Rightarrow> usageDB" where
  "upsertDaily key inc db =
     db\<lparr>daily_usage := AList.map_default key inc (\<lambda>row. addCounters row inc) (daily_usage db)\<rparr>"

text \<open>What fails while a usage record is written.\<close>

datatype db_fault = NoFault | BeginFails | ModelExecFails | DailyExecFails | CommitFails

text \<open>
  The time of a record is its UTC day (\<^verbatim>\<open>YYYY-MM-DD\<close>) and its nanoseconds. The second component is
  the message logged on failure. \<^verbatim>\<open>database/sql\<close> refuses an argument of type \<^verbatim>\<open>uint64\<close> whose high bit is set, so
  that the first statement fails.
\<close>

definition recordAt ::
    "db_fault \<Rightarrow> string \<times> int \<Rightarrow> string \<Rightarrow> string \<Rightarrow> int \<Rightarrow> string
     \<Rightarrow> usageDB \<Rightarrow> usageDB \<times> string option" where
  "recordAt fault stamp client model status body db =
     (case extractUsage body of (inp, out, tot) \<Rightarrow>
        let errorIncrement = (if status \<ge> 400 then 1 else 0);
            inc = \<lparr>requests = 1, errors = errorIncrement, input_tokens = uint inp, output_tokens = uint out,
                   total_tokens = uint tot\<rparr>
        in if fault = BeginFails then (db, Some ''begin usage update'')
           else if fault = ModelExecFails \<or> \<not> list_all (\<lambda>n. uint n < 2 ^ 63) [inp, out, tot] then (db, Some ''persist usage'')
           else
             let tx1 = upsertModel model inc (snd stamp) status db in
             if fault = DailyExecFails then (db, Some ''persist daily usage'')
             else
               let tx2 = upsertDaily (fst stamp, client, model) inc tx1 in
               if fault = CommitFails then (db, Some ''commit usage update'') else (tx2, None))"

text \<open>
  \<^verbatim>\<open>snapshot\<close>: a failed query gives an empty report; a row that cannot be scanned is left out.
\<close>

definition snapshot :: "bool \<Rightarrow> (string \<Rightarrow> bool) \<Rightarrow> usageDB \<Rightarrow> (string \<times> modelRow) list" where
  "snapshot queryFails scanFails db =
     (if queryFails then [] else filter (\<lambda>(model, row). \<not> scanFails model) (sort_key fst (model_usage db)))"

datatype usage_error = UnsupportedPeriod string | QueryFailed

definition periodOf :: "string \<Rightarrow> string \<Rightarrow> string option" where
  "periodOf period day =
     (if period = ''day'' then Some day else if period = ''month'' then Some (take 7 day) else None)"

definition sumCounters :: "counters list \<Rightarrow> counters" where
  "sumCounters cs = foldr addCounters cs zeroCounters"

text \<open>\<open>GROUP BY period, client, model ORDER BY period, client, model\<close> over the rows of a client.\<close>

definition groupRows :: "(string \<Rightarrow> string) \<Rightarrow> (dayKey \<times> counters) list \<Rightarrow> (dayKey \<times> counters) list" where
  "groupRows f rows =
     (let keyed = map (\<lambda>((day, client, model), c). ((f day, client, model), c)) rows in
      map (\<lambda>k. (k, sumCounters (map snd (filter (\<lambda>(k', c). k' = k) keyed))))
        (sort (remdups (map fst keyed))))"

definition periodSnapshot ::
    "bool \<Rightarrow> string \<Rightarrow> string \<Rightarrow> usageDB \<Rightarrow> usage_error + (dayKey \<times> counters) list" where
  "periodSnapshot queryFails period client db =
     (if period \<noteq> ''day'' \<and> period \<noteq> ''month'' then Inl (UnsupportedPeriod period)
      else if queryFails then Inl QueryFailed
      else
        let rows = (if client \<noteq> [] then filter (\<lambda>((d, c, m), r). c = client) (daily_usage db) else daily_usage db)
        in Inr (groupRows (\<lambda>day. if period = ''day'' then day else take 7 day) rows))"

section \<open>Counters add up\<close>

lemma addCounters_zero [simp]: "addCounters zeroCounters c = c" "addCounters c zeroCounters = c"
  by (simp_all add: addCounters_def zeroCounters_def)

lemma addCounters_assoc: "addCounters (addCounters a b) c = addCounters a (addCounters b c)"
  by (simp add: addCounters_def)

lemma addCounters_commute: "addCounters a b = addCounters b a"
  by (simp add: addCounters_def)

lemma addCounters_left_commute: "addCounters a (addCounters b c) = addCounters b (addCounters a c)"
  by (simp add: addCounters_def)

lemmas addCounters_ac = addCounters_assoc addCounters_commute addCounters_left_commute

lemma sumCounters_simps [simp]:
  "sumCounters [] = zeroCounters"
  "sumCounters (c # cs) = addCounters c (sumCounters cs)"
  "sumCounters (cs @ ds) = addCounters (sumCounters cs) (sumCounters ds)"
proof -
  show append: "sumCounters (cs @ ds) = addCounters (sumCounters cs) (sumCounters ds)"
    by (induction cs) (simp_all add: sumCounters_def addCounters_assoc)
qed (simp_all add: sumCounters_def)

text \<open>The entries of a table whose key satisfies \<open>P\<close>, summed.\<close>

definition tableSum :: "('k \<Rightarrow> bool) \<Rightarrow> ('k \<times> counters) list \<Rightarrow> counters" where
  "tableSum P t = sumCounters (map snd (filter (\<lambda>(k, c). P k) t))"

lemma tableSum_simps [simp]:
  "tableSum P [] = zeroCounters"
  "tableSum P ((k, c) # t) = (if P k then addCounters c (tableSum P t) else tableSum P t)"
  by (simp_all add: tableSum_def)

lemma tableSum_upsert:
  "tableSum P (AList.map_default k inc (\<lambda>row. addCounters row inc) t) =
     (if P k then addCounters (tableSum P t) inc else tableSum P t)"
  by (induction t) (auto simp: addCounters_ac)

definition dailyTotal :: "usageDB \<Rightarrow> string \<Rightarrow> counters" where
  "dailyTotal db m = tableSum (\<lambda>(d, c, m'). m' = m) (daily_usage db)"

definition modelTotal :: "usageDB \<Rightarrow> string \<Rightarrow> counters" where
  "modelTotal db m = (case map_of (model_usage db) m of None \<Rightarrow> zeroCounters | Some r \<Rightarrow> mu_counters r)"

lemma modelTotal_upsert:
  "modelTotal (upsertModel m inc st status db) m' =
     (if m' = m then addCounters (modelTotal db m) inc else modelTotal db m')"
  by (auto simp: modelTotal_def upsertModel_def map_of_map_default split: option.split)

lemma dailyTotal_upsert:
  "dailyTotal (upsertDaily (d, c, m) inc db) m' =
     (if m' = m then addCounters (dailyTotal db m) inc else dailyTotal db m')"
  by (auto simp: dailyTotal_def upsertDaily_def tableSum_upsert)

lemma upsert_other [simp]:
  "dailyTotal (upsertModel m inc st status db) m' = dailyTotal db m'"
  "modelTotal (upsertDaily k inc db) m' = modelTotal db m'"
  by (simp_all add: dailyTotal_def modelTotal_def upsertModel_def upsertDaily_def)

text \<open>A run of records: fault, time, client, model, status and body of each.\<close>

type_synonym usage_record = "db_fault \<times> (string \<times> int) \<times> string \<times> string \<times> int \<times> string"

definition increment :: "int \<Rightarrow> string \<Rightarrow> counters" where
  "increment status body =
     (case extractUsage body of (inp, out, tot) \<Rightarrow>
        \<lparr>requests = 1, errors = (if status \<ge> 400 then 1 else 0), input_tokens = uint inp,
         output_tokens = uint out, total_tokens = uint tot\<rparr>)"

definition storable :: "string \<Rightarrow> bool" where
  "storable body = (case extractUsage body of (inp, out, tot) \<Rightarrow> uint inp < 2 ^ 63 \<and> uint out < 2 ^ 63 \<and> uint tot < 2 ^ 63)"

definition recordAll :: "usage_record list \<Rightarrow> usageDB \<Rightarrow> usageDB" where
  "recordAll rs db =
     fold (\<lambda>(f, t, c, m, st, b) db. fst (recordAt f t c m st b db)) rs db"

definition booked :: "string \<Rightarrow> usage_record list \<Rightarrow> counters" where
  "booked model rs =
     sumCounters (map (\<lambda>(f, t, c, m, st, b). increment st b)
       (filter (\<lambda>(f, t, c, m, st, b). f = NoFault \<and> storable b \<and> m = model) rs))"

lemma recordAt_cases:
  "recordAt f t c m st b db =
     (if f = NoFault \<and> storable b
      then (upsertDaily (fst t, c, m) (increment st b) (upsertModel m (increment st b) (snd t) st db), None)
      else (db, snd (recordAt f t c m st b db)))"
  by (cases f; cases t; cases "extractUsage b") (auto simp: recordAt_def increment_def storable_def Let_def)

lemma recordAt_totals:
  "modelTotal (fst (recordAt f t c m st b db)) m' =
     (if f = NoFault \<and> storable b \<and> m' = m then addCounters (modelTotal db m) (increment st b) else modelTotal db m')"
  "dailyTotal (fst (recordAt f t c m st b db)) m' =
     (if f = NoFault \<and> storable b \<and> m' = m then addCounters (dailyTotal db m) (increment st b) else dailyTotal db m')"
  by (subst recordAt_cases; simp add: modelTotal_upsert dailyTotal_upsert)+

text \<open>
  Claim C28. The ledger is exact and atomic: after any sequence of usage records, with any of their
  transactions failing at any point (at the first statement when a count does not fit 63 bits), the row of a model and the sum of its daily rows over all
  clients are both the sum of exactly the records that were committed.
\<close>

theorem usage_ledger_exact:
  "modelTotal (recordAll rs emptyDB) m = booked m rs \<and>
   dailyTotal (recordAll rs emptyDB) m = booked m rs"
proof -
  have "modelTotal (recordAll rs db) m = addCounters (modelTotal db m) (booked m rs) \<and>
        dailyTotal (recordAll rs db) m = addCounters (dailyTotal db m) (booked m rs)" for db
  proof (induction rs arbitrary: db)
    case (Cons r rs)
    obtain f t c m' st b where r: "r = (f, t, c, m', st, b)" by (metis surj_pair)
    show ?case
      using Cons.IH [of "fst (recordAt f t c m' st b db)"]
      by (auto simp: r recordAll_def booked_def recordAt_totals addCounters_ac)
  qed (simp add: recordAll_def booked_def)
  from this [of emptyDB] show ?thesis by (simp add: emptyDB_def modelTotal_def dailyTotal_def)
qed

section \<open>Reports\<close>

lemma tableSum_split:
  assumes "distinct ks" and "fst ` set t \<subseteq> set ks"
  shows "sumCounters (map (\<lambda>k. tableSum (\<lambda>k'. k' = k) t) ks) = sumCounters (map snd t)"
  using assms(2)
proof (induction t)
  case Nil
  show ?case by (induction ks) auto
next
  case (Cons x t)
  obtain k c where x: "x = (k, c)" by force
  have "sumCounters (map (\<lambda>k'. if k = k' then addCounters c (g k') else g k') ks) =
      (if k \<in> set ks then addCounters c (sumCounters (map g ks)) else sumCounters (map g ks))" for g
    using assms(1) by (induction ks) (auto simp: addCounters_ac)
  with Cons x show ?case by simp
qed

lemma tableSum_groups:
  fixes t :: "('k::linorder \<times> counters) list"
  shows "sumCounters (map (\<lambda>k. tableSum (\<lambda>k'. k' = k) t) (sort (remdups (map fst t)))) = sumCounters (map snd t)"
  by (rule tableSum_split) auto

text \<open>
  Claim C29. Period reports lose and invent nothing: the rows are in strictly increasing order of
  period, client and model, each is the sum of the daily rows of its period, client and model, and
  together they are the sum of all daily rows of the client asked for (of all clients when none
  is). In particular the monthly and the daily report of a client have the same totals.
\<close>

theorem period_report_exact:
  assumes "periodSnapshot False period client db = Inr report"
  shows "sorted_wrt (<) (map fst report) \<and>
         (\<forall>p c m r. ((p, c, m), r) \<in> set report \<longrightarrow>
            r = tableSum (\<lambda>(d, c', m'). periodOf period d = Some p \<and> c' = c \<and> m' = m) (daily_usage db)) \<and>
         sumCounters (map snd report) = tableSum (\<lambda>(d, c, m). client = [] \<or> c = client) (daily_usage db)"
proof -
  let ?f = "\<lambda>day. if period = ''day'' then day else take 7 day"
  let ?key = "\<lambda>((day, c, m), r). ((?f day, c, m), r)"
  let ?rows = "filter (\<lambda>((d, c, m), r). client = [] \<or> c = client) (daily_usage db)"
  let ?keyed = "map ?key ?rows"
  let ?ks = "sort (remdups (map fst ?keyed))"
  have p: "period = ''day'' \<or> period = ''month''" using assms by (auto simp: periodSnapshot_def split: if_splits)
  have rows: "(if client \<noteq> [] then filter (\<lambda>((d, c, m), r). c = client) (daily_usage db) else daily_usage db) = ?rows"
    by (simp add: case_prod_unfold)
  have "report = groupRows ?f ?rows"
    unfolding rows [symmetric] using assms p by (simp only: periodSnapshot_def Let_def split: if_splits) auto
  then have rep: "report = map (\<lambda>k. (k, tableSum (\<lambda>k'. k' = k) ?keyed)) ?ks"
    by (simp only: groupRows_def tableSum_def Let_def)
  have "map fst report = ?ks" by (simp add: rep comp_def)
  then have sorted: "sorted_wrt (<) (map fst report)" by (simp add: strict_sorted_iff)
  have row: "r = tableSum (\<lambda>(d, c', m'). periodOf period d = Some q \<and> c' = c \<and> m' = m) (daily_usage db)"
    if "((q, c, m), r) \<in> set report" for q c m r
  proof -
    have "c = client \<or> client = []" using that rep by auto
    then have "tableSum (\<lambda>k'. k' = (q, c, m)) (map ?key (filter (\<lambda>((d, c, m), r). client = [] \<or> c = client) t)) =
        tableSum (\<lambda>(d, c', m'). periodOf period d = Some q \<and> c' = c \<and> m' = m) t" for t
      using p by (induction t) (auto simp: periodOf_def)
    then show ?thesis using that rep by auto
  qed
  have "sumCounters (map snd report) = sumCounters (map snd ?keyed)"
  proof -
    have "map snd report = map (\<lambda>k. tableSum (\<lambda>k'. k' = k) ?keyed) ?ks" by (simp add: rep)
    moreover have "sumCounters (map (\<lambda>k. tableSum (\<lambda>k'. k' = k) ?keyed) ?ks) = sumCounters (map snd ?keyed)"
      by (rule tableSum_groups)
    ultimately show ?thesis by simp
  qed
  also have "\<dots> = tableSum (\<lambda>(d, c, m). client = [] \<or> c = client) (daily_usage db)"
    by (simp add: tableSum_def case_prod_unfold comp_def)
  finally show ?thesis by (intro conjI allI impI sorted row)
qed

text \<open>Two days of one month and another client's row.\<close>

theorem period_report_exact_witness:
  "(let one = \<lparr>requests = 1, errors = 0, input_tokens = 2, output_tokens = 3, total_tokens = 5\<rparr>;
        db = \<lparr>model_usage = [],
              daily_usage = [((''2026-07-01'', ''a'', ''m''), one), ((''2026-07-02'', ''a'', ''m''), one),
                             ((''2026-07-02'', ''b'', ''m''), one)]\<rparr>
    in \<exists>report. periodSnapshot False ''month'' ''a'' db = Inr report \<and>
         sumCounters (map snd report) = addCounters one one)"
proof -
  let ?one = "\<lparr>requests = 1, errors = 0, input_tokens = 2, output_tokens = 3, total_tokens = 5\<rparr>"
  let ?db = "\<lparr>model_usage = [], daily_usage = [((''2026-07-01'', ''a'', ''m''), ?one), ((''2026-07-02'', ''a'', ''m''), ?one),
                             ((''2026-07-02'', ''b'', ''m''), ?one)]\<rparr>"
  obtain report where r: "periodSnapshot False ''month'' ''a'' ?db = Inr report"
    by (simp add: periodSnapshot_def Let_def)
  from period_report_exact [OF r] r show ?thesis by (simp add: Let_def)
qed

section \<open>Which counts are booked\<close>

definition counterNames :: "string list" where
  "counterNames = [''prompt_tokens'', ''completion_tokens'', ''input_tokens'', ''output_tokens'', ''total_tokens'']"

definition counterOf :: "string \<Rightarrow> tokenUsage \<Rightarrow> uint64" where
  "counterOf name u =
     (if name = ''prompt_tokens'' then promptTokens u
      else if name = ''completion_tokens'' then completionTokens u
      else if name = ''input_tokens'' then inputTokens u
      else if name = ''output_tokens'' then outputTokens u
      else totalTokens u)"

text \<open>The count a member of a usage object gives for a name, and the members that do not spoil the object.\<close>

definition memberCount :: "string \<Rightarrow> string \<times> json \<Rightarrow> uint64 option" where
  "memberCount name kv =
     (if foldName (fst kv) = name then (case snd kv of JNum lit \<Rightarrow> parseUint lit | _ \<Rightarrow> None) else None)"

definition goodMember :: "string \<times> json \<Rightarrow> bool" where
  "goodMember kv \<longleftrightarrow>
     (foldName (fst kv) \<in> set counterNames \<longrightarrow> snd kv = JNull \<or> memberCount (foldName (fst kv)) kv \<noteq> None)"

lemma storeMember_count:
  "name \<in> set counterNames \<Longrightarrow>
   counterOf name (fst (storeMember kv (u, ok))) = (case memberCount name kv of Some n \<Rightarrow> n | None \<Rightarrow> counterOf name u)"
  by (cases kv; cases "snd kv")
     (auto simp: counterNames_def counterOf_def storeMember_def storeUint_def memberCount_def Let_def split: option.splits)

lemma storeMember_ok: "snd (storeMember kv (u, ok)) \<longleftrightarrow> ok \<and> goodMember kv"
  by (cases kv; cases "snd kv")
     (auto simp: counterNames_def storeMember_def storeUint_def memberCount_def goodMember_def Let_def split: option.splits)

definition lastOr :: "'a \<Rightarrow> 'a list \<Rightarrow> 'a" where
  "lastOr d xs = (if xs = [] then d else last xs)"

lemma lastOr_simps [simp]:
  "lastOr d [] = d" "lastOr d (x # xs) = lastOr x xs" "lastOr d (xs @ ys) = lastOr (lastOr d xs) ys"
  by (simp_all add: lastOr_def)

lemma storeMembers:
  assumes "name \<in> set counterNames"
  shows "snd (fold storeMember kvs (u, ok)) = (ok \<and> list_all goodMember kvs) \<and>
         counterOf name (fst (fold storeMember kvs (u, ok))) = lastOr (counterOf name u) (List.map_filter (memberCount name) kvs)"
proof (induction kvs arbitrary: u ok)
  case (Cons kv kvs)
  obtain u' ok' where s: "storeMember kv (u, ok) = (u', ok')" by force
  with storeMember_ok [of kv u ok] storeMember_count [OF assms, of kv u ok] Cons.IH [of u' ok'] show ?case
    by (auto simp: List.map_filter_def split: option.splits)
qed (simp add: List.map_filter_def)

text \<open>The usage object of one JSON text, when there is one and all its counts are of the right type.\<close>

definition usageObject :: "string \<Rightarrow> (string \<times> json) list option" where
  "usageObject data =
     (case Option.bind (parseJSON data) envelopeUsage of
        Some (JObj kvs) \<Rightarrow> if list_all goodMember kvs then Some kvs else None
      | _ \<Rightarrow> None)"

text \<open>The texts that are looked at: the whole body, and what follows \<^verbatim>\<open>data:\<close> on its lines.\<close>

definition usageTexts :: "string \<Rightarrow> string list" where
  "usageTexts body =
     body # map (\<lambda>l. trimSpace (trimPrefix l ''data:''))
              (filter (\<lambda>l. hasPrefix l ''data:'') (map trimSpace (splitOn (CHR 0x0A) body)))"

definition counts :: "string \<Rightarrow> string list \<Rightarrow> uint64 list" where
  "counts name texts = List.map_filter (memberCount name) (concat (List.map_filter usageObject texts))"

lemma counts_simps [simp]:
  "counts name [] = []"
  "counts name (t # ts) =
     (case usageObject t of None \<Rightarrow> [] | Some kvs \<Rightarrow> List.map_filter (memberCount name) kvs) @ counts name ts"
  by (simp_all add: counts_def List.map_filter_def split: option.split)

lemma decodeUsage_counts:
  assumes "name \<in> set counterNames"
  shows "counterOf name (decodeUsage data u) = lastOr (counterOf name u) (counts name [data])"
  using storeMembers [OF assms, of _ u True]
  by (auto simp: decodeUsage_def usageObject_def split: option.splits json.splits prod.splits) (metis fst_conv snd_conv)+

lemma decodeLines_counts:
  assumes "name \<in> set counterNames"
  shows "counterOf name (fold decodeLine ls u) =
    lastOr (counterOf name u)
      (counts name (map (\<lambda>l. trimSpace (trimPrefix l ''data:'')) (filter (\<lambda>l. hasPrefix l ''data:'') (map trimSpace ls))))"
proof (induction ls arbitrary: u)
  case (Cons l ls)
  show ?case
    using Cons.IH [of "decodeLine l u"] decodeUsage_counts [OF assms, of _ u]
    by (auto simp: decodeLine_def Let_def)
qed simp

text \<open>
  Claim C30. The counts that are booked for a response, whether it is one JSON text or a stream of events: of each of the
  five counters the value that is mentioned last in a usage object, in the body as a whole or in the
  events in their order, and zero when none mentions it; an object in which a counter has a value of a wrong
  type is ignored as a whole. The input count is that of \<^verbatim>\<open>input_tokens\<close>, or of \<^verbatim>\<open>prompt_tokens\<close> when
  the former is zero, the output count likewise, and the total is their sum when no other is given.
\<close>

theorem usage_counts_last_mentioned:
  "extractUsage body =
     (let v = (\<lambda>name. lastOr 0 (counts name (usageTexts body)));
          inp = (if v ''input_tokens'' = 0 then v ''prompt_tokens'' else v ''input_tokens'');
          out = (if v ''output_tokens'' = 0 then v ''completion_tokens'' else v ''output_tokens'')
      in (inp, out, if v ''total_tokens'' = 0 then inp + out else v ''total_tokens''))"
proof -
  let ?best = "fold decodeLine (splitOn (CHR 0x0A) body) (decodeUsage body noUsage)"
  have v: "counterOf name ?best = lastOr 0 (counts name (usageTexts body))" if "name \<in> set counterNames" for name
  proof -
    have "counterOf name noUsage = 0" by (simp add: counterOf_def noUsage_def)
    then show ?thesis
      using decodeLines_counts [OF that, of "splitOn (CHR 0x0A) body" "decodeUsage body noUsage"] decodeUsage_counts [OF that, of body noUsage]
      by (simp add: usageTexts_def)
  qed
  show ?thesis
    using v [of "''prompt_tokens''"] v [of "''completion_tokens''"] v [of "''input_tokens''"] v [of "''output_tokens''"] v [of "''total_tokens''"]
    by (simp add: extractUsage_def Let_def counterNames_def counterOf_def)
qed

end
