(* ===== verification/Discovery.thy ===== *)
theory Discovery
  imports Upstream Usage
begin

text \<open>
  Model autodiscovery (\<^verbatim>\<open>internal/gateway/discovery.go\<close>): the cache of model lists per provider, one
  discovery, the union over all providers, and the resolution of a client's model name.

  \<^verbatim>\<open>discoverProvider\<close> takes the lock twice, with a request to the provider in between; what other
  goroutines do to the cache meanwhile is a part of its environment. A model list is decoded from
  the syntax tree as in \<^verbatim>\<open>Usage\<close>.
  \<^verbatim>\<open>sort.Slice\<close> leaves the order of equal elements open; here it is stable.
\<close>

record discoveredModel =
  d_alias :: string
  d_model :: string
  d_provider :: string

record discoveryEntry =
  de_expires :: int
  de_models :: "discoveredModel list"

record discoveryStore =
  entries :: "string \<rightharpoonup> discoveryEntry"

definition discoveryResponseLimit :: nat where
  "discoveryResponseLimit = 4194304"

definition newDiscoveryStore :: discoveryStore where
  "newDiscoveryStore = \<lparr>entries = Map.empty\<rparr>"

definition discovery_clear :: "discoveryStore \<Rightarrow> discoveryStore" where
  "discovery_clear s = s\<lparr>entries := Map.empty\<rparr>"

definition discovery_get :: "discoveryStore \<Rightarrow> int \<Rightarrow> string \<Rightarrow> discoveredModel list option" where
  "discovery_get s now provider =
     (case entries s provider of
        None \<Rightarrow> None
      | Some e \<Rightarrow> if now > de_expires e then None else Some (de_models e))"

definition discovery_put ::
    "string \<Rightarrow> int \<Rightarrow> int \<Rightarrow> discoveredModel list \<Rightarrow> discoveryStore \<Rightarrow> discoveryStore" where
  "discovery_put provider ttl now models s =
     s\<lparr>entries := (entries s)(provider \<mapsto> \<lparr>de_expires = now + ttl, de_models = models\<rparr>)\<rparr>"

section \<open>One provider\<close>

datatype discovery_error =
  RequestFailed upstream_error | ReadFailed | TooLarge | BadStatus int | DecodeFailed

record discovery_env =
  dv_getNow :: int
  dv_send :: transport
  dv_others :: "discoveryStore \<Rightarrow> discoveryStore"
  dv_putNow :: int

text \<open>\<^verbatim>\<open>io.ReadAll\<close> of the body behind a limit of \<open>n\<close> bytes.\<close>

definition readLimited :: "nat \<Rightarrow> http_response \<Rightarrow> string option" where
  "readLimited n resp =
     (let b = concat (resp_reads resp) in if resp_readFails resp \<and> length b < n then None else Some (take n b))"

text \<open>
  Decoding into the slice of structs follows \<^verbatim>\<open>encoding/json\<close>. \<^verbatim>\<open>null\<close> leaves a string or a struct as it is and makes the
  slice \<^verbatim>\<open>nil\<close>. The elements of an array are decoded into the elements of the slice, over what an earlier
  member of the same name has left there, also behind its end; an empty array makes a new slice. A value
  of a wrong type makes the decoding fail in the end, but the rest is still decoded. A slice is the list
  of its elements and the list of those left behind its end.
\<close>

definition storeId :: "string \<times> json \<Rightarrow> string \<times> bool \<Rightarrow> string \<times> bool" where
  "storeId kv r =
     (case r of (old, ok) \<Rightarrow>
        if foldName (fst kv) \<noteq> ''id'' then r
        else case snd kv of JNull \<Rightarrow> r | JStr s \<Rightarrow> (s, ok) | _ \<Rightarrow> (old, False))"

definition storeItem :: "json \<Rightarrow> string \<Rightarrow> string \<times> bool" where
  "storeItem item old =
     (case item of
        JNull \<Rightarrow> (old, True)
      | JObj kvs \<Rightarrow> fold storeId kvs (old, True)
      | _ \<Rightarrow> (old, False))"

fun storeItems :: "json list \<Rightarrow> string list \<Rightarrow> (string list \<times> string list) \<times> bool" where
  "storeItems [] olds = (([], olds), True)"
| "storeItems (item # items) olds =
     (case storeItem item (case olds of [] \<Rightarrow> [] | old # _ \<Rightarrow> old) of (s, ok) \<Rightarrow>
        case storeItems items (drop 1 olds) of ((ids, rest), ok') \<Rightarrow> ((s # ids, rest), ok \<and> ok'))"

definition storeData :: "string \<times> json \<Rightarrow> (string list \<times> string list) \<times> bool \<Rightarrow> (string list \<times> string list) \<times> bool" where
  "storeData kv r =
     (case r of ((ids, rest), ok) \<Rightarrow>
        if foldName (fst kv) \<noteq> ''data'' then r
        else case snd kv of
               JNull \<Rightarrow> (([], []), ok)
             | JArr items \<Rightarrow>
                 if items = [] then (([], []), ok)
                 else (case storeItems items (ids @ rest) of (ids', ok') \<Rightarrow> (ids', ok \<and> ok'))
             | _ \<Rightarrow> ((ids, rest), False))"

definition decodeModelList :: "json \<Rightarrow> string list option" where
  "decodeModelList j =
     (case j of
        JNull \<Rightarrow> Some []
      | JObj kvs \<Rightarrow> (case fold storeData kvs (([], []), True) of ((ids, rest), ok) \<Rightarrow> if ok then Some ids else None)
      | _ \<Rightarrow> None)"

text \<open>An element of a second array keeps the name that the first one gave it.\<close>

lemma decodeModelList_examples:
  "decodeModelList (JObj [(''data'', JArr [JObj [(''id'', JStr ''a'')], JObj [(''id'', JStr ''b''), (''ID'', JNull)]])]) = Some [''a'', ''b'']"
  "decodeModelList (JObj [(''data'', JArr [JObj [(''id'', JStr ''a'')]]), (''data'', JArr [JObj []])]) = Some [''a'']"
  "decodeModelList (JObj [(''data'', JNum ''1''), (''data'', JArr [])]) = None"
  by (simp_all add: decodeModelList_def storeData_def storeItem_def storeId_def lowerChar_def less_eq_char_def)

definition namespaced :: "string \<Rightarrow> providerConfig \<Rightarrow> string list \<Rightarrow> discoveredModel list" where
  "namespaced name provider ids =
     sort_key d_alias
       (map (\<lambda>i. \<lparr>d_alias = ad_prefix (prov_autodiscover provider) @ i, d_model = i, d_provider = name\<rparr>)
          (filter (\<lambda>i. i \<noteq> []) ids))"

record world =
  w_getenv :: "string \<Rightarrow> string"

definition fetchModels ::
    "world \<Rightarrow> discovery_env \<Rightarrow> string \<Rightarrow> providerConfig \<Rightarrow> discovery_error + discoveredModel list" where
  "fetchModels w e name provider =
     (case snd (modelsRequest (w_getenv w) (dv_send e) provider) of
        Inl err \<Rightarrow> Inl (RequestFailed err)
      | Inr resp \<Rightarrow>
          (case readLimited (discoveryResponseLimit + 1) resp of
             None \<Rightarrow> Inl ReadFailed
           | Some body \<Rightarrow>
               if length body > discoveryResponseLimit then Inl TooLarge
               else if resp_status resp < 200 \<or> resp_status resp \<ge> 300 then Inl (BadStatus (resp_status resp))
               else
                 (case Option.bind (parseJSON body) decodeModelList of
                    None \<Rightarrow> Inl DecodeFailed
                  | Some ids \<Rightarrow> Inr (namespaced name provider ids))))"

definition discoverProvider ::
    "world \<Rightarrow> discovery_env \<Rightarrow> string \<Rightarrow> providerConfig \<Rightarrow> discoveryStore
     \<Rightarrow> discoveryStore \<times> (discovery_error + discoveredModel list)" where
  "discoverProvider w e name provider s =
     (case discovery_get s (dv_getNow e) name of
        Some models \<Rightarrow> (s, Inr models)
      | None \<Rightarrow>
          (case fetchModels w e name provider of
             Inl err \<Rightarrow> (dv_others e s, Inl err)
           | Inr models \<Rightarrow>
               (discovery_put name (ad_cacheTTL (prov_autodiscover provider)) (dv_putNow e) models (dv_others e s),
                Inr models)))"

section \<open>All providers\<close>

text \<open>The names come from the map itself, so every one of them is found.\<close>

fun discoverLoop ::
    "world \<Rightarrow> (string \<Rightarrow> discovery_env) \<Rightarrow> providerConfig gomap \<Rightarrow> string list
     \<Rightarrow> discoveredModel list \<Rightarrow> (string \<times> discovery_error) list \<Rightarrow> discoveryStore
     \<Rightarrow> discoveryStore \<times> discoveredModel list \<times> (string \<times> discovery_error) list" where
  "discoverLoop w E providers [] all_models errs s = (s, all_models, errs)"
| "discoverLoop w E providers (name # names) all_models errs s =
     (case map_of providers name of
        None \<Rightarrow> discoverLoop w E providers names all_models errs s
      | Some provider \<Rightarrow>
          (case discoverProvider w (E name) name provider s of
             (s', Inl err) \<Rightarrow> discoverLoop w E providers names all_models (errs @ [(name, err)]) s'
           | (s', Inr models) \<Rightarrow> discoverLoop w E providers names (all_models @ models) errs s'))"

definition enabledNames :: "providerConfig gomap \<Rightarrow> string list" where
  "enabledNames providers = sort (map fst (filter (\<lambda>(name, p). ad_enabled (prov_autodiscover p)) providers))"

definition discoverAll ::
    "world \<Rightarrow> (string \<Rightarrow> discovery_env) \<Rightarrow> providerConfig gomap \<Rightarrow> discoveryStore
     \<Rightarrow> discoveryStore \<times> discoveredModel list \<times> (string \<times> discovery_error) list" where
  "discoverAll w E providers s =
     (case discoverLoop w E providers (enabledNames providers) [] [] s of
        (s', all_models, errs) \<Rightarrow> (s', sort_key d_alias all_models, errs))"

section \<open>Resolution of a model name\<close>

definition discoveredConfig :: "string \<Rightarrow> string \<Rightarrow> modelConfig" where
  "discoveredConfig name model =
     \<lparr>mdl_provider = name, mdl_model = model, mdl_targets = [], mdl_retries = 0,
      mdl_limits = \<lparr>requestsPerMinute = 0, burst = 0, maxConcurrent = 0\<rparr>, mdl_overrides = [],
      mdl_prependSystemPrompt = [], mdl_appendSystemPrompt = []\<rparr>"

text \<open>
  The loop over the provider map, in the order of the list: the first enabled provider whose
  prefix the name has decides. \<open>Inr None\<close> is the answer that there is no such model.
\<close>

fun resolveDiscoveredModel ::
    "world \<Rightarrow> (string \<Rightarrow> discovery_env) \<Rightarrow> providerConfig gomap \<Rightarrow> string \<Rightarrow> discoveryStore
     \<Rightarrow> discoveryStore \<times> (discovery_error + modelConfig option)" where
  "resolveDiscoveredModel w E [] name s = (s, Inr None)"
| "resolveDiscoveredModel w E ((n, p) # providers) name s =
     (if \<not> ad_enabled (prov_autodiscover p) \<or> \<not> hasPrefix name (ad_prefix (prov_autodiscover p))
      then resolveDiscoveredModel w E providers name s
      else
        (case discoverProvider w (E n) n p s of
           (s', Inl err) \<Rightarrow> (s', Inl err)
         | (s', Inr models) \<Rightarrow>
             (s', Inr (map_option (\<lambda>m. discoveredConfig n (d_model m)) (find (\<lambda>m. d_alias m = name) models)))))"

section \<open>The cache\<close>

text \<open>What discovery relies on: a time-to-live cache.\<close>

locale ttl_cache =
  fixes get :: "'s \<Rightarrow> int \<Rightarrow> string \<Rightarrow> 'v option" and put :: "string \<Rightarrow> int \<Rightarrow> int \<Rightarrow> 'v \<Rightarrow> 's \<Rightarrow> 's"
    and clear :: "'s \<Rightarrow> 's"
  assumes get_put: "get (put k ttl t v s) now k' = (if k' = k then (if now > t + ttl then None else Some v) else get s now k')"
    and get_clear: "get (clear s) now k = None"
begin

lemma fresh_hit: "now \<le> t + ttl \<Longrightarrow> get (put k ttl t v s) now k = Some v"
  by (simp add: get_put)

text \<open>A write that was under way when the cache was cleared brings its old value back.\<close>

lemma late_put_survives_clear: "now \<le> t + ttl \<Longrightarrow> get (put k ttl t v (clear s)) now k = Some v"
  by (rule fresh_hit)

end

interpretation dc: ttl_cache discovery_get discovery_put discovery_clear
  by unfold_locales (auto simp: discovery_get_def discovery_put_def discovery_clear_def)

text \<open>
  Only successes are cached: a failed discovery leaves the cache as it was, so that the
  next request asks the provider again, and after a successful one every request within the
  time-to-live is answered with the same list without asking the provider at all.
\<close>

lemma discovery_caches_successes:
  assumes "discovery_get s (dv_getNow e) name = None" and "dv_others e = id"
  shows "case discoverProvider w e name provider s of
           (s', Inl err) \<Rightarrow> s' = s
         | (s', Inr models) \<Rightarrow>
             \<forall>e'. dv_getNow e' \<le> dv_putNow e + ad_cacheTTL (prov_autodiscover provider) \<longrightarrow>
                  discoverProvider w' e' name provider' s' = (s', Inr models)"
  using assms by (simp add: discoverProvider_def dc.fresh_hit split: sum.split)

lemma discovery_caches_successes_example:
  "(let e = \<lparr>dv_getNow = 0, dv_send = (\<lambda>_. None), dv_others = id, dv_putNow = 0\<rparr>;
        w = \<lparr>w_getenv = (\<lambda>_. [])\<rparr>
    in \<exists>err. discoverProvider w e ''test'' exampleProvider newDiscoveryStore = (newDiscoveryStore, Inl err))"
proof -
  let ?e = "\<lparr>dv_getNow = 0, dv_send = (\<lambda>_. None), dv_others = id, dv_putNow = 0\<rparr>"
  let ?w = "\<lparr>w_getenv = (\<lambda>_. [])\<rparr>"
  have "snd (discoverProvider ?w ?e ''test'' exampleProvider newDiscoveryStore) = Inl (RequestFailed TransportFailed)"
    by (simp add: discoverProvider_def discovery_get_def newDiscoveryStore_def fetchModels_def modelsRequest_def applyProviderHeaders_def
        exampleProvider_def example_targets_parsed clientDo_failed)
  moreover have "discovery_get newDiscoveryStore (dv_getNow ?e) ''test'' = None"
    by (simp add: discovery_get_def newDiscoveryStore_def)
  ultimately show ?thesis
    using discovery_caches_successes [where s = newDiscoveryStore and e = ?e and name = "''test''" and w = ?w
        and provider = exampleProvider]
    by (cases "discoverProvider ?w ?e ''test'' exampleProvider newDiscoveryStore") (auto simp: Let_def)
qed

section \<open>Names and providers\<close>

definition prefixOf :: "providerConfig \<Rightarrow> string" where
  "prefixOf p = ad_prefix (prov_autodiscover p)"

definition wfModels :: "string \<Rightarrow> providerConfig \<Rightarrow> discoveredModel list \<Rightarrow> bool" where
  "wfModels name p models \<longleftrightarrow>
     (\<forall>m \<in> set models. d_alias m = prefixOf p @ d_model m \<and> d_provider m = name \<and> d_model m \<noteq> [])"

text \<open>Every cached list belongs to a provider of the configuration and carries its prefix.\<close>

definition cacheFor :: "providerConfig gomap \<Rightarrow> discoveryStore \<Rightarrow> bool" where
  "cacheFor providers s \<longleftrightarrow>
     (\<forall>name e. entries s name = Some e \<longrightarrow> (\<exists>p. map_of providers name = Some p \<and> wfModels name p (de_models e)))"

lemma namespaced_wf: "wfModels name p (namespaced name p ids)"
  by (auto simp: wfModels_def namespaced_def prefixOf_def)

lemma discoverProvider_wf:
  assumes "discoverProvider w e name p s = (s', r)" and "map_of providers name = Some p"
    and "cacheFor providers s" and "\<And>s. cacheFor providers s \<Longrightarrow> cacheFor providers (dv_others e s)"
  shows "cacheFor providers s' \<and> (\<forall>models. r = Inr models \<longrightarrow> wfModels name p models)"
proof (cases "discovery_get s (dv_getNow e) name")
  case (Some models)
  then have "s' = s" "r = Inr models" using assms(1) by (auto simp: discoverProvider_def)
  moreover have "wfModels name p models"
  proof -
    obtain x where "entries s name = Some x" "models = de_models x"
      using Some by (auto simp: discovery_get_def split: option.splits if_splits)
    with assms(2,3) show ?thesis by (fastforce simp: cacheFor_def)
  qed
  ultimately show ?thesis using assms(3) by simp
next
  case None
  have o: "cacheFor providers (dv_others e s)" by (rule assms(4)) (rule assms(3))
  show ?thesis
  proof (cases "fetchModels w e name p")
    case (Inl err)
    with None assms(1) o show ?thesis by (auto simp: discoverProvider_def)
  next
    case (Inr models)
    then obtain ids where "models = namespaced name p ids"
      by (auto simp: fetchModels_def split: sum.splits option.splits if_splits)
    then have "wfModels name p models" by (simp add: namespaced_wf)
    with None Inr assms(1,2) o show ?thesis
      by (auto simp: discoverProvider_def discovery_put_def cacheFor_def split: if_splits)
  qed
qed

definition prefixFree :: "providerConfig gomap \<Rightarrow> bool" where
  "prefixFree providers \<longleftrightarrow>
     (\<forall>(n, p) \<in> set providers. \<forall>(m, q) \<in> set providers.
        n \<noteq> m \<and> ad_enabled (prov_autodiscover p) \<and> ad_enabled (prov_autodiscover q) \<longrightarrow>
        \<not> prefix (prefixOf p) (prefixOf q))"

lemma prefixFreeD:
  "prefixFree providers \<Longrightarrow> (n, p) \<in> set providers \<Longrightarrow> (m, q) \<in> set providers \<Longrightarrow> n \<noteq> m \<Longrightarrow>
   ad_enabled (prov_autodiscover p) \<Longrightarrow> ad_enabled (prov_autodiscover q) \<Longrightarrow> \<not> prefix (prefixOf p) (prefixOf q)"
  by (force simp: prefixFree_def)

lemma resolve_skip:
  assumes "\<And>n q. (n, q) \<in> set ps \<Longrightarrow> ad_enabled (prov_autodiscover q) \<Longrightarrow> \<not> prefix (prefixOf q) name"
  shows "resolveDiscoveredModel w E (ps @ rest) name s = resolveDiscoveredModel w E rest name s"
  using assms
proof (induction ps)
  case (Cons x ps)
  obtain n q where x: "x = (n, q)" by force
  with Cons.prems [of n q] have "\<not> ad_enabled (prov_autodiscover q) \<or> \<not> hasPrefix name (ad_prefix (prov_autodiscover q))"
    by (auto simp: hasPrefix_iff_prefix prefixOf_def)
  with Cons x show ?case by auto
qed simp

text \<open>
  Claim C32. When no autodiscovery prefix is a prefix of another, a model that a provider lists is
  resolved to exactly that provider and its own name for the model, in whatever order the provider
  map is visited. The cached lists are taken to be of the current configuration, and other goroutines to keep it so.
\<close>

theorem listed_model_resolves:
  assumes "wfMap providers" and "prefixFree providers" and "cacheFor providers s"
    and "\<And>s. cacheFor providers s \<Longrightarrow> cacheFor providers (dv_others (E name) s)"
    and "(name, p) \<in> set providers" and "ad_enabled (prov_autodiscover p)"
    and "discoverProvider w (E name) name p s = (s', Inr models)" and "m \<in> set models"
  shows "resolveDiscoveredModel w E providers (d_alias m) s = (s', Inr (Some (discoveredConfig name (d_model m))))"
proof -
  have "map_of providers name = Some p" using assms(1,5) by (simp add: wfMap_def)
  then have wf: "wfModels name p models" using discoverProvider_wf [OF assms(7) _ assms(3,4)] by blast
  have al: "d_alias m = prefixOf p @ d_model m" using wf assms(8) by (auto simp: wfModels_def)
  obtain ps rest where ps: "providers = ps @ (name, p) # rest" using split_list [OF assms(5)] by blast
  have "\<not> prefix (prefixOf q) (d_alias m)"
    if q: "(n, q) \<in> set ps" and en: "ad_enabled (prov_autodiscover q)" for n q
  proof
    assume "prefix (prefixOf q) (d_alias m)"
    then have "prefix (prefixOf q) (prefixOf p) \<or> prefix (prefixOf p) (prefixOf q)"
      unfolding al by (rule prefix_same_cases [OF _ prefixI [OF refl]])
    moreover have "n \<noteq> name" using assms(1) q by (force simp: ps wfMap_def)
    moreover have "(n, q) \<in> set providers" using q by (simp add: ps)
    ultimately show False
      using prefixFreeD [OF assms(2) _ assms(5) _ en assms(6)] prefixFreeD [OF assms(2,5) _ _ assms(6) en] by blast
  qed
  then have "resolveDiscoveredModel w E providers (d_alias m) s =
      resolveDiscoveredModel w E ((name, p) # rest) (d_alias m) s"
    unfolding ps by (rule resolve_skip)
  also have "\<dots> = (s', Inr (map_option (\<lambda>m. discoveredConfig name (d_model m)) (find (\<lambda>m'. d_alias m' = d_alias m) models)))"
    using assms(6,7) al by (simp add: prefixOf_def)
  also have "find (\<lambda>m'. d_alias m' = d_alias m) models \<noteq> None"
    using assms(8) by (auto simp: find_None_iff)
  then obtain m' where m': "find (\<lambda>m'. d_alias m' = d_alias m) models = Some m'" by blast
  then have "d_model m' = d_model m"
  proof -
    have "m' \<in> set models" "d_alias m' = d_alias m" using m' by (auto simp: find_Some_iff)
    with wf al show ?thesis by (auto simp: wfModels_def)
  qed
  with m' have "map_option (\<lambda>m. discoveredConfig name (d_model m)) (find (\<lambda>m'. d_alias m' = d_alias m) models)
      = Some (discoveredConfig name (d_model m))" by simp
  finally show ?thesis .
qed

text \<open>Two providers with overlapping prefixes, and a cache that holds both lists.\<close>

definition discoveringProvider :: "string \<Rightarrow> providerConfig" where
  "discoveringProvider pre =
     exampleProvider\<lparr>prov_protocol := ''openai'', prov_autodiscover := \<lparr>ad_enabled = True, ad_prefix = pre, ad_cacheTTL = Minute\<rparr>\<rparr>"

definition quietWorld :: world where
  "quietWorld = \<lparr>w_getenv = (\<lambda>_. [])\<rparr>"

definition modelList :: json where
  "modelList = JObj [(''data'', JArr [JObj [(''id'', JStr ''m'')]])]"

definition answeringEnv :: "(discoveryStore \<Rightarrow> discoveryStore) \<Rightarrow> discovery_env" where
  "answeringEnv others =
     \<lparr>dv_getNow = 0, dv_send = (\<lambda>_. Some \<lparr>resp_status = 200, resp_header = [], resp_reads = [render modelList], resp_readFails = False\<rparr>),
      dv_others = others, dv_putNow = 0\<rparr>"

lemma fetch_example:
  "fetchModels quietWorld (answeringEnv others) name (discoveringProvider pre) =
     Inr [\<lparr>d_alias = pre @ ''m'', d_model = ''m'', d_provider = name\<rparr>]"
proof -
  have "wfJson modelList" "depthOf modelList \<le> maxNestingDepth"
    by (simp_all add: modelList_def ascii_valid maxNestingDepth_def)
  then have p: "parseJSON (render modelList) = Some modelList" by (rule parse_render)
  have len: "length (render modelList) \<le> discoveryResponseLimit"
    by (simp add: modelList_def quote_def quoteBody_plain plainByte_def discoveryResponseLimit_def)
  have ids: "decodeModelList modelList = Some [''m'']"
    by (simp add: modelList_def decodeModelList_def storeData_def storeItem_def storeId_def lowerChar_def less_eq_char_def)
  let ?resp = "\<lparr>resp_status = 200, resp_header = [], resp_reads = [render modelList], resp_readFails = False\<rparr>"
  have "snd (modelsRequest (w_getenv quietWorld) (dv_send (answeringEnv others)) (discoveringProvider pre)) = Inr ?resp"
    by (simp add: modelsRequest_def applyProviderHeaders_def quietWorld_def answeringEnv_def
        discoveringProvider_def exampleProvider_def example_targets_parsed clientDo_final redirectBehavior_def)
  moreover have "readLimited (discoveryResponseLimit + 1) ?resp = Some (render modelList)"
    using len by (simp add: readLimited_def)
  ultimately show ?thesis
    using len p ids by (simp add: fetchModels_def namespaced_def discoveringProvider_def)
qed

lemmas discovery_examples = discoveringProvider_def quietWorld_def answeringEnv_def example_defs

theorem listed_model_resolves_witness:
  "\<exists>s'. resolveDiscoveredModel quietWorld (\<lambda>_. answeringEnv id) [(''p'', discoveringProvider ''p/'')] ''p/m'' newDiscoveryStore
     = (s', Inr (Some (discoveredConfig ''p'' ''m'')))"
proof -
  let ?P = "discoveringProvider ''p/''" and ?m = "\<lparr>d_alias = ''p/m'', d_model = ''m'', d_provider = ''p''\<rparr>"
  obtain s' where d: "discoverProvider quietWorld (answeringEnv id) ''p'' ?P newDiscoveryStore = (s', Inr [?m])"
    by (simp add: discoverProvider_def discovery_get_def newDiscoveryStore_def fetch_example)
  have "resolveDiscoveredModel quietWorld (\<lambda>_. answeringEnv id) [(''p'', ?P)] (d_alias ?m) newDiscoveryStore
     = (s', Inr (Some (discoveredConfig ''p'' (d_model ?m))))"
  proof (rule listed_model_resolves [where p = ?P and models = "[?m]"])
    show "cacheFor [(''p'', ?P)] (dv_others (answeringEnv id) s)" if "cacheFor [(''p'', ?P)] s" for s
      using that by (simp add: answeringEnv_def)
    show "cacheFor [(''p'', ?P)] newDiscoveryStore" by (simp add: cacheFor_def newDiscoveryStore_def)
  qed (simp_all add: wfMap_def prefixFree_def d, simp add: discoveringProvider_def)
  then show ?thesis by simp
qed

text \<open>
  Claim C38. Without that condition the answer depends on the order in which Go happens to visit
  the provider map: there are two orders of the same valid configuration, with the same cached
  model lists, such that a listed model is resolved in one and unknown in the other.
\<close>

theorem overlapping_prefixes_order_dependent:
  "\<exists>cfg cfg' s name target.
     mset (cfg_providers cfg') = mset (cfg_providers cfg) \<and>
     validConfig cfg \<and> validConfig cfg' \<and>
     cacheFor (cfg_providers cfg) s \<and>
     snd (resolveDiscoveredModel quietWorld (\<lambda>_. answeringEnv id) (cfg_providers cfg) name s) = Inr (Some target) \<and>
     snd (resolveDiscoveredModel quietWorld (\<lambda>_. answeringEnv id) (cfg_providers cfg') name s) = Inr None"
proof -
  let ?a = "(''a'', discoveringProvider ''x/'')" and ?b = "(''b'', discoveringProvider ''x/y/'')"
  let ?cfg = "\<lambda>ps. exampleConfig\<lparr>cfg_providers := ps, cfg_models := []\<rparr>"
  let ?m = "\<lparr>d_alias = ''x/y/m'', d_model = ''m'', d_provider = ''b''\<rparr>"
  let ?s = "\<lparr>entries = [''a'' \<mapsto> \<lparr>de_expires = 1, de_models = []\<rparr>, ''b'' \<mapsto> \<lparr>de_expires = 1, de_models = [?m]\<rparr>]\<rparr>"
  have "validConfig (?cfg [?b, ?a])" "validConfig (?cfg [?a, ?b])"
    by (simp_all add: validConfig_def discovery_examples validProvider_def validLimits_def zeroLimits_def
        enabledPrefixes_def validServer_def)
  moreover have "cacheFor [?b, ?a] ?s"
    by (simp add: cacheFor_def wfModels_def prefixOf_def discoveringProvider_def)
  moreover have "snd (resolveDiscoveredModel quietWorld (\<lambda>_. answeringEnv id) [?b, ?a] ''x/y/m'' ?s)
      = Inr (Some (discoveredConfig ''b'' ''m''))"
    "snd (resolveDiscoveredModel quietWorld (\<lambda>_. answeringEnv id) [?a, ?b] ''x/y/m'' ?s) = Inr None"
    by (simp_all add: discoverProvider_def discovery_get_def discoveringProvider_def answeringEnv_def)
  ultimately show ?thesis
    by (intro exI [of _ "?cfg [?b, ?a]"] exI [of _ "?cfg [?a, ?b]"] exI [of _ ?s] exI [of _ "''x/y/m''"]
        exI [of _ "discoveredConfig ''b'' ''m''"]) simp
qed

text \<open>
  The cache has no generation: a discovery that was under way when a reload cleared the
  cache stores the list it got under the old configuration, and that list is served under the new
  one until the old time-to-live is over, whatever provider the name now stands for.
\<close>

lemma reload_keeps_inflight_discovery:
  assumes "discovery_get s (dv_getNow e) name = None" and "fetchModels w e name oldProvider = Inr models"
    and "dv_others e = discovery_clear"
    and "dv_getNow e' \<le> dv_putNow e + ad_cacheTTL (prov_autodiscover oldProvider)"
  shows "snd (discoverProvider w' e' name newProvider (fst (discoverProvider w e name oldProvider s))) = Inr models"
  using assms dc.late_put_survives_clear by (simp add: discoverProvider_def)

lemma reload_keeps_inflight_discovery_example:
  "snd (discoverProvider quietWorld (answeringEnv id) ''p'' (discoveringProvider ''new/'')
      (fst (discoverProvider quietWorld (answeringEnv discovery_clear) ''p'' (discoveringProvider ''old/'') newDiscoveryStore)))
   = Inr [\<lparr>d_alias = ''old/m'', d_model = ''m'', d_provider = ''p''\<rparr>]"
proof (rule reload_keeps_inflight_discovery)
  show "fetchModels quietWorld (answeringEnv discovery_clear) ''p'' (discoveringProvider ''old/'') =
      Inr [\<lparr>d_alias = ''old/m'', d_model = ''m'', d_provider = ''p''\<rparr>]" by (simp add: fetch_example)
qed (simp_all add: discovery_get_def newDiscoveryStore_def answeringEnv_def discoveringProvider_def)

end
