(* ===== verification/Retry.thy ===== *)
theory Retry
  imports Queue Payload Discovery
begin

text \<open>
  Retry and failover: the target loop of \<^verbatim>\<open>proxy\<close> in \<^verbatim>\<open>gateway.go\<close>. Targets are tried in order, each
  up to \<^verbatim>\<open>retries + 1\<close> times; every attempt takes a slot of the provider and gives it back unless its
  response is the one that is streamed to the client.

  What is outside the loop's control comes with each attempt: the events while it waits for the
  provider's slot, what the network answers, what other goroutines do meanwhile, and the state of
  the contexts. The loop's result is \<open>None\<close> only when an attempt waits for ever in the queue. The state
  of the loops has, beside the variables of the code, a record of the calls of \<^verbatim>\<open>doUpstreamRequest\<close> made so far.
\<close>

section \<open>Metrics\<close>

text \<open>The atomic counters of \<^verbatim>\<open>metrics.go\<close>; \<^verbatim>\<open>active\<close> is signed, the others are not.\<close>

record metrics =
  m_requests :: uint64
  m_completed :: uint64
  m_failed :: uint64
  m_active :: uint64
  m_upstreamRequests :: uint64
  m_upstreamErrors :: uint64
  m_queueWaits :: uint64
  m_queueRejected :: uint64
  m_durationNanos :: uint64

datatype metric_value = MUint uint64 | MInt int | MSeconds rat

text \<open>The report, line by line: names and values. The last value is a quotient of two floats.\<close>

definition writePrometheus :: "metrics \<Rightarrow> int \<Rightarrow> (string \<times> metric_value) list" where
  "writePrometheus m queueDepth =
     [(''shepard_requests_total'', MUint (m_requests m)),
      (''shepard_requests_completed_total'', MUint (m_completed m)),
      (''shepard_requests_failed_total'', MUint (m_failed m)),
      (''shepard_requests_active'', MInt (sint (m_active m))),
      (''shepard_upstream_requests_total'', MUint (m_upstreamRequests m)),
      (''shepard_upstream_errors_total'', MUint (m_upstreamErrors m)),
      (''shepard_queue_waits_total'', MUint (m_queueWaits m)),
      (''shepard_queue_rejected_total'', MUint (m_queueRejected m)),
      (''shepard_queue_depth'', MInt queueDepth),
      (''shepard_request_duration_seconds_total'',
         MSeconds (fl64 (fl64 (of_int (uint (m_durationNanos m))) / 1000000000)))]"

definition countQueueWait :: "bool \<Rightarrow> metrics \<Rightarrow> metrics" where
  "countQueueWait queued m = (if queued then m\<lparr>m_queueWaits := m_queueWaits m + 1\<rparr> else m)"

section \<open>One attempt\<close>

definition retryableStatus :: "int \<Rightarrow> bool" where
  "retryableStatus status \<longleftrightarrow> status \<in> {408, 404, 429, 500, 502, 503, 504}"

definition retryDelay :: "nat \<Rightarrow> duration" where
  "retryDelay attempt = 100 * Millisecond * 2 ^ min attempt 4"

text \<open>
  The wait before attempt \<open>n + 2\<close> ends with its timer unless the context of the request is done first:
  \<open>ctxDone\<close> is the time from the start of the wait until then, if it is done at all, and which of the two
  \<^verbatim>\<open>select\<close> picks when both are ready, which it does at random.
\<close>

definition waitForRetry :: "(duration \<times> bool) option \<Rightarrow> nat \<Rightarrow> bool" where
  "waitForRetry ctxDone attempt =
     (case ctxDone of
        None \<Rightarrow> True
      | Some (t, timerPicked) \<Rightarrow> retryDelay attempt < t \<or> retryDelay attempt = t \<and> timerPicked)"

lemma waitForRetry_background [simp]: "waitForRetry None attempt"
  by (simp add: waitForRetry_def)

lemma waitForRetry_bound: "ctxDone = None \<or> (\<exists>t > 1600 * Millisecond. \<exists>b. ctxDone = Some (t, b)) \<Longrightarrow> waitForRetry ctxDone attempt"
proof -
  have "(2 :: int) ^ min attempt 4 \<le> 2 ^ 4" by (rule power_increasing) simp_all
  then have "retryDelay attempt \<le> 1600 * Millisecond" by (simp add: retryDelay_def)
  then show "ctxDone = None \<or> (\<exists>t > 1600 * Millisecond. \<exists>b. ctxDone = Some (t, b)) \<Longrightarrow> ?thesis"
    by (auto simp: waitForRetry_def)
qed

text \<open>
  What happens around one attempt: \<open>ae_before\<close> is what other goroutines do since the step before it (during a
  backoff, for instance), \<open>ae_during\<close> what they do during the request.
\<close>

record attempt_env =
  ae_before :: "limitStore shared \<Rightarrow> limitStore shared"
  ae_wait :: "limitStore wait_env"
  ae_send :: transport
  ae_during :: "limitStore shared \<Rightarrow> limitStore shared"
  ae_timedOut :: bool
  ae_ctxDone :: bool
  ae_backoff :: "(duration \<times> bool) option"

text \<open>One call of \<^verbatim>\<open>doUpstreamRequest\<close>: for which target and attempt, the requests put on the network, the result.\<close>

record upstream_call =
  uc_target :: nat
  uc_attempt :: nat
  uc_requests :: "http_request list"
  uc_result :: "upstream_error + http_response"

record loop_state =
  ls_shared :: "limitStore shared"
  ls_calls :: "upstream_call list"
  ls_metrics :: metrics
  ls_lastErr :: "upstream_error option"
  ls_limited :: bool

datatype attempt_exit =
    Answered http_response "admissionScope list"
  | NextTarget
  | BreakLoop

text \<open>What one pass over a target needs to know.\<close>

record target_ctx =
  tc_index :: nat
  tc_world :: world
  tc_waitTimeout :: duration
  tc_path :: string
  tc_query :: string
  tc_header :: header
  tc_retries :: int
  tc_provider :: providerConfig
  tc_scopes :: "admissionScope list"
  tc_body :: string
  tc_hasAnother :: bool

definition releaseShared :: "admissionScope list \<Rightarrow> limitStore shared \<Rightarrow> limitStore shared" where
  "releaseShared scopes sh = (fst sh, release scopes (snd sh))"

definition shouldRetrySame :: "int \<Rightarrow> nat \<Rightarrow> int \<Rightarrow> bool" where
  "shouldRetrySame retries attempt status \<longleftrightarrow>
     retryableStatus status \<and> status \<noteq> 429 \<and> status \<noteq> 404 \<and> int attempt < retries"

definition shouldFailover :: "int \<Rightarrow> nat \<Rightarrow> bool \<Rightarrow> int \<Rightarrow> bool" where
  "shouldFailover retries attempt hasAnother status \<longleftrightarrow>
     retryableStatus status \<and> \<not> shouldRetrySame retries attempt status \<and> hasAnother"

definition callUpstream :: "target_ctx \<Rightarrow> attempt_env \<Rightarrow> nat \<Rightarrow> upstream_call" where
  "callUpstream C e attempt =
     (case doUpstreamRequest (w_getenv (tc_world C)) (ae_send e) (tc_path C) (tc_query C) (tc_header C) (tc_provider C) (tc_body C) of
        (reqs, result) \<Rightarrow> \<lparr>uc_target = tc_index C, uc_attempt = attempt, uc_requests = reqs, uc_result = result\<rparr>)"

text \<open>The loop over the attempts at one target; the list holds the attempt numbers still to come.\<close>

fun attemptLoop ::
    "target_ctx \<Rightarrow> (nat \<Rightarrow> attempt_env) \<Rightarrow> nat list \<Rightarrow> loop_state \<Rightarrow> (loop_state \<times> attempt_exit) option" where
  "attemptLoop C E [] st = Some (st, NextTarget)"
| "attemptLoop C E (attempt # rest) st =
     (case admitWithQueue (tc_waitTimeout C) (tc_scopes C) (ae_wait (E attempt)) (ae_before (E attempt) (ls_shared st)) of
        None \<Rightarrow> None
      | Some (sh, allowed, queued) \<Rightarrow>
          let m1 = countQueueWait queued (ls_metrics st) in
          if \<not> allowed then Some (st\<lparr>ls_shared := sh, ls_metrics := m1, ls_limited := True\<rparr>, NextTarget)
          else
            let call = callUpstream C (E attempt) attempt;
                sh1 = ae_during (E attempt) sh;
                m2 = m1\<lparr>m_upstreamRequests := m_upstreamRequests m1 + 1\<rparr>;
                st0 = st\<lparr>ls_calls := ls_calls st @ [call]\<rparr>
            in case uc_result call of
                 Inl err \<Rightarrow>
                   let st1 = st0\<lparr>ls_shared := releaseShared (tc_scopes C) sh1,
                                 ls_metrics := m2\<lparr>m_upstreamErrors := m_upstreamErrors m2 + 1\<rparr>,
                                 ls_lastErr := Some err\<rparr>
                   in if ae_ctxDone (E attempt) then Some (st1, BreakLoop)
                      else if prov_requestTimeout (tc_provider C) > 0 \<and> ae_timedOut (E attempt) then Some (st1, NextTarget)
                      else if int attempt < tc_retries C then
                        (if \<not> waitForRetry (ae_backoff (E attempt)) attempt then Some (st1, BreakLoop) else attemptLoop C E rest st1)
                      else Some (st1, NextTarget)
               | Inr resp \<Rightarrow>
                   if shouldRetrySame (tc_retries C) attempt (resp_status resp) \<or>
                      shouldFailover (tc_retries C) attempt (tc_hasAnother C) (resp_status resp) then
                     let st1 = st0\<lparr>ls_shared := releaseShared (tc_scopes C) sh1, ls_metrics := m2\<rparr> in
                     if shouldRetrySame (tc_retries C) attempt (resp_status resp) then
                       (if \<not> waitForRetry (ae_backoff (E attempt)) attempt then Some (st1, BreakLoop) else attemptLoop C E rest st1)
                     else Some (st1, NextTarget)
                   else Some (st0\<lparr>ls_shared := sh1, ls_metrics := m2\<rparr>, Answered resp (tc_scopes C)))"

section \<open>All targets\<close>

datatype target_exit =
    EncodeFailed
  | Exhausted
  | Selected http_response targetConfig "admissionScope list"

text \<open>A provider that is not in the map reads as the zero value.\<close>

definition zeroProvider :: providerConfig where
  "zeroProvider = \<lparr>prov_baseURL = [], prov_protocol = [], prov_apiKeyEnv = [], prov_headers = [],
     prov_autodiscover = \<lparr>ad_enabled = False, ad_prefix = [], ad_cacheTTL = 0\<rparr>,
     prov_limits = \<lparr>requestsPerMinute = 0, burst = 0, maxConcurrent = 0\<rparr>, prov_requestTimeout = 0\<rparr>"

definition providerOf :: "providerConfig gomap \<Rightarrow> string \<Rightarrow> providerConfig" where
  "providerOf providers name = (case map_of providers name of Some p \<Rightarrow> p | None \<Rightarrow> zeroProvider)"

definition providerScopes :: "providerConfig gomap \<Rightarrow> string \<Rightarrow> admissionScope list" where
  "providerScopes providers name =
     [\<lparr>scope_key = ''provider:'' @ name, scope_limits = prov_limits (providerOf providers name)\<rparr>]"

record loop_ctx =
  lc_world :: world
  lc_waitTimeout :: duration
  lc_path :: string
  lc_query :: string
  lc_header :: header
  lc_retries :: int
  lc_providers :: "providerConfig gomap"
  lc_payload :: payload

definition targetCtx :: "loop_ctx \<Rightarrow> nat \<Rightarrow> targetConfig \<Rightarrow> string \<Rightarrow> bool \<Rightarrow> target_ctx" where
  "targetCtx L i t body hasAnother =
     \<lparr>tc_index = i, tc_world = lc_world L, tc_waitTimeout = lc_waitTimeout L, tc_path = lc_path L, tc_query = lc_query L,
      tc_header = lc_header L, tc_retries = lc_retries L, tc_provider = providerOf (lc_providers L) (tgt_provider t),
      tc_scopes = providerScopes (lc_providers L) (tgt_provider t), tc_body = body, tc_hasAnother = hasAnother\<rparr>"

text \<open>The encoded body for a target.\<close>

definition targetBody :: "loop_ctx \<Rightarrow> targetConfig \<Rightarrow> string option" where
  "targetBody L t =
     marshal (AObj (targetPayload (lc_payload L) (lc_path L)
       (prov_protocol (providerOf (lc_providers L) (tgt_provider t))) (tgt_model t)))"

fun targetLoop ::
    "loop_ctx \<Rightarrow> (nat \<Rightarrow> nat \<Rightarrow> attempt_env) \<Rightarrow> nat \<Rightarrow> targetConfig list \<Rightarrow> loop_state \<Rightarrow> (loop_state \<times> target_exit) option" where
  "targetLoop L E i [] st = Some (st, Exhausted)"
| "targetLoop L E i (t # ts) st =
     (case targetBody L t of
        None \<Rightarrow> Some (st, EncodeFailed)
      | Some body \<Rightarrow>
          (case attemptLoop (targetCtx L i t body (ts \<noteq> [])) (E i) [0..<nat (lc_retries L + 1)] st of
             None \<Rightarrow> None
           | Some (st1, Answered resp scopes) \<Rightarrow> Some (st1, Selected resp t scopes)
           | Some (st1, NextTarget) \<Rightarrow> targetLoop L E (Suc i) ts st1
           | Some (st1, BreakLoop) \<Rightarrow> Some (st1, Exhausted)))"

text \<open>The answer when no target gave one, from the state of the context and of the loop.\<close>

definition exhaustedReply :: "bool \<Rightarrow> loop_state \<Rightarrow> int \<times> string" where
  "exhaustedReply deadlineExceeded st =
     (if deadlineExceeded then (504, ''provider request timed out'')
      else if ls_limited st \<and> ls_lastErr st = None then (429, ''all provider targets are rate limited'')
      else (502, ''all provider targets failed''))"

section \<open>Slots\<close>

lemma release_counts:
  assumes "\<And>k. countOf sh1 k = countOf sh k + slots k scopes" and "\<And>k. 0 \<le> countOf sh k"
  shows "countOf (releaseShared scopes sh1) k = countOf sh k"
proof -
  have "slots k scopes \<le> concCount (snd sh1) k" for k using assms [of k] by simp
  then have "concCount (release scopes (snd sh1)) k = concCount (snd sh1) k - slots k scopes"
    by (rule concCount_release)
  then show ?thesis using assms(1) by (simp add: releaseShared_def)
qed

definition neutralAttempt :: "attempt_env \<Rightarrow> bool" where
  "neutralAttempt e \<longleftrightarrow> neutral (ae_before e) \<and> neutralWait (ae_wait e) \<and> neutral (ae_during e)"

fun keptSlots :: "attempt_exit \<Rightarrow> string \<Rightarrow> int" where
  "keptSlots (Answered r scopes) k = slots k scopes"
| "keptSlots e k = 0"

lemma attemptLoop_slots:
  assumes "attemptLoop C E as st = Some (st', x)" and "\<And>a. neutralAttempt (E a)" and "\<And>k. 0 \<le> countOf (ls_shared st) k"
  shows "countOf (ls_shared st') k = countOf (ls_shared st) k + keptSlots x k"
  using assms(1,3)
proof (induction as arbitrary: st)
  case (Cons a as)
  let ?sh = "ae_before (E a) (ls_shared st)"
  obtain sh ok queued where w: "admitWithQueue (tc_waitTimeout C) (tc_scopes C) (ae_wait (E a)) ?sh = Some (sh, ok, queued)"
    using Cons.prems(1) by (cases "admitWithQueue (tc_waitTimeout C) (tc_scopes C) (ae_wait (E a)) ?sh") auto
  have cnt: "countOf sh k = countOf (ls_shared st) k + (if ok then slots k (tc_scopes C) else 0)" for k
    using admitWithQueue_counts [OF w] assms(2) by (simp add: neutralAttempt_def neutralD)
  have dur: "countOf (ae_during (E a) sh) k = countOf sh k" for k
    using assms(2) by (simp add: neutralAttempt_def neutralD)
  have rel: "countOf (releaseShared (tc_scopes C) (ae_during (E a) sh)) k = countOf (ls_shared st) k" if ok for k
    using release_counts [of "ae_during (E a) sh" "ls_shared st" "tc_scopes C" k] cnt dur that Cons.prems(2) by simp
  have IH: "countOf (ls_shared st') k = countOf (ls_shared st1) k + keptSlots x k"
    if "attemptLoop C E as st1 = Some (st', x)" "\<And>k. countOf (ls_shared st1) k = countOf (ls_shared st) k" for st1
    using Cons.IH [OF that(1)] that(2) Cons.prems(2) by simp
  show ?case
  proof (cases ok)
    case False
    then show ?thesis using Cons.prems(1) cnt by (auto simp: w)
  next
    case True
    note r = rel [OF True] and c = cnt [of k] dur [of k]
    show ?thesis
    proof (cases "uc_result (callUpstream C (E a) a)")
      case (Inl err)
      with Cons.prems(1) True r show ?thesis by (auto simp: w Let_def split: if_splits intro: IH [THEN trans])
    next
      case (Inr resp)
      with Cons.prems(1) True r c show ?thesis by (auto simp: w Let_def split: if_splits intro: IH [THEN trans])
    qed
  qed
qed simp

lemma attemptLoop_scopes: "attemptLoop C E as st = Some (st', Answered r scopes) \<Longrightarrow> scopes = tc_scopes C"
  by (induction as arbitrary: st) (auto simp: Let_def split: option.splits if_splits sum.splits)

lemma targetLoop_step:
  assumes "targetLoop L E i (t # ts) st = Some (st', x)"
  obtains
    (encode) "x = EncodeFailed" "st' = st"
  | (answer) body resp where
      "attemptLoop (targetCtx L i t body (ts \<noteq> [])) (E i) [0..<nat (lc_retries L + 1)] st
         = Some (st', Answered resp (providerScopes (lc_providers L) (tgt_provider t)))"
      "x = Selected resp t (providerScopes (lc_providers L) (tgt_provider t))"
  | (stop) body where
      "attemptLoop (targetCtx L i t body (ts \<noteq> [])) (E i) [0..<nat (lc_retries L + 1)] st = Some (st', BreakLoop)" "x = Exhausted"
  | (advance) body st1 where
      "attemptLoop (targetCtx L i t body (ts \<noteq> [])) (E i) [0..<nat (lc_retries L + 1)] st = Some (st1, NextTarget)"
      "targetLoop L E (Suc i) ts st1 = Some (st', x)"
proof (cases "targetBody L t")
  case None
  with assms encode show thesis by auto
next
  case (Some body)
  then obtain st1 y where y: "attemptLoop (targetCtx L i t body (ts \<noteq> [])) (E i) [0..<nat (lc_retries L + 1)] st = Some (st1, y)"
    using assms by (auto split: option.splits)
  show thesis
  proof (cases y)
    case (Answered r sc)
    then have "sc = providerScopes (lc_providers L) (tgt_provider t)"
      using y attemptLoop_scopes by (fastforce simp: targetCtx_def)
    with Some y Answered assms show thesis by (intro answer) auto
  next
    case NextTarget
    with Some y assms show thesis by (intro advance) auto
  next
    case BreakLoop
    with Some y assms show thesis by (intro stop) auto
  qed
qed

fun selectedSlots :: "target_exit \<Rightarrow> string \<Rightarrow> int" where
  "selectedSlots (Selected r t scopes) k = slots k scopes"
| "selectedSlots e k = 0"

lemma failover_slots:
  assumes "targetLoop L E i ts st = Some (st', x)" and "\<And>i a. neutralAttempt (E i a)"
    and "\<And>k. 0 \<le> countOf (ls_shared st) k"
  shows "countOf (ls_shared st') k = countOf (ls_shared st) k + selectedSlots x k \<and>
         (\<forall>r t scopes. x = Selected r t scopes \<longrightarrow>
            t \<in> set ts \<and> scopes = providerScopes (lc_providers L) (tgt_provider t))"
  using assms(1,3)
proof (induction ts arbitrary: i st)
  case (Cons t ts)
  from Cons.prems(1) show ?case
  proof (cases rule: targetLoop_step)
    case encode
    then show ?thesis by simp
  next
    case (answer body resp)
    then show ?thesis using attemptLoop_slots [OF answer(1) assms(2) Cons.prems(2)] by simp
  next
    case (stop body)
    then show ?thesis using attemptLoop_slots [OF stop(1) assms(2) Cons.prems(2)] by simp
  next
    case (advance body st1)
    have c: "countOf (ls_shared st1) k = countOf (ls_shared st) k" for k
      using attemptLoop_slots [OF advance(1) assms(2) Cons.prems(2)] by simp
    then have "\<And>k. 0 \<le> countOf (ls_shared st1) k" using Cons.prems(2) by simp
    from Cons.IH [OF advance(2) this] c show ?thesis by auto
  qed
qed simp

text \<open>
  Claim C8. Retry and failover leak nothing: when the loop ends with a response, exactly the slots
  of the provider that gave it are held; when it ends without one, none are, whatever failed,
  timed out or was refused on the way. What other goroutines do meanwhile is taken to leave the counters as they were.
\<close>

theorem failover_holds_selected_slot:
  assumes "targetLoop L E i ts st = Some (st', x)" and "\<And>i a. neutralAttempt (E i a)"
    and "\<And>k. 0 \<le> countOf (ls_shared st) k"
  shows "countOf (ls_shared st') k = countOf (ls_shared st) k + selectedSlots x k \<and>
         (\<forall>r t scopes. x = Selected r t scopes \<longrightarrow>
            t \<in> set ts \<and> scopes = providerScopes (lc_providers L) (tgt_provider t))"
  using assms by (rule failover_slots)

section \<open>The calls that are made\<close>

definition madeBy :: "target_ctx \<Rightarrow> (nat \<Rightarrow> attempt_env) \<Rightarrow> upstream_call \<Rightarrow> bool" where
  "madeBy C E c \<longleftrightarrow> c = callUpstream C (E (uc_attempt c)) (uc_attempt c)"

lemma callUpstream_fields [simp]:
  "uc_target (callUpstream C e a) = tc_index C" "uc_attempt (callUpstream C e a) = a"
  by (simp_all add: callUpstream_def split: prod.split)

text \<open>
  The calls of the attempts at one target: one for each of the first attempts, each counted once; the response that is
  passed on is the result of the last of them.
\<close>

definition attemptCalls :: "target_ctx \<Rightarrow> (nat \<Rightarrow> attempt_env) \<Rightarrow> nat list \<Rightarrow> attempt_exit \<Rightarrow> upstream_call list \<Rightarrow> bool" where
  "attemptCalls C E as x calls \<longleftrightarrow>
     map uc_attempt calls = take (length calls) as \<and> list_all (madeBy C E) calls \<and>
     (\<forall>resp scopes. x = Answered resp scopes \<longrightarrow>
        calls \<noteq> [] \<and> uc_result (last calls) = Inr resp \<and>
        \<not> shouldRetrySame (tc_retries C) (uc_attempt (last calls)) (resp_status resp) \<and>
        \<not> shouldFailover (tc_retries C) (uc_attempt (last calls)) (tc_hasAnother C) (resp_status resp))"

lemma attemptCalls_Nil: "(\<And>resp scopes. x \<noteq> Answered resp scopes) \<Longrightarrow> attemptCalls C E as x []"
  by (simp add: attemptCalls_def)

lemma attemptCalls_one:
  "(\<And>resp scopes. x = Answered resp scopes \<Longrightarrow> uc_result (callUpstream C (E a) a) = Inr resp \<and>
      \<not> shouldRetrySame (tc_retries C) a (resp_status resp) \<and> \<not> shouldFailover (tc_retries C) a (tc_hasAnother C) (resp_status resp)) \<Longrightarrow>
   attemptCalls C E (a # as) x [callUpstream C (E a) a]"
  by (simp add: attemptCalls_def madeBy_def)

lemma attemptCalls_Cons: "attemptCalls C E as x calls \<Longrightarrow> attemptCalls C E (a # as) x (callUpstream C (E a) a # calls)"
  by (auto simp: attemptCalls_def madeBy_def)

lemma attemptLoop_calls:
  "attemptLoop C E as st = Some (st', x) \<Longrightarrow>
   \<exists>calls. ls_calls st' = ls_calls st @ calls \<and> attemptCalls C E as x calls \<and>
     m_upstreamRequests (ls_metrics st') = m_upstreamRequests (ls_metrics st) + of_nat (length calls)"
proof (induction as arbitrary: st)
  case (Cons a as)
  have q: "m_upstreamRequests (countQueueWait b m) = m_upstreamRequests m" for b m by (simp add: countQueueWait_def)
  let ?c = "callUpstream C (E a) a" and ?n = "m_upstreamRequests (ls_metrics st)"
  have more: ?case if st1: "attemptLoop C E as st1 = Some (st', x)" "ls_calls st1 = ls_calls st @ [?c]" "m_upstreamRequests (ls_metrics st1) = ?n + 1" for st1
  proof -
    from Cons.IH [OF st1(1)] obtain calls where "ls_calls st' = ls_calls st1 @ calls" "attemptCalls C E as x calls"
      "m_upstreamRequests (ls_metrics st') = m_upstreamRequests (ls_metrics st1) + of_nat (length calls)" by blast
    with st1(2,3) attemptCalls_Cons show ?thesis by (intro exI [of _ "?c # calls"]) (simp add: add.assoc)
  qed
  obtain sh ok queued where w: "admitWithQueue (tc_waitTimeout C) (tc_scopes C) (ae_wait (E a)) (ae_before (E a) (ls_shared st)) = Some (sh, ok, queued)"
    using Cons.prems by (cases "admitWithQueue (tc_waitTimeout C) (tc_scopes C) (ae_wait (E a)) (ae_before (E a) (ls_shared st))") auto
  show ?case
  proof (cases "uc_result ?c")
    case (Inl err)
    with Cons.prems show ?thesis
      by (simp add: w Let_def q split: if_splits) (auto simp: q intro: attemptCalls_Nil attemptCalls_one elim!: more)
  next
    case (Inr resp)
    with Cons.prems show ?thesis
      by (simp add: w Let_def q split: if_splits) (auto simp: q intro: attemptCalls_Nil attemptCalls_one elim!: more)
  qed
qed (simp add: attemptCalls_def)

definition beforeCall :: "upstream_call \<Rightarrow> upstream_call \<Rightarrow> bool" where
  "beforeCall c d \<longleftrightarrow> uc_target c < uc_target d \<or> uc_target c = uc_target d \<and> uc_attempt c < uc_attempt d"

lemma attemptCalls_upto:
  assumes "attemptCalls C E [0..<n] x calls"
  shows "length calls \<le> n" and "sorted_wrt beforeCall calls" and "\<forall>c \<in> set calls. uc_target c = tc_index C \<and> uc_attempt c < n"
proof -
  have attempts: "map uc_attempt calls = take (length calls) [0..<n]" and made: "\<forall>c \<in> set calls. madeBy C E c"
    using assms by (auto simp: attemptCalls_def list_all_iff)
  have "length (map uc_attempt calls) = length (take (length calls) [0..<n])" unfolding attempts ..
  then show le: "length calls \<le> n" by simp
  have target: "uc_target c = tc_index C" if "c \<in> set calls" for c
  proof -
    have "c = callUpstream C (E (uc_attempt c)) (uc_attempt c)" using made that unfolding madeBy_def by blast
    then have "uc_target c = uc_target (callUpstream C (E (uc_attempt c)) (uc_attempt c))" by (rule arg_cong)
    then show ?thesis by simp
  qed
  have eq: "map uc_attempt calls = [0..<length calls]" using attempts le by (simp add: take_upt)
  have "uc_attempt c < n" if "c \<in> set calls" for c
  proof -
    have "uc_attempt c \<in> set (map uc_attempt calls)" using that by simp
    then show ?thesis unfolding eq using le by simp
  qed
  with target show "\<forall>c \<in> set calls. uc_target c = tc_index C \<and> uc_attempt c < n" by blast
  have "sorted_wrt (<) (map uc_attempt calls)" unfolding eq by (rule sorted_wrt_upt)
  then have "sorted_wrt (\<lambda>c d. uc_attempt c < uc_attempt d) calls" by (simp add: sorted_wrt_map)
  then show "sorted_wrt beforeCall calls"
    by (rule sorted_wrt_mono_rel [rotated]) (simp add: beforeCall_def target)
qed

text \<open>The calls of all targets together.\<close>

definition loopCalls :: "nat \<Rightarrow> nat \<Rightarrow> nat \<Rightarrow> upstream_call list \<Rightarrow> bool" where
  "loopCalls i m n calls \<longleftrightarrow>
     length calls \<le> m * n \<and> sorted_wrt beforeCall calls \<and>
     (\<forall>c \<in> set calls. i \<le> uc_target c \<and> uc_target c < i + m \<and> uc_attempt c < n)"

lemma loopCalls_one: "attemptCalls (targetCtx L i t body b) E [0..<n] x calls \<Longrightarrow> loopCalls i (Suc m) n calls"
proof -
  assume a: "attemptCalls (targetCtx L i t body b) E [0..<n] x calls"
  have "length calls \<le> Suc m * n" using attemptCalls_upto(1) [OF a] by simp
  with attemptCalls_upto(2,3) [OF a] show ?thesis by (simp add: loopCalls_def targetCtx_def)
qed

lemma loopCalls_append:
  assumes "attemptCalls (targetCtx L i t body b) E [0..<n] x calls" and "loopCalls (Suc i) m n calls'"
  shows "loopCalls i (Suc m) n (calls @ calls')"
  using attemptCalls_upto [OF assms(1)] assms(2)
  by (auto simp: loopCalls_def targetCtx_def sorted_wrt_append beforeCall_def)

lemma targetLoop_calls:
  assumes "targetLoop L E i ts st = Some (st', x)"
  shows "\<exists>calls. ls_calls st' = ls_calls st @ calls \<and> loopCalls i (length ts) (nat (lc_retries L + 1)) calls \<and>
           m_upstreamRequests (ls_metrics st') = m_upstreamRequests (ls_metrics st) + of_nat (length calls)"
  using assms
proof (induction ts arbitrary: i st)
  case (Cons t ts)
  have last: ?case if a: "attemptLoop (targetCtx L i t body (ts \<noteq> [])) (E i) [0..<nat (lc_retries L + 1)] st = Some (st', y)" for body y
    using attemptLoop_calls [OF a] loopCalls_one by fastforce
  from Cons.prems show ?case
  proof (cases rule: targetLoop_step)
    case encode
    then show ?thesis by (intro exI [of _ "[]"]) (simp add: loopCalls_def)
  next
    case (advance body st1)
    from attemptLoop_calls [OF advance(1)] Cons.IH [OF advance(2)] obtain calls calls' where
      "ls_calls st1 = ls_calls st @ calls" "ls_calls st' = ls_calls st1 @ calls'"
      "attemptCalls (targetCtx L i t body (ts \<noteq> [])) (E i) [0..<nat (lc_retries L + 1)] NextTarget calls"
      "loopCalls (Suc i) (length ts) (nat (lc_retries L + 1)) calls'"
      "m_upstreamRequests (ls_metrics st1) = m_upstreamRequests (ls_metrics st) + of_nat (length calls)"
      "m_upstreamRequests (ls_metrics st') = m_upstreamRequests (ls_metrics st1) + of_nat (length calls')" by blast
    then show ?thesis using loopCalls_append by (intro exI [of _ "calls @ calls'"]) (simp add: add.assoc)
  qed (use last in blast)+
qed (simp add: loopCalls_def)

text \<open>
  Claim C10. The work one client request can cause is bounded and counted: the calls of \<^verbatim>\<open>doUpstreamRequest\<close> that the target
  loop makes are at most \<^verbatim>\<open>targets * (retries + 1)\<close>, they go through targets and attempts in increasing
  order, so that no attempt is made twice, and the counter of provider requests grows by exactly their number.
\<close>

theorem upstream_requests_bounded:
  assumes "targetLoop L E i ts st = Some (st', x)"
  shows "\<exists>calls. ls_calls st' = ls_calls st @ calls \<and>
           length calls \<le> length ts * nat (lc_retries L + 1) \<and>
           sorted_wrt beforeCall calls \<and>
           (\<forall>c \<in> set calls. i \<le> uc_target c \<and> uc_target c < i + length ts \<and> uc_attempt c < nat (lc_retries L + 1)) \<and>
           m_upstreamRequests (ls_metrics st') = m_upstreamRequests (ls_metrics st) + of_nat (length calls)"
  using targetLoop_calls [OF assms] unfolding loopCalls_def by blast

section \<open>Which answer is passed on\<close>

text \<open>
  Claim C9. Failover is not given up early: a response with a retryable status reaches the client only as
  the result of the last call that was made, which was one to the last target; and unless the status is 404 or
  429, for which the code does not repeat a request, it was the last attempt there, the one with the number \<^verbatim>\<open>retries\<close>.
\<close>

theorem retryable_answer_only_last:
  assumes "targetLoop L E i ts st = Some (st', Selected resp t scopes)" and "retryableStatus (resp_status resp)"
  shows "t = last ts \<and>
         (\<exists>calls c. ls_calls st' = ls_calls st @ calls @ [c] \<and> uc_result c = Inr resp \<and> uc_target c = i + length ts - 1 \<and>
            (resp_status resp \<in> {404, 429} \<or> int (uc_attempt c) = lc_retries L))"
  using assms(1)
proof (induction ts arbitrary: i st)
  case (Cons u ts)
  from Cons.prems show ?case
  proof (cases rule: targetLoop_step)
    case (answer body r)
    from attemptLoop_calls [OF answer(1)] obtain calls where c: "ls_calls st' = ls_calls st @ calls"
      "attemptCalls (targetCtx L i u body (ts \<noteq> [])) (E i) [0..<nat (lc_retries L + 1)] (Answered r (providerScopes (lc_providers L) (tgt_provider u))) calls"
      by blast
    have r: "r = resp" "t = u" using answer(2) by auto
    have l: "calls \<noteq> []" "uc_result (last calls) = Inr resp"
      "\<not> shouldRetrySame (lc_retries L) (uc_attempt (last calls)) (resp_status resp)"
      "\<not> shouldFailover (lc_retries L) (uc_attempt (last calls)) (ts \<noteq> []) (resp_status resp)"
      using c(2) unfolding attemptCalls_def r by (auto simp: targetCtx_def)
    have u: "uc_target (last calls) = i" "uc_attempt (last calls) < nat (lc_retries L + 1)"
      using attemptCalls_upto(3) [OF c(2)] l(1) by (simp_all add: targetCtx_def)
    have "ts = []" using l(3,4) assms(2) by (simp add: shouldFailover_def)
    moreover have "resp_status resp \<in> {404, 429} \<or> int (uc_attempt (last calls)) = lc_retries L"
      using l(3) u(2) assms(2) by (auto simp: shouldRetrySame_def)
    moreover have "ls_calls st' = ls_calls st @ butlast calls @ [last calls]" using c(1) l(1) by simp
    ultimately show ?thesis
      using r(2) l(2) u(1) by (intro conjI exI [of _ "butlast calls"] exI [of _ "last calls"]) simp_all
  next
    case (advance body st1)
    obtain calls where "ls_calls st1 = ls_calls st @ calls" using attemptLoop_calls [OF advance(1)] by blast
    moreover from Cons.IH [OF advance(2)] obtain calls' c where "t = last ts" "ls_calls st' = ls_calls st1 @ calls' @ [c]"
      "uc_result c = Inr resp" "uc_target c = Suc i + length ts - 1" "resp_status resp \<in> {404, 429} \<or> int (uc_attempt c) = lc_retries L"
      by blast
    moreover have "ts \<noteq> []" using advance(2) by auto
    ultimately show ?thesis by (intro conjI exI [of _ "calls @ calls'"] exI [of _ c]) simp_all
  qed auto
qed simp

section \<open>Failover finds a working target\<close>

definition unlimited :: "limits \<Rightarrow> bool" where
  "unlimited l \<longleftrightarrow> requestsPerMinute l \<le> 0 \<and> maxConcurrent l \<le> 0"

lemma admitWithQueue_unlimited:
  "unlimited l \<Longrightarrow> admitWithQueue timeout [\<lparr>scope_key = k, scope_limits = l\<rparr>] env sh = Some (sh, True, False)"
  by (cases sh) (simp add: admitWithQueue_def wait_def admit_def unlimited_def takeOne_def Let_def)

text \<open>What a call gives does not depend on its number.\<close>

definition upstreamResult :: "target_ctx \<Rightarrow> attempt_env \<Rightarrow> upstream_error + http_response" where
  "upstreamResult C e =
     snd (doUpstreamRequest (w_getenv (tc_world C)) (ae_send e) (tc_path C) (tc_query C) (tc_header C) (tc_provider C) (tc_body C))"

lemma uc_result_call: "uc_result (callUpstream C e a) = upstreamResult C e"
  by (simp add: callUpstream_def upstreamResult_def split: prod.split)

text \<open>A result for which the code tries again somewhere, and one for which it tries again at the same target.\<close>

definition failed :: "upstream_error + http_response \<Rightarrow> bool" where
  "failed res = (case res of Inl err \<Rightarrow> True | Inr resp \<Rightarrow> retryableStatus (resp_status resp))"

definition repeats :: "target_ctx \<Rightarrow> attempt_env \<Rightarrow> bool" where
  "repeats C e =
     (case upstreamResult C e of
        Inl err \<Rightarrow> \<not> (prov_requestTimeout (tc_provider C) > 0 \<and> ae_timedOut e)
      | Inr resp \<Rightarrow> retryableStatus (resp_status resp) \<and> resp_status resp \<notin> {404, 429})"

text \<open>The request's context is alive throughout an attempt and the wait after it.\<close>

definition alive :: "nat \<Rightarrow> attempt_env \<Rightarrow> bool" where
  "alive a e \<longleftrightarrow> \<not> ae_ctxDone e \<and> waitForRetry (ae_backoff e) a"

lemma attemptLoop_passes:
  assumes "tc_hasAnother C" and "\<And>a. alive a (E a)" and "\<And>a. failed (upstreamResult C (E a))"
    and "\<And>a. boundedWait (tc_waitTimeout C) (ae_wait (E a))"
  shows "\<exists>st'. attemptLoop C E as st = Some (st', NextTarget)"
proof (induction as arbitrary: st)
  case (Cons a as)
  obtain sh ok queued where w: "admitWithQueue (tc_waitTimeout C) (tc_scopes C) (ae_wait (E a)) (ae_before (E a) (ls_shared st)) = Some (sh, ok, queued)"
    using admitWithQueue_bounded [OF assms(4)] by blast
  show ?case
    using assms(1) assms(2) [of a] assms(3) [of a]
    by (cases "upstreamResult C (E a)")
       (auto simp: w Let_def Cons.IH uc_result_call alive_def failed_def shouldFailover_def)
qed simp

lemma attemptLoop_answers:
  assumes "tc_scopes C = [\<lparr>scope_key = k, scope_limits = l\<rparr>]" and "unlimited l" and "int n \<le> tc_retries C"
    and "\<And>a. a < n \<Longrightarrow> alive a (E a) \<and> repeats C (E a)"
    and "upstreamResult C (E n) = Inr resp" and "\<not> retryableStatus (resp_status resp)" and "m \<le> n"
  shows "\<exists>st'. attemptLoop C E [m..<nat (tc_retries C + 1)] st = Some (st', Answered resp (tc_scopes C))"
  using assms(7)
proof (induction "n - m" arbitrary: m st)
  case 0
  then have "m = n" by simp
  moreover have "[n..<nat (tc_retries C + 1)] = n # [Suc n..<nat (tc_retries C + 1)]" using assms(3) by (simp add: upt_conv_Cons)
  ultimately show ?case
    using assms(5,6) by (simp add: assms(1,2) admitWithQueue_unlimited Let_def uc_result_call shouldRetrySame_def shouldFailover_def)
next
  case (Suc d)
  then have m: "m < n" "d = n - Suc m" "Suc m \<le> n" by auto
  have "[m..<nat (tc_retries C + 1)] = m # [Suc m..<nat (tc_retries C + 1)]" using assms(3) m(1) by (simp add: upt_conv_Cons)
  moreover have "int m < tc_retries C" using assms(3) m(1) by simp
  moreover note assms(4) [OF m(1)] Suc.hyps(1) [OF m(2,3)]
  ultimately show ?case
    by (cases "upstreamResult C (E m)")
       (auto simp: assms(1,2) admitWithQueue_unlimited Let_def uc_result_call shouldRetrySame_def alive_def repeats_def)
qed

text \<open>
  Claim C7. Failover reaches the first working target. Let every attempt at the targets before \<open>t\<close> end with an error or
  a retryable status, or be refused by the provider's limits after a wait that ends. Let \<open>t\<close> have no limits and answer attempt \<open>n\<close>, which is within
  the configured retries, with a status that is not retryable, after \<open>n\<close> attempts that the code
  repeats (errors that are no timeout of the provider, retryable statuses other than 404 and 429). If the request's
  context lives throughout, then the answer of \<open>t\<close> is the one that is selected.
\<close>

theorem failover_reaches_working_target:
  assumes "ts = pre @ t # post" and "marshal (AObj (lc_payload L)) \<noteq> None" and "int n \<le> lc_retries L"
    and "\<And>j a. alive a (E j a)" and "\<And>j a. boundedWait (lc_waitTimeout L) (ae_wait (E j a))"
    and "\<And>j a body. j < length pre \<Longrightarrow> targetBody L (pre ! j) = Some body \<Longrightarrow>
           failed (upstreamResult (targetCtx L (i + j) (pre ! j) body True) (E (i + j) a))"
    and "unlimited (prov_limits (providerOf (lc_providers L) (tgt_provider t)))"
    and "\<And>body. targetBody L t = Some body \<Longrightarrow>
           upstreamResult (targetCtx L (i + length pre) t body (post \<noteq> [])) (E (i + length pre) n) = Inr resp \<and>
           (\<forall>a < n. repeats (targetCtx L (i + length pre) t body (post \<noteq> [])) (E (i + length pre) a))"
    and "\<not> retryableStatus (resp_status resp)"
  shows "\<exists>st'. targetLoop L E i ts st = Some (st', Selected resp t (providerScopes (lc_providers L) (tgt_provider t)))"
  using assms(1,6,8)
proof (induction pre arbitrary: ts i st)
  case Nil
  obtain body where body: "targetBody L t = Some body" using target_has_form [OF assms(2)] unfolding targetBody_def by blast
  let ?C = "targetCtx L i t body (post \<noteq> [])"
  have C: "tc_retries ?C = lc_retries L" "tc_scopes ?C = providerScopes (lc_providers L) (tgt_provider t)" by (simp_all add: targetCtx_def)
  have "\<exists>st'. attemptLoop ?C (E i) [0..<nat (tc_retries ?C + 1)] st = Some (st', Answered resp (tc_scopes ?C))"
    using Nil.prems(3) [OF body] assms(3,4,7,9) C by (intro attemptLoop_answers [where n = n]) (auto simp: providerScopes_def)
  then show ?case using body Nil.prems(1) C by auto
next
  case (Cons u pre)
  obtain body where body: "targetBody L u = Some body" using target_has_form [OF assms(2)] unfolding targetBody_def by blast
  let ?C = "targetCtx L i u body True"
  have C: "tc_hasAnother ?C" "tc_waitTimeout ?C = lc_waitTimeout L" by (simp_all add: targetCtx_def)
  have "failed (upstreamResult ?C (E i a))" for a using Cons.prems(2) [of 0 body a] body by simp
  then obtain st1 where a: "attemptLoop ?C (E i) [0..<nat (lc_retries L + 1)] st = Some (st1, NextTarget)"
    using attemptLoop_passes [of ?C "E i"] C assms(4,5) by metis
  have "\<exists>st'. targetLoop L E (Suc i) (pre @ t # post) st1 = Some (st', Selected resp t (providerScopes (lc_providers L) (tgt_provider t)))"
  proof (rule Cons.IH)
    show "failed (upstreamResult (targetCtx L (Suc i + j) (pre ! j) b True) (E (Suc i + j) a))"
      if "j < length pre" "targetBody L (pre ! j) = Some b" for j a b
      using Cons.prems(2) [of "Suc j" b a] that by simp
    show "upstreamResult (targetCtx L (Suc i + length pre) t b (post \<noteq> [])) (E (Suc i + length pre) n) = Inr resp \<and>
        (\<forall>a < n. repeats (targetCtx L (Suc i + length pre) t b (post \<noteq> [])) (E (Suc i + length pre) a))"
      if "targetBody L t = Some b" for b
      using Cons.prems(3) [OF that] by simp
  qed simp
  with a body Cons.prems(1) show ?case by simp
qed

section \<open>Example runs\<close>

definition zeroMetrics :: metrics where
  "zeroMetrics = \<lparr>m_requests = 0, m_completed = 0, m_failed = 0, m_active = 0, m_upstreamRequests = 0,
     m_upstreamErrors = 0, m_queueWaits = 0, m_queueRejected = 0, m_durationNanos = 0\<rparr>"

text \<open>A wait that the client gives up.\<close>

definition endingWait :: "limitStore wait_env" where
  "endingWait = \<lparr>first_now = 0, between = (\<lambda>x. x), events = [Cancelled]\<rparr>"

definition statusResponse :: "int \<Rightarrow> http_response" where
  "statusResponse status = \<lparr>resp_status = status, resp_header = [], resp_reads = [], resp_readFails = False\<rparr>"

definition answering :: "int \<Rightarrow> attempt_env" where
  "answering status = \<lparr>ae_before = (\<lambda>x. x), ae_wait = endingWait, ae_send = (\<lambda>_. Some (statusResponse status)),
     ae_during = (\<lambda>x. x), ae_timedOut = False, ae_ctxDone = False, ae_backoff = None\<rparr>"

text \<open>Two providers, one without limits and one for one request at a time; one retry.\<close>

definition busyProvider :: providerConfig where
  "busyProvider = exampleProvider\<lparr>prov_limits := zeroLimits\<lparr>maxConcurrent := 1\<rparr>\<rparr>"

definition exampleLoop :: loop_ctx where
  "exampleLoop = \<lparr>lc_world = quietWorld, lc_waitTimeout = 0, lc_path = ''/v1/chat/completions'', lc_query = [],
     lc_header = [], lc_retries = 1, lc_providers = [(''a'', exampleProvider), (''b'', busyProvider)], lc_payload = []\<rparr>"

definition exampleTarget :: "string \<Rightarrow> targetConfig" where
  "exampleTarget p = \<lparr>tgt_provider = p, tgt_model = ''m''\<rparr>"

definition exampleStart :: "limitStore \<Rightarrow> loop_state" where
  "exampleStart s = \<lparr>ls_shared = (newRequestQueue 0, s), ls_calls = [], ls_metrics = zeroMetrics, ls_lastErr = None, ls_limited = False\<rparr>"

abbreviation exampleRun :: "(nat \<Rightarrow> nat \<Rightarrow> int) \<Rightarrow> string list \<Rightarrow> limitStore \<Rightarrow> (loop_state \<times> target_exit) option" where
  "exampleRun status names s \<equiv>
     targetLoop exampleLoop (\<lambda>i a. answering (status i a)) 0 (map exampleTarget names) (exampleStart s)"

lemma example_upstream:
  assumes "p \<in> {''a'', ''b''}" and "redirectBehavior ''POST'' status = None"
  shows "upstreamResult (targetCtx exampleLoop i (exampleTarget p) body another) (answering status) = Inr (statusResponse status)"
proof -
  let ?C = "targetCtx exampleLoop i (exampleTarget p) body another"
  let ?u = "emptyURL\<lparr>url_Scheme := ''http'', url_Host := ''localhost:9999'', url_Path := ''/v1/chat/completions''\<rparr>"
  have p: "prov_baseURL (tc_provider ?C) = ''http://localhost:9999/v1''" "tc_path ?C = ''/v1/chat/completions''"
    "tc_query ?C = []" "w_getenv (tc_world ?C) = (\<lambda>_. [])" "prov_apiKeyEnv (tc_provider ?C) = []" "prov_headers (tc_provider ?C) = []"
    using assms(1) by (auto simp: targetCtx_def exampleLoop_def providerOf_def exampleTarget_def busyProvider_def exampleProvider_def quietWorld_def)
  obtain hs where "upstreamHeaders (\<lambda>_. []) (tc_header ?C) (tc_provider ?C) = Inr hs"
    using p(5,6) by (simp add: upstreamHeaders_def applyProviderHeaders_def)
  with p assms(2) show ?thesis
    by (simp add: upstreamResult_def doUpstreamRequest_def example_targets_parsed answering_def statusResponse_def newRequest_def clientDo_final)
qed

lemma neutral_answering: "neutralAttempt (answering status)"
  by (simp add: neutralAttempt_def neutralWait_def neutral_def answering_def endingWait_def)

lemma bounded_answering: "boundedWait timeout (ae_wait (answering status))"
  by (simp add: boundedWait_def answering_def endingWait_def)

lemma alive_answering: "alive a (answering status)"
  by (simp add: alive_def answering_def)

lemma empty_form: "marshal (AObj []) \<noteq> None"
  by (simp add: marshal_def)

definition selects :: "(loop_state \<times> target_exit) option \<Rightarrow> http_response \<Rightarrow> targetConfig \<Rightarrow> bool" where
  "selects run resp t = (case run of Some (st', Selected r u scopes) \<Rightarrow> r = resp \<and> u = t | _ \<Rightarrow> False)"

lemma selects_run: "selects run resp t \<Longrightarrow> \<exists>st' scopes. run = Some (st', Selected resp t scopes)"
proof -
  assume s: "selects run resp t"
  then obtain st' x where "run = Some (st', x)" by (cases run) (auto simp: selects_def)
  with s show ?thesis by (cases x) (simp_all add: selects_def)
qed

text \<open>The slot of a provider with a limit is held when its response is passed on.\<close>

theorem failover_holds_selected_slot_witness:
  "\<exists>st' scopes. exampleRun (\<lambda>_ _. 200) [''b''] newLimitStore = Some (st', Selected (statusResponse 200) (exampleTarget ''b'') scopes) \<and>
     countOf (ls_shared st') ''provider:b'' = 1"
proof -
  have "selects (exampleRun (\<lambda>_ _. 200) [''b''] newLimitStore) (statusResponse 200) (exampleTarget ''b'')" by code_simp
  then obtain st' scopes where r: "exampleRun (\<lambda>_ _. 200) [''b''] newLimitStore = Some (st', Selected (statusResponse 200) (exampleTarget ''b'') scopes)"
    using selects_run by blast
  have "countOf (ls_shared (exampleStart newLimitStore)) k = 0" for k
    by (simp add: exampleStart_def newLimitStore_def concCount_def)
  with failover_holds_selected_slot [OF r neutral_answering, of "''provider:b''"] r show ?thesis
    by (auto simp: providerScopes_def providerOf_def exampleLoop_def exampleTarget_def busyProvider_def zeroLimits_def)
qed

text \<open>A server error is passed on after the retry.\<close>

theorem retryable_answer_only_last_witness:
  "\<exists>st' scopes calls c. exampleRun (\<lambda>_ _. 503) [''a''] newLimitStore = Some (st', Selected (statusResponse 503) (exampleTarget ''a'') scopes) \<and>
     ls_calls st' = calls @ [c] \<and> uc_attempt c = 1"
proof -
  have "selects (exampleRun (\<lambda>_ _. 503) [''a''] newLimitStore) (statusResponse 503) (exampleTarget ''a'')" by code_simp
  then obtain st' scopes where r: "exampleRun (\<lambda>_ _. 503) [''a''] newLimitStore = Some (st', Selected (statusResponse 503) (exampleTarget ''a'') scopes)"
    using selects_run by blast
  have "retryableStatus (resp_status (statusResponse 503))" by (simp add: retryableStatus_def statusResponse_def)
  from retryable_answer_only_last [OF r this] r show ?thesis by (auto simp: exampleStart_def exampleLoop_def statusResponse_def)
qed

text \<open>Two targets that fail twice each use up the bound.\<close>

theorem upstream_requests_bounded_witness:
  "\<exists>st' x. exampleRun (\<lambda>_ _. 503) [''a'', ''b''] newLimitStore = Some (st', x) \<and> length (ls_calls st') = 4 \<and>
     m_upstreamRequests (ls_metrics st') = 4"
proof -
  have "(case exampleRun (\<lambda>_ _. 503) [''a'', ''b''] newLimitStore of Some (st', x) \<Rightarrow> length (ls_calls st') = 4 | None \<Rightarrow> False)" by code_simp
  then obtain st' x where r: "exampleRun (\<lambda>_ _. 503) [''a'', ''b''] newLimitStore = Some (st', x)" "length (ls_calls st') = 4"
    by (auto split: option.splits)
  from upstream_requests_bounded [OF r(1)] r(2) have "m_upstreamRequests (ls_metrics st') = 4"
    by (auto simp: exampleStart_def zeroMetrics_def)
  with r show ?thesis by blast
qed

text \<open>The first target fails, the second fails once and then answers.\<close>

theorem failover_reaches_working_target_witness:
  "\<exists>st'. exampleRun (\<lambda>i a. if i = 1 \<and> a = 1 then 200 else 503) [''b'', ''a''] newLimitStore =
     Some (st', Selected (statusResponse 200) (exampleTarget ''a'') (providerScopes (lc_providers exampleLoop) (tgt_provider (exampleTarget ''a''))))"
proof (rule failover_reaches_working_target [where pre = "[exampleTarget ''b'']" and post = "[]" and n = 1])
  have s: "redirectBehavior ''POST'' 503 = None" "redirectBehavior ''POST'' 200 = None" by code_simp+
  note up = example_upstream [OF _ s(1)] example_upstream [OF _ s(2)]
  show "failed (upstreamResult (targetCtx exampleLoop (0 + j) ([exampleTarget ''b''] ! j) body True)
      (answering (if 0 + j = 1 \<and> a = 1 then 200 else 503)))" if "j < length [exampleTarget ''b'']" for j a body
    using that up(1) by (simp add: failed_def retryableStatus_def statusResponse_def)
  show "upstreamResult (targetCtx exampleLoop (0 + length [exampleTarget ''b'']) (exampleTarget ''a'') body ([] \<noteq> []))
      (answering (if 0 + length [exampleTarget ''b''] = 1 \<and> 1 = (1::nat) then 200 else 503)) = Inr (statusResponse 200) \<and>
    (\<forall>a < (1::nat). repeats (targetCtx exampleLoop (0 + length [exampleTarget ''b'']) (exampleTarget ''a'') body ([] \<noteq> []))
      (answering (if 0 + length [exampleTarget ''b''] = 1 \<and> a = 1 then 200 else 503)))" for body
    using up by (simp add: repeats_def retryableStatus_def statusResponse_def)
qed (use empty_form in \<open>simp_all add: alive_answering bounded_answering exampleLoop_def providerOf_def
    exampleTarget_def exampleProvider_def zeroLimits_def unlimited_def statusResponse_def retryableStatus_def\<close>)

text \<open>
  The message that all targets are rate limited is sent although one of them answered: a
  first target that answers with a server error and a second that is at its limit give a 429, since
  only transport errors are remembered.
\<close>

lemma rate_limited_reply_hides_failure:
  "(case exampleRun (\<lambda>_ _. 503) [''a'', ''b''] (fst (admit newLimitStore 0 (providerScopes (lc_providers exampleLoop) ''b''))) of
      Some (st', x) \<Rightarrow>
        x = Exhausted \<and> m_upstreamRequests (ls_metrics st') = 2 \<and>
        exhaustedReply False st' = (429, ''all provider targets are rate limited'')
    | None \<Rightarrow> False)"
  by code_simp

end
