(* ===== verification/Streams.thy ===== *)
theory Streams
  imports Headers
begin

text \<open>
  Bodies on their way through the gateway: the bounded buffers behind request and response logging
  (\<^verbatim>\<open>logBodyBuffer\<close> of \<^verbatim>\<open>logging.go\<close>) and usage accounting (\<^verbatim>\<open>tailBuffer\<close> of \<^verbatim>\<open>gateway.go\<close>), the
  writer that flushes server-sent events, the log records, and the copy loop that ties them
  together at the end of \<^verbatim>\<open>proxy\<close>. A byte sequence is a \<^typ>\<open>string\<close>.
\<close>

section \<open>The head of a body\<close>

record logBodyBuffer =
  lb_buf :: string
  lb_limit :: int
  lb_truncated :: bool

definition newLogBodyBuffer :: "int \<Rightarrow> logBodyBuffer" where
  "newLogBodyBuffer limit = \<lparr>lb_buf = [], lb_limit = limit, lb_truncated = False\<rparr>"

text \<open>The count the writer reports is the second component.\<close>

definition logBodyBuffer_Write :: "string \<Rightarrow> logBodyBuffer \<Rightarrow> logBodyBuffer \<times> nat" where
  "logBodyBuffer_Write p b =
     (if lb_limit b \<le> 0 then (b\<lparr>lb_truncated := True\<rparr>, length p)
      else let remaining = lb_limit b - int (length (lb_buf b)) in
        if remaining \<le> 0 then (b\<lparr>lb_truncated := True\<rparr>, length p)
        else if int (length p) > remaining then
          (b\<lparr>lb_buf := lb_buf b @ take (nat remaining) p, lb_truncated := True\<rparr>, length p)
        else (b\<lparr>lb_buf := lb_buf b @ p\<rparr>, length p))"

definition boundedLogBody :: "string \<Rightarrow> int \<Rightarrow> string \<times> bool" where
  "boundedLogBody body limit =
     (let b = fst (logBodyBuffer_Write body (newLogBodyBuffer limit)) in (lb_buf b, lb_truncated b))"

section \<open>The tail of a body\<close>

record tailBuffer =
  tb_buf :: string
  tb_limit :: nat

definition usageCaptureLimit :: nat where
  "usageCaptureLimit = 2097152"

text \<open>Go's \<^verbatim>\<open>copy\<close> between overlapping slices of one array behaves as if the source were copied first.\<close>

definition goCopy :: "string \<Rightarrow> string \<Rightarrow> string" where
  "goCopy dst src = take (length dst) src @ drop (length src) dst"

definition tailBuffer_Write :: "string \<Rightarrow> tailBuffer \<Rightarrow> tailBuffer \<times> nat" where
  "tailBuffer_Write p b =
     (let original = length p in
      if length p \<ge> tb_limit b then (b\<lparr>tb_buf := drop (length p - tb_limit b) p\<rparr>, original)
      else
        let overflow = int (length (tb_buf b)) + int (length p) - int (tb_limit b);
            kept = (if overflow > 0
                    then take (length (tb_buf b) - nat overflow) (goCopy (tb_buf b) (drop (nat overflow) (tb_buf b)))
                    else tb_buf b)
        in (b\<lparr>tb_buf := kept @ p\<rparr>, original))"

section \<open>Log records\<close>

record configLogging =
  cl_enabled :: bool
  cl_requests :: bool
  cl_responses :: bool
  cl_includeBodies :: bool
  cl_maxBodyBytes :: int

definition newConfigLogging :: "loggingConfig \<Rightarrow> configLogging" where
  "newConfigLogging cfg =
     \<lparr>cl_enabled = log_enabled cfg, cl_requests = log_requests cfg, cl_responses = log_responses cfg,
      cl_includeBodies = log_includeBodies cfg, cl_maxBodyBytes = log_maxBodyBytes cfg\<rparr>"

datatype log_value = LStr string | LInt int | LBool bool | LHeaders "string gomap"

type_synonym log_record = "string \<times> (string \<times> log_value) list"

definition logRequest ::
    "configLogging \<Rightarrow> string \<Rightarrow> string \<Rightarrow> header \<Rightarrow> string \<Rightarrow> string \<Rightarrow> log_record list" where
  "logRequest cfg meth path h model body =
     (if \<not> cl_enabled cfg \<or> \<not> cl_requests cfg then []
      else
        let attrs = [(''method'', LStr meth), (''path'', LStr path), (''model'', LStr model),
                     (''headers'', LHeaders (loggedHeaders h))];
            attrs' = (if cl_includeBodies cfg then
                        (case boundedLogBody body (cl_maxBodyBytes cfg) of (v, trunc) \<Rightarrow>
                           attrs @ [(''body'', LStr v), (''body_truncated'', LBool trunc)])
                      else attrs)
        in [(''client request'', attrs')])"

definition logResponse ::
    "configLogging \<Rightarrow> int \<Rightarrow> header \<Rightarrow> string \<Rightarrow> string \<Rightarrow> logBodyBuffer option \<Rightarrow> log_record list" where
  "logResponse cfg status h provider model body =
     (if \<not> cl_enabled cfg \<or> \<not> cl_responses cfg then []
      else
        let attrs = [(''status'', LInt status), (''provider'', LStr provider), (''upstream_model'', LStr model),
                     (''headers'', LHeaders (loggedHeaders h))];
            attrs' = (case body of
                        Some b \<Rightarrow> if cl_includeBodies cfg
                                  then attrs @ [(''body'', LStr (lb_buf b)), (''body_truncated'', LBool (lb_truncated b))]
                                  else attrs
                      | None \<Rightarrow> attrs)
        in [(''provider response'', attrs')])"

section \<open>Writing to the client\<close>

text \<open>
  The client's side of the connection: the bytes accepted, how many of them are flushed, and the
  write deadline. What the connection does with one write is decided outside: whether setting the
  deadline fails, how many bytes are accepted and whether the write reports an error.
\<close>

record client_conn =
  cc_sent :: string
  cc_flushed :: nat
  cc_deadline :: "int option"

datatype deadline_result = DeadlineSet | DeadlineNotSupported | DeadlineFailed

record write_env =
  we_now :: int
  we_deadline :: deadline_result
  we_accepts :: nat
  we_fails :: bool

datatype write_error = DeadlineError | ConnectionError | ShortWrite | ReadError

definition connWrite :: "write_env \<Rightarrow> string \<Rightarrow> client_conn \<Rightarrow> client_conn \<times> nat \<times> write_error option" where
  "connWrite e p c =
     (let n = min (we_accepts e) (length p) in
      (c\<lparr>cc_sent := cc_sent c @ take n p\<rparr>, n, if we_fails e then Some ConnectionError else None))"

definition flushWriter_Write ::
    "int \<Rightarrow> write_env \<Rightarrow> string \<Rightarrow> client_conn \<Rightarrow> client_conn \<times> nat \<times> write_error option" where
  "flushWriter_Write writeIdleTimeout e p c =
     (if writeIdleTimeout > 0 \<and> we_deadline e = DeadlineFailed then (c, 0, Some DeadlineError)
      else
        let c1 = (if writeIdleTimeout > 0 \<and> we_deadline e = DeadlineSet
                  then c\<lparr>cc_deadline := Some (we_now e + writeIdleTimeout)\<rparr> else c)
        in case connWrite e p c1 of (c2, n, err) \<Rightarrow> (c2\<lparr>cc_flushed := length (cc_sent c2)\<rparr>, n, err))"

text \<open>
  \<^verbatim>\<open>io.Copy\<close> from the provider's body, through the tee readers of the log buffer (when there is one)
  and of the usage capture, to the client. The body arrives as a list of reads; \<open>readFails\<close> says
  whether it ends with an error instead of the end of the stream. Each read is paired with what the
  connection will do with the write that follows it.
\<close>

record stream_state =
  ss_log :: "logBodyBuffer option"
  ss_capture :: tailBuffer
  ss_conn :: client_conn

definition teeRead :: "string \<Rightarrow> stream_state \<Rightarrow> stream_state" where
  "teeRead p st =
     st\<lparr>ss_log := map_option (\<lambda>b. fst (logBodyBuffer_Write p b)) (ss_log st),
        ss_capture := fst (tailBuffer_Write p (ss_capture st))\<rparr>"

fun copyStream ::
    "(write_env \<Rightarrow> string \<Rightarrow> client_conn \<Rightarrow> client_conn \<times> nat \<times> write_error option) \<Rightarrow> bool
     \<Rightarrow> (string \<times> write_env) list \<Rightarrow> stream_state \<Rightarrow> stream_state \<times> write_error option" where
  "copyStream write readFails [] st = (st, if readFails then Some ReadError else None)"
| "copyStream write readFails ((p, e) # rest) st =
     (if p = [] then copyStream write readFails rest st
      else
        let st1 = teeRead p st in
        case write e p (ss_conn st1) of (c, n, err) \<Rightarrow>
          let st2 = st1\<lparr>ss_conn := c\<rparr> in
          case err of
            Some x \<Rightarrow> (st2, Some x)
          | None \<Rightarrow> if n \<noteq> length p then (st2, Some ShortWrite) else copyStream write readFails rest st2)"

text \<open>The setup before the copy: what is teed, and which writer is used.\<close>

definition beginStream :: "configLogging \<Rightarrow> client_conn \<Rightarrow> stream_state" where
  "beginStream cfg c =
     \<lparr>ss_log = (if cl_enabled cfg \<and> cl_responses cfg \<and> cl_includeBodies cfg
                then Some (newLogBodyBuffer (cl_maxBodyBytes cfg)) else None),
      ss_capture = \<lparr>tb_buf = [], tb_limit = usageCaptureLimit\<rparr>, ss_conn = c\<rparr>"

definition isEventStream :: "header \<Rightarrow> bool" where
  "isEventStream h \<longleftrightarrow> containsStr (headerGet h ''Content-Type'') ''text/event-stream''"

definition clientWriter ::
    "bool \<Rightarrow> int \<Rightarrow> write_env \<Rightarrow> string \<Rightarrow> client_conn \<Rightarrow> client_conn \<times> nat \<times> write_error option" where
  "clientWriter eventStream writeIdleTimeout =
     (if eventStream then flushWriter_Write writeIdleTimeout else connWrite)"

section \<open>Sinks\<close>

text \<open>
  What the tee readers rely on: a sink accepts every byte offered to it and represents, in its own
  way, everything written so far.
\<close>

locale byte_sink =
  fixes put :: "string \<Rightarrow> 'b \<Rightarrow> 'b \<times> nat" and rep :: "'b \<Rightarrow> string \<Rightarrow> bool"
  assumes write_all: "snd (put p b) = length p"
    and rep_write: "rep b xs \<Longrightarrow> rep (fst (put p b)) (xs @ p)"
begin

lemma rep_writes: "rep b xs \<Longrightarrow> rep (fold (\<lambda>p b. fst (put p b)) ps b) (xs @ concat ps)"
  using rep_write by (induction ps arbitrary: b xs) (auto, metis append_assoc)

end

definition lastN :: "nat \<Rightarrow> string \<Rightarrow> string" where
  "lastN n xs = drop (length xs - n) xs"

definition headOf :: "int \<Rightarrow> logBodyBuffer \<Rightarrow> string \<Rightarrow> bool" where
  "headOf L b xs \<longleftrightarrow>
     lb_limit b = L \<and> lb_buf b = take (nat L) xs \<and>
     (length xs > nat L \<longrightarrow> lb_truncated b) \<and> (lb_truncated b \<longrightarrow> length xs \<ge> nat L)"

definition tailOf :: "nat \<Rightarrow> tailBuffer \<Rightarrow> string \<Rightarrow> bool" where
  "tailOf n b xs \<longleftrightarrow> tb_limit b = n \<and> tb_buf b = lastN n xs"

lemma nat_sub_int: "nat (l - int k) = nat l - k"
  by simp

interpretation logsink: byte_sink logBodyBuffer_Write "headOf L" for L
proof unfold_locales
  fix p b xs
  show "snd (logBodyBuffer_Write p b) = length p" by (simp add: logBodyBuffer_Write_def Let_def)
  show "headOf L b xs \<Longrightarrow> headOf L (fst (logBodyBuffer_Write p b)) (xs @ p)"
    by (auto simp: headOf_def logBodyBuffer_Write_def Let_def min_def not_less nat_sub_int)
qed

lemma lastN_append_long: "n \<le> length p \<Longrightarrow> lastN n (xs @ p) = drop (length p - n) p"
  by (simp add: lastN_def)

lemma goCopy_shift: "k \<le> length xs \<Longrightarrow> take (length xs - k) (goCopy xs (drop k xs)) = drop k xs"
  by (simp add: goCopy_def)

interpretation tailsink: byte_sink tailBuffer_Write "tailOf n" for n
proof unfold_locales
  fix p b xs
  show "snd (tailBuffer_Write p b) = length p" by (simp add: tailBuffer_Write_def Let_def)
  assume r: "tailOf n b xs"
  show "tailOf n (fst (tailBuffer_Write p b)) (xs @ p)"
  proof (cases "n \<le> length p")
    case True
    with r show ?thesis by (simp add: tailOf_def tailBuffer_Write_def lastN_append_long)
  next
    case False
    let ?o = "length (lastN n xs) + length p - n"
    have "?o \<le> length (lastN n xs)" using False by simp
    then have "take (length (lastN n xs) - ?o) (goCopy (lastN n xs) (drop ?o (lastN n xs))) = drop ?o (lastN n xs)"
      by (rule goCopy_shift)
    moreover have "nat (int (length (lastN n xs)) + int (length p) - int n) = ?o" by (simp add: nat_diff_distrib' nat_int_add)
    moreover have "drop ?o (lastN n xs) @ p = lastN n (xs @ p)"
      using False by (cases "n \<le> length xs") (auto simp: lastN_def add.commute)
    ultimately show ?thesis
      using r False by (auto simp: tailOf_def tailBuffer_Write_def Let_def not_less not_le)
  qed
qed

text \<open>
  The usage capture holds exactly the last \<open>n\<close> bytes of everything written to it, however
  the stream was cut into writes, and never more.
\<close>

lemma tail_buffer_keeps_tail:
  "tb_buf (fold (\<lambda>p b. fst (tailBuffer_Write p b)) ps \<lparr>tb_buf = [], tb_limit = n\<rparr>) = lastN n (concat ps)"
proof -
  have "tailOf n \<lparr>tb_buf = [], tb_limit = n\<rparr> []" by (simp add: tailOf_def lastN_def)
  from tailsink.rep_writes [OF this] show ?thesis by (simp add: tailOf_def)
qed

text \<open>
  A logged body is the first \<open>limit\<close> bytes of what was written, however it was cut into
  writes; the truncation mark is set whenever bytes are missing, and only when the limit was
  reached.
\<close>

lemma log_buffer_keeps_head:
  "(let b = fold (\<lambda>p b. fst (logBodyBuffer_Write p b)) ps (newLogBodyBuffer limit) in
    lb_buf b = take (nat limit) (concat ps) \<and>
    (lb_buf b \<noteq> concat ps \<longrightarrow> lb_truncated b) \<and>
    (lb_truncated b \<longrightarrow> length (concat ps) \<ge> nat limit))"
proof -
  have "headOf limit (newLogBodyBuffer limit) []" by (simp add: headOf_def newLogBodyBuffer_def)
  from logsink.rep_writes [OF this] show ?thesis by (auto simp: headOf_def Let_def not_le)
qed

lemma log_buffer_keeps_head_example:
  "(let b = fold (\<lambda>p b. fst (logBodyBuffer_Write p b)) [''abc'', ''def''] (newLogBodyBuffer 4) in
    lb_buf b = ''abcd'' \<and> lb_truncated b)"
  using log_buffer_keeps_head [where ps = "[''abc'', ''def'']" and limit = 4] by (simp add: Let_def)

section \<open>The copy to the client\<close>

text \<open>What the copy loop relies on: a write accepts some prefix of its argument and says how long it is.\<close>

locale client_writer =
  fixes wr :: "write_env \<Rightarrow> string \<Rightarrow> client_conn \<Rightarrow> client_conn \<times> nat \<times> write_error option"
  assumes sends: "wr e p c = (c', n, err) \<Longrightarrow> n \<le> length p \<and> cc_sent c' = cc_sent c @ take n p"
begin

lemma copy_prefix:
  assumes "copyStream wr rf ps st = (st', err)"
    and "tailOf n (ss_capture st) done0" and "pred_option (\<lambda>b. headOf L b done0) (ss_log st)"
    and "cc_sent (ss_conn st) = done0"
  shows "\<exists>rd. prefix rd (done0 @ concat (map fst ps)) \<and> prefix (cc_sent (ss_conn st')) rd \<and>
           tailOf n (ss_capture st') rd \<and> pred_option (\<lambda>b. headOf L b rd) (ss_log st') \<and>
           (err = None \<longrightarrow> rd = done0 @ concat (map fst ps) \<and> cc_sent (ss_conn st') = rd)"
  using assms
proof (induction ps arbitrary: st done0)
  case Nil
  then show ?case by (intro exI [of _ done0]) auto
next
  case (Cons x ps)
  obtain p e where x: "x = (p, e)" by force
  show ?case
  proof (cases "p = []")
    case True
    then show ?thesis using Cons x by auto
  next
    case False
    let ?st1 = "teeRead p st"
    obtain c k er where w: "wr e p (ss_conn ?st1) = (c, k, er)" by (metis surj_pair)
    have conn: "ss_conn ?st1 = ss_conn st" by (simp add: teeRead_def)
    have sent: "k \<le> length p" "cc_sent c = done0 @ take k p"
      using sends [OF w] conn Cons.prems(4) by auto
    have tail: "tailOf n (ss_capture ?st1) (done0 @ p)"
      using tailsink.rep_write [OF Cons.prems(2)] by (simp add: teeRead_def)
    have head: "pred_option (\<lambda>b. headOf L b (done0 @ p)) (ss_log ?st1)"
      using Cons.prems(3) logsink.rep_write by (cases "ss_log st") (auto simp: teeRead_def)
    show ?thesis
    proof (cases "er = None \<and> k = length p")
      case True
      then have "copyStream wr rf ps (?st1\<lparr>ss_conn := c\<rparr>) = (st', err)"
        using Cons.prems(1) False x w by simp
      from Cons.IH [OF this, of "done0 @ p"] tail head sent True x show ?thesis by simp
    next
      case False2: False
      then have "st' = ?st1\<lparr>ss_conn := c\<rparr>" "err \<noteq> None"
        using Cons.prems(1) False x w by (auto simp: Let_def split: option.splits if_splits)
      then show ?thesis
        using tail head sent x
        by (intro exI [of _ "done0 @ p"]) (auto simp: take_is_prefix)
    qed
  qed
qed

end

interpretation plain: client_writer connWrite
  by unfold_locales (auto simp: connWrite_def Let_def)

interpretation flushed: client_writer "flushWriter_Write t" for t
  by unfold_locales
     (auto simp: flushWriter_Write_def connWrite_def Let_def split: if_splits)

interpretation cw: client_writer "clientWriter es t" for es t
  by unfold_locales (auto simp: clientWriter_def split: if_splits dest: plain.sends flushed.sends)

text \<open>
  Claim C11. Streaming is faithful. Whatever the connection does, the client receives a prefix of
  the provider's body, nothing is reordered, duplicated or inserted; when the copy ends without an
  error the client has the whole body. Usage accounting sees the last two megabytes of what was
  read, and the response log its head.
\<close>

theorem stream_faithful:
  assumes "copyStream (clientWriter es t) readFails reads (beginStream cfg \<lparr>cc_sent = [], cc_flushed = 0, cc_deadline = d\<rparr>) = (st, err)"
  shows "\<exists>body. prefix body (concat (map fst reads)) \<and> prefix (cc_sent (ss_conn st)) body \<and>
           tb_buf (ss_capture st) = lastN usageCaptureLimit body \<and>
           (\<forall>b. ss_log st = Some b \<longrightarrow> lb_buf b = take (nat (cl_maxBodyBytes cfg)) body) \<and>
           (err = None \<longrightarrow> cc_sent (ss_conn st) = concat (map fst reads))"
proof -
  let ?st = "beginStream cfg \<lparr>cc_sent = [], cc_flushed = 0, cc_deadline = d\<rparr>"
  have "tailOf usageCaptureLimit (ss_capture ?st) []" by (simp add: beginStream_def tailOf_def lastN_def)
  moreover have "pred_option (\<lambda>b. headOf (cl_maxBodyBytes cfg) b []) (ss_log ?st)"
    by (simp add: beginStream_def headOf_def newLogBodyBuffer_def)
  moreover have "cc_sent (ss_conn ?st) = []" by (simp add: beginStream_def)
  ultimately obtain rd where "prefix rd (concat (map fst reads))" "prefix (cc_sent (ss_conn st)) rd"
    "tailOf usageCaptureLimit (ss_capture st) rd" "pred_option (\<lambda>b. headOf (cl_maxBodyBytes cfg) b rd) (ss_log st)"
    "err = None \<longrightarrow> rd = concat (map fst reads) \<and> cc_sent (ss_conn st) = rd"
    using cw.copy_prefix [OF assms] by fastforce
  then show ?thesis by (intro exI [of _ rd]) (auto simp: tailOf_def headOf_def)
qed

text \<open>A client that hangs up in the second of three reads has the first and a part of the second.\<close>

theorem stream_faithful_witness:
  "(let ok = \<lparr>we_now = 0, we_deadline = DeadlineSet, we_accepts = 100, we_fails = False\<rparr>;
        cfg = \<lparr>cl_enabled = True, cl_requests = True, cl_responses = True, cl_includeBodies = True, cl_maxBodyBytes = 4\<rparr>;
        r = copyStream (clientWriter True 30) False
              [(''abc'', ok), (''def'', ok\<lparr>we_accepts := 1, we_fails := True\<rparr>), (''ghi'', ok)]
              (beginStream cfg \<lparr>cc_sent = [], cc_flushed = 0, cc_deadline = None\<rparr>)
    in cc_sent (ss_conn (fst r)) = ''abcd'' \<and> snd r = Some ConnectionError \<and>
       prefix (cc_sent (ss_conn (fst r))) ''abcdefghi'')"
proof -
  let ?ok = "\<lparr>we_now = 0, we_deadline = DeadlineSet, we_accepts = 100, we_fails = False\<rparr>"
  let ?cfg = "\<lparr>cl_enabled = True, cl_requests = True, cl_responses = True, cl_includeBodies = True, cl_maxBodyBytes = 4\<rparr>"
  let ?reads = "[(''abc'', ?ok), (''def'', ?ok\<lparr>we_accepts := 1, we_fails := True\<rparr>), (''ghi'', ?ok)]"
  let ?r = "copyStream (clientWriter True 30) False ?reads
              (beginStream ?cfg \<lparr>cc_sent = [], cc_flushed = 0, cc_deadline = None\<rparr>)"
  obtain st err where r: "?r = (st, err)" by force
  from stream_faithful [OF r] have "prefix (cc_sent (ss_conn (fst ?r))) ''abcdefghi''"
    unfolding r by (auto intro: prefix_order.trans)
  moreover have "cc_sent (ss_conn (fst ?r)) = ''abcd''" "snd ?r = Some ConnectionError"
    by (simp_all add: clientWriter_def flushWriter_Write_def connWrite_def Let_def teeRead_def beginStream_def)
  ultimately show ?thesis unfolding Let_def by blast
qed

end
