(* ===== verification/Readiness.thy ===== *)
theory Readiness
  imports Discovery
begin

text \<open>
  Readiness (\<^verbatim>\<open>internal/gateway/readiness.go\<close>): the probe of all providers and the cache in front of it.
  Each critical section of \<^verbatim>\<open>cachedReadiness\<close> is one function on the cache; a channel is a number, and
  the numbers of closed channels are remembered by the step relation that runs any number of
  requests side by side. The generation counter is a 64-bit word.
\<close>

record readinessResult =
  rr_status :: "string gomap"
  rr_ready :: bool

record readinessCache =
  rc_result :: readinessResult
  rc_expires :: "int option"
  rc_inflight :: "nat option"
  rc_generation :: uint64

definition noReadiness :: readinessResult where
  "noReadiness = \<lparr>rr_status = [], rr_ready = False\<rparr>"

definition newReadinessCache :: readinessCache where
  "newReadinessCache = \<lparr>rc_result = noReadiness, rc_expires = None, rc_inflight = None, rc_generation = 0\<rparr>"

definition readiness_clear :: "readinessCache \<Rightarrow> readinessCache" where
  "readiness_clear c =
     c\<lparr>rc_result := noReadiness, rc_expires := None, rc_generation := rc_generation c + 1\<rparr>"

definition cloneReadinessResult :: "readinessResult \<Rightarrow> readinessResult" where
  "cloneReadinessResult r =
     \<lparr>rr_status = fold (\<lambda>(name, v). AList.update name v) (rr_status r) [], rr_ready = rr_ready r\<rparr>"

section \<open>The probe\<close>

definition checkProvider :: "world \<Rightarrow> transport \<Rightarrow> providerConfig \<Rightarrow> bool" where
  "checkProvider w send provider =
     (case snd (modelsRequest (w_getenv w) send provider) of
        Inl err \<Rightarrow> False
      | Inr resp \<Rightarrow> resp_status resp \<ge> 200 \<and> resp_status resp < 300)"

text \<open>
  The goroutines answer on a channel in any order: \<open>arrivals\<close> is that order, \<open>ok\<close> the answer of each
  provider.
\<close>

definition collectReadiness :: "(string \<Rightarrow> bool) \<Rightarrow> string list \<Rightarrow> readinessResult" where
  "collectReadiness ok arrivals =
     fold (\<lambda>name r. \<lparr>rr_status = AList.update name (if ok name then ''ok'' else ''unavailable'') (rr_status r),
                     rr_ready = (if ok name then True else rr_ready r)\<rparr>)
       arrivals noReadiness"

definition checkReadiness ::
    "world \<Rightarrow> (string \<Rightarrow> transport) \<Rightarrow> providerConfig gomap \<Rightarrow> string list \<Rightarrow> readinessResult" where
  "checkReadiness w send providers arrivals =
     collectReadiness
       (\<lambda>name. case map_of providers name of None \<Rightarrow> False | Some p \<Rightarrow> checkProvider w (send name) p) arrivals"

section \<open>The cache in front of it\<close>

datatype readiness_turn = Serve readinessResult | WaitFor nat | Probe nat uint64

text \<open>The first critical section; \<open>ch\<close> is the channel it makes if it starts a probe.\<close>

definition readiness_enter :: "int \<Rightarrow> nat \<Rightarrow> readinessCache \<Rightarrow> readinessCache \<times> readiness_turn" where
  "readiness_enter now ch c =
     (if (case rc_expires c of None \<Rightarrow> False | Some t \<Rightarrow> now < t) then (c, Serve (cloneReadinessResult (rc_result c)))
      else (case rc_inflight c of
              Some ch' \<Rightarrow> (c, WaitFor ch')
            | None \<Rightarrow> (c\<lparr>rc_inflight := Some ch\<rparr>, Probe ch (rc_generation c))))"

text \<open>The second one, after the probe.\<close>

definition readiness_finish :: "uint64 \<Rightarrow> int \<Rightarrow> int \<Rightarrow> readinessResult \<Rightarrow> readinessCache \<Rightarrow> readinessCache" where
  "readiness_finish generation now ttl result c =
     (let c1 = (if generation = rc_generation c
                then c\<lparr>rc_result := cloneReadinessResult result, rc_expires := Some (now + ttl)\<rparr> else c)
      in c1\<lparr>rc_inflight := None\<rparr>)"

text \<open>The handler: status code and the status and provider fields of the answer.\<close>

definition ready :: "readinessResult option \<Rightarrow> int \<times> string \<times> string gomap" where
  "ready r =
     (case r of
        None \<Rightarrow> (503, ''readiness check cancelled'', [])
      | Some res \<Rightarrow>
          if rr_ready res then (200, ''ready'', rr_status res) else (503, ''not_ready'', rr_status res))"

section \<open>What a probe finds\<close>

lemma collect_status:
  "map_of (rr_status (collectReadiness ok names)) n =
     (if n \<in> set names then Some (if ok n then ''ok'' else ''unavailable'') else None)"
proof -
  let ?f = "\<lambda>name r. \<lparr>rr_status = AList.update name (if ok name then ''ok'' else ''unavailable'') (rr_status r),
                     rr_ready = (if ok name then True else rr_ready r)\<rparr>"
  have "map_of (rr_status (fold ?f names r)) n =
      (if n \<in> set names then Some (if ok n then ''ok'' else ''unavailable'') else map_of (rr_status r) n)" for r
    by (induction names arbitrary: r) (auto simp: update_conv)
  then show ?thesis by (simp add: collectReadiness_def noReadiness_def)
qed

lemma collect_ready: "rr_ready (collectReadiness ok names) \<longleftrightarrow> (\<exists>n \<in> set names. ok n)"
proof -
  let ?f = "\<lambda>name r. \<lparr>rr_status = AList.update name (if ok name then ''ok'' else ''unavailable'') (rr_status r),
                     rr_ready = (if ok name then True else rr_ready r)\<rparr>"
  have "rr_ready (fold ?f names r) \<longleftrightarrow> rr_ready r \<or> (\<exists>n \<in> set names. ok n)" for r
    by (induction names arbitrary: r) auto
  then show ?thesis by (simp add: collectReadiness_def noReadiness_def)
qed

text \<open>
  Claim C33. Readiness means what it says: in whatever order the probes of one check answer, the answer made from them is ready
  exactly when some configured provider answered its model list with a success status, and every
  provider is reported with its own result.
\<close>

theorem readiness_any_provider:
  assumes "wfMap providers" and "mset arrivals = mset (mapKeys providers)"
  shows "(fst (ready (Some (checkReadiness w send providers arrivals))) = 200 \<longleftrightarrow>
            (\<exists>(name, p) \<in> set providers. checkProvider w (send name) p)) \<and>
         (\<forall>(name, p) \<in> set providers.
            map_of (rr_status (checkReadiness w send providers arrivals)) name =
              Some (if checkProvider w (send name) p then ''ok'' else ''unavailable''))"
proof -
  have names: "set arrivals = fst ` set providers" using mset_eq_setD [OF assms(2)] by (simp add: mapKeys_def)
  have look: "map_of providers n = Some p" if "(n, p) \<in> set providers" for n p
    using assms(1) that by (simp add: wfMap_def)
  show ?thesis
    by (auto simp: ready_def checkReadiness_def collect_ready collect_status names look split: option.splits)
       (force simp: look dest: map_of_SomeD split: option.splits)+
qed

theorem readiness_any_provider_witness:
  "fst (ready (Some (checkReadiness quietWorld (\<lambda>_. dv_send (answeringEnv id)) [(''p'', discoveringProvider ''p/'')] [''p'']))) = 200"
proof -
  have "checkProvider quietWorld (dv_send (answeringEnv id)) (discoveringProvider ''p/'')"
    by (simp add: checkProvider_def modelsRequest_def applyProviderHeaders_def discovery_examples example_targets_parsed
        clientDo_final redirectBehavior_def)
  then show ?thesis
    using readiness_any_provider [of "[(''p'', discoveringProvider ''p/'')]" "[''p'']" quietWorld "\<lambda>_. dv_send (answeringEnv id)"]
    by (simp add: wfMap_def mapKeys_def)
qed

section \<open>All requests together\<close>

text \<open>
  A request waits on a channel or runs a probe; a probe remembers the generation it saw. \<open>rs_epoch\<close>
  counts the reloads so far, a probe carries the epoch it began in, and \<open>rs_from\<close> is the epoch of
  the probe whose result is cached: these three are not in the program.
\<close>

datatype readiness_thread = RWaiting nat | RProbing nat uint64 nat

record readiness_system =
  rs_cache :: readinessCache
  rs_threads :: "readiness_thread multiset"
  rs_closed :: "nat set"
  rs_epoch :: nat
  rs_from :: "nat option"

definition readiness_init :: readiness_system where
  "readiness_init =
     \<lparr>rs_cache = newReadinessCache, rs_threads = {#}, rs_closed = {}, rs_epoch = 0, rs_from = None\<rparr>"

inductive readiness_step :: "readiness_system \<Rightarrow> readiness_system \<Rightarrow> bool" where
  serves: "readiness_enter now ch (rs_cache s) = (c, Serve r) \<Longrightarrow> readiness_step s s"
| joins: "readiness_enter now ch (rs_cache s) = (c, WaitFor ch') \<Longrightarrow>
     readiness_step s (s\<lparr>rs_threads := add_mset (RWaiting ch') (rs_threads s)\<rparr>)"
| starts: "ch \<notin> rs_closed s \<Longrightarrow> readiness_enter now ch (rs_cache s) = (c, Probe ch g) \<Longrightarrow>
     readiness_step s (s\<lparr>rs_cache := c, rs_threads := add_mset (RProbing ch g (rs_epoch s)) (rs_threads s)\<rparr>)"
| wakes: "rs_threads s = add_mset (RWaiting ch) T \<Longrightarrow> ch \<in> rs_closed s \<Longrightarrow>
     readiness_step s (s\<lparr>rs_threads := T\<rparr>)"
| cancels: "rs_threads s = add_mset (RWaiting ch) T \<Longrightarrow> readiness_step s (s\<lparr>rs_threads := T\<rparr>)"
| finishes: "rs_threads s = add_mset (RProbing ch g ep) T \<Longrightarrow>
     readiness_step s
       (s\<lparr>rs_cache := readiness_finish g now ttl result (rs_cache s), rs_threads := T,
          rs_closed := insert ch (rs_closed s),
          rs_from := (if g = rc_generation (rs_cache s) then Some ep else rs_from s)\<rparr>)"
| reloads: "readiness_step s
     (s\<lparr>rs_cache := readiness_clear (rs_cache s), rs_epoch := Suc (rs_epoch s), rs_from := None\<rparr>)"

inductive readiness_reachable :: "readiness_system \<Rightarrow> bool" where
  start: "readiness_reachable readiness_init"
| step: "readiness_reachable s \<Longrightarrow> readiness_step s s' \<Longrightarrow> readiness_reachable s'"

fun isProbing :: "readiness_thread \<Rightarrow> bool" where
  "isProbing (RProbing ch g ep) = True"
| "isProbing (RWaiting ch) = False"

text \<open>The probes under way, by channel, are exactly what the cache says is in flight.\<close>

definition probing :: "readiness_thread multiset \<Rightarrow> readiness_thread multiset" where
  "probing T = filter_mset isProbing T"

definition readiness_inv :: "readiness_system \<Rightarrow> bool" where
  "readiness_inv s \<longleftrightarrow>
     (case rc_inflight (rs_cache s) of
        None \<Rightarrow> probing (rs_threads s) = {#}
      | Some ch \<Rightarrow> (\<exists>g ep. probing (rs_threads s) = {#RProbing ch g ep#} \<and> g = of_nat ep \<and> ep \<le> rs_epoch s)) \<and>
     (\<forall>ch. RWaiting ch \<in># rs_threads s \<longrightarrow> ch \<in> rs_closed s \<or> rc_inflight (rs_cache s) = Some ch) \<and>
     rc_generation (rs_cache s) = of_nat (rs_epoch s) \<and>
     (rs_epoch s < 2 ^ 64 \<longrightarrow> rc_expires (rs_cache s) \<noteq> None \<longrightarrow> rs_from s = Some (rs_epoch s))"

lemma probing_simps [simp]:
  "probing (add_mset (RWaiting ch) T) = probing T"
  "probing (add_mset (RProbing ch g ep) T) = add_mset (RProbing ch g ep) (probing T)"
  by (simp_all add: probing_def)

lemma generation_inj: "(of_nat a :: uint64) = of_nat b \<Longrightarrow> a \<le> b \<Longrightarrow> b < 2 ^ 64 \<Longrightarrow> a = b"
  by (simp add: word_of_nat_eq_iff take_bit_nat_def)

lemma readiness_step_inv: "readiness_step s s' \<Longrightarrow> readiness_inv s \<Longrightarrow> readiness_inv s'"
proof (induction rule: readiness_step.induct)
  case (joins now ch s c ch')
  then have "rc_inflight (rs_cache s) = Some ch'"
    by (auto simp: readiness_enter_def split: if_splits option.splits)
  with joins show ?case by (auto simp: readiness_inv_def)
next
  case (starts ch s now c g)
  then have "rc_inflight (rs_cache s) = None" "c = (rs_cache s)\<lparr>rc_inflight := Some ch\<rparr>" "g = rc_generation (rs_cache s)"
    by (auto simp: readiness_enter_def split: if_splits option.splits)
  with starts show ?case by (auto simp: readiness_inv_def)
next
  case (finishes s ch g ep T now ttl result)
  then have "rc_inflight (rs_cache s) \<noteq> None" by (auto simp: readiness_inv_def split: option.splits)
  then obtain ch' where i: "rc_inflight (rs_cache s) = Some ch'" by blast
  with finishes have p: "ch' = ch" "probing T = {#}" "g = of_nat ep" "ep \<le> rs_epoch s"
    by (auto simp: readiness_inv_def)
  have "g = rc_generation (rs_cache s) \<Longrightarrow> rs_epoch s < 2 ^ 64 \<Longrightarrow> ep = rs_epoch s"
    using finishes(2) p generation_inj by (auto simp: readiness_inv_def)
  with finishes i p show ?case
    by (auto simp: readiness_inv_def readiness_finish_def Let_def)
next
  case (reloads s)
  then show ?case
    by (auto simp: readiness_inv_def readiness_clear_def split: option.splits)
qed (auto simp: readiness_inv_def split: option.splits)

lemma readiness_reachable_inv: "readiness_reachable s \<Longrightarrow> readiness_inv s"
proof (induction rule: readiness_reachable.induct)
  case start
  show ?case by (simp add: readiness_inv_def readiness_init_def newReadinessCache_def probing_def)
qed (blast intro: readiness_step_inv)

text \<open>
  Claim C34. Health polling cannot fan out, and no request waits for nothing: at every moment at
  most one probe of the providers runs, every waiting request waits on a channel that is closed or
  that the running probe will close, and a cached result comes from a probe that began after the
  last reload (as long as fewer than \<open>2\<^sup>6\<^sup>4\<close> reloads have happened).
\<close>

theorem readiness_probes_coalesced:
  assumes "readiness_reachable s"
  shows "size (probing (rs_threads s)) \<le> 1 \<and>
         (\<forall>ch. RWaiting ch \<in># rs_threads s \<longrightarrow>
            ch \<in> rs_closed s \<or> (\<exists>g ep. RProbing ch g ep \<in># rs_threads s)) \<and>
         (rs_epoch s < 2 ^ 64 \<longrightarrow> rc_expires (rs_cache s) \<noteq> None \<longrightarrow> rs_from s = Some (rs_epoch s))"
proof -
  have inv: "readiness_inv s" by (rule readiness_reachable_inv [OF assms])
  have "size (probing (rs_threads s)) \<le> 1"
    using inv by (auto simp: readiness_inv_def split: option.splits)
  moreover have "\<exists>g ep. RProbing ch g ep \<in># rs_threads s" if i: "rc_inflight (rs_cache s) = Some ch" for ch
  proof -
    obtain g ep where "probing (rs_threads s) = {#RProbing ch g ep#}"
      using inv unfolding readiness_inv_def i option.case by blast
    then have "RProbing ch g ep \<in># probing (rs_threads s)" by simp
    then show ?thesis by (auto simp: probing_def)
  qed
  ultimately show ?thesis using inv unfolding readiness_inv_def by blast
qed

theorem readiness_probes_coalesced_witness:
  "\<exists>s. readiness_reachable s \<and> size (rs_threads s) = 2 \<and> size (probing (rs_threads s)) \<le> 1"
proof -
  let ?c = "newReadinessCache\<lparr>rc_inflight := Some 0\<rparr>"
  let ?s1 = "readiness_init\<lparr>rs_cache := ?c, rs_threads := add_mset (RProbing 0 0 0) {#}\<rparr>"
  let ?s2 = "?s1\<lparr>rs_threads := add_mset (RWaiting 0) (rs_threads ?s1)\<rparr>"
  have "readiness_step readiness_init ?s1"
    using readiness_step.starts [of 0 readiness_init 0 ?c 0]
    by (simp add: readiness_init_def readiness_enter_def newReadinessCache_def)
  then have "readiness_reachable ?s1" by (rule readiness_reachable.step [OF readiness_reachable.start])
  moreover have "readiness_step ?s1 ?s2"
    by (rule readiness_step.joins [of 0 1 ?s1 ?c]) (simp add: readiness_enter_def newReadinessCache_def)
  ultimately have r: "readiness_reachable ?s2" by (rule readiness_reachable.step)
  from readiness_probes_coalesced [OF r] r show ?thesis by (intro exI [of _ ?s2]) simp
qed

end
