(* ===== verification/Acl.thy ===== *)
theory Acl
  imports GoNet
begin

unbundle bit_operations_syntax

text \<open>
  Client network ACL and trusted proxies, from \<^verbatim>\<open>internal/gateway/acl.go\<close>. A \<^verbatim>\<open>net.IP\<close> that may be
  \<^verbatim>\<open>nil\<close> is an \<^typ>\<open>ip option\<close>. The theory shows which addresses a constructed ACL admits, as a
  statement about address bits, and what address \<^verbatim>\<open>forwardedClientIP\<close> takes for the client.
\<close>

record clientACL =
  networks :: "ipnet list"

datatype acl_error = InvalidClientNetwork string

text \<open>One value of the list \<^verbatim>\<open>newClientACL\<close> is given: a single address gets a full prefix length.\<close>

definition aclNetwork :: "string \<Rightarrow> acl_error + ipnet" where
  "aclNetwork raw =
     (let value = trimSpace raw in
      if CHR ''/'' \<notin> set value then
        (case parseIP value of
           None \<Rightarrow> Inl (InvalidClientNetwork value)
         | Some b \<Rightarrow>
             (let value' = value @ (if to4 b \<noteq> None then ''/32'' else ''/128'') in
              case parseCIDR value' of
                None \<Rightarrow> Inl (InvalidClientNetwork value')
              | Some n \<Rightarrow> Inr n))
      else (case parseCIDR value of
              None \<Rightarrow> Inl (InvalidClientNetwork value)
            | Some n \<Rightarrow> Inr n))"

fun newClientACLLoop :: "string list \<Rightarrow> ipnet list \<Rightarrow> acl_error + clientACL" where
  "newClientACLLoop [] ns = Inr \<lparr>networks = ns\<rparr>"
| "newClientACLLoop (v # vs) ns =
     (case aclNetwork v of Inl e \<Rightarrow> Inl e | Inr n \<Rightarrow> newClientACLLoop vs (ns @ [n]))"

definition newClientACL :: "string list \<Rightarrow> acl_error + clientACL" where
  "newClientACL values = newClientACLLoop values []"

definition contains :: "clientACL \<Rightarrow> ip option \<Rightarrow> bool" where
  "contains a x =
     (if networks a = [] then True
      else case x of None \<Rightarrow> False | Some b \<Rightarrow> list_ex (\<lambda>n. netContains n b) (networks a))"

definition parseRemoteIP :: "string \<Rightarrow> ip option" where
  "parseRemoteIP remoteAddr =
     (let host = (case splitHostPort remoteAddr of Some (h, _) \<Rightarrow> h | None \<Rightarrow> remoteAddr)
      in parseIP (trimCut ''[]'' host))"

definition allowed :: "clientACL \<Rightarrow> string \<Rightarrow> bool" where
  "allowed a remoteAddr = contains a (parseRemoteIP remoteAddr)"

text \<open>The walk over the forwarded addresses, nearest hop first.\<close>

fun forwardedWalk :: "clientACL \<Rightarrow> ip option \<Rightarrow> string list \<Rightarrow> ip option" where
  "forwardedWalk trusted peer [] = peer"
| "forwardedWalk trusted peer (part # parts) =
     (case parseIP (trimSpace part) of
        None \<Rightarrow> forwardedWalk trusted peer parts
      | Some candidate \<Rightarrow>
          if \<not> contains trusted (Some candidate) then Some candidate
          else forwardedWalk trusted peer parts)"

definition forwardedClientIP :: "string \<Rightarrow> string \<Rightarrow> clientACL option \<Rightarrow> ip option" where
  "forwardedClientIP remoteAddr forwarded trusted =
     (let peer = parseRemoteIP remoteAddr in
      case trusted of
        None \<Rightarrow> peer
      | Some t \<Rightarrow>
          if \<not> contains t peer then peer
          else forwardedWalk t peer (rev (splitOn CHR '','' forwarded)))"

definition clientIPString :: "ip option \<Rightarrow> string" where
  "clientIPString x = (case x of None \<Rightarrow> ''unknown'' | Some b \<Rightarrow> ipString b)"

section \<open>Which addresses an ACL admits\<close>

text \<open>
  What an entry of the list means: an address and the number of its leading bits that count. A
  single address counts in full.
\<close>

definition entrySpec :: "string \<Rightarrow> (addr \<times> nat) option" where
  "entrySpec raw =
     (let value = trimSpace raw in
      if CHR ''/'' \<notin> set value then
        (case parseAddr value of
           Some a \<Rightarrow> if addrZone a = [] then Some (a, addrBitLen a) else None
         | None \<Rightarrow> None)
      else cidrParts value)"

text \<open>The same addresses in terms of IPv4, if the entry is a range of IPv4-mapped addresses.\<close>

definition unmapped :: "addr \<times> nat \<Rightarrow> addr \<times> nat" where
  "unmapped e =
     (case e of
        (Addr6 b z, n) \<Rightarrow> if take 12 b = v4InV6Prefix \<and> 96 \<le> n then (Addr4 (drop 12 b), n - 96) else e
      | _ \<Rightarrow> e)"

definition matchesEntry :: "addr \<times> nat \<Rightarrow> ip \<Rightarrow> bool" where
  "matchesEntry e x \<longleftrightarrow>
     (case unmapped e of (a, n) \<Rightarrow>
        length (canonicalIP x) = length (addrBytes a) \<and>
        take n (ipBits (addrBytes a)) = take n (ipBits (canonicalIP x)))"

text \<open>A single address that is written as an IPv4-mapped IPv6 address is the exception below.\<close>

definition mappedEntry :: "string \<Rightarrow> bool" where
  "mappedEntry raw \<longleftrightarrow>
     CHR ''/'' \<notin> set (trimSpace raw) \<and>
     (case parseAddr (trimSpace raw) of
        Some (Addr6 b z) \<Rightarrow> take 12 b = v4InV6Prefix
      | _ \<Rightarrow> False)"

lemma newClientACLLoop_Inr:
  "newClientACLLoop vs ns = Inr a \<longleftrightarrow>
     (\<exists>ms. list_all2 (\<lambda>v m. aclNetwork v = Inr m) vs ms \<and> a = \<lparr>networks = ns @ ms\<rparr>)"
  by (induction vs ns rule: newClientACLLoop.induct)
     (auto simp: list_all2_Cons1 split: sum.splits)

lemma newClientACL_Inr:
  "newClientACL vs = Inr a \<longleftrightarrow> list_all2 (\<lambda>v m. aclNetwork v = Inr m) vs (networks a)"
  by (cases a) (auto simp: newClientACL_def newClientACLLoop_Inr)

lemma dtoiAll_32 [simp]: "dtoiAll ''32'' = Some 32"
  by (simp add: dtoiAll_def isDigit_def digitVal_def)

lemma dtoiAll_128 [simp]: "dtoiAll ''128'' = Some 128"
  by (simp add: dtoiAll_def isDigit_def digitVal_def)

lemma parseIP_Some_iff:
  "parseIP s = Some b \<longleftrightarrow> (\<exists>a. parseAddr s = Some a \<and> addrZone a = [] \<and> b = addrAs16 a)"
  by (auto simp: parseIP_def split: option.splits)

lemma to4_As16_v4 [simp]: "length q = 4 \<Longrightarrow> to4 (v4InV6Prefix @ q) = Some q"
  by (simp add: to4_def)

text \<open>
  The network built for an entry that is no single IPv4-mapped address is the one \<^verbatim>\<open>ParseCIDR\<close> gives for the
  address and prefix length the entry means.
\<close>

lemma aclNetwork_spec:
  assumes "\<not> mappedEntry v"
  shows "aclNetwork v =
           (case entrySpec v of
              None \<Rightarrow> Inl (InvalidClientNetwork (trimSpace v))
            | Some (a, n) \<Rightarrow> Inr (maskedNet (addrBytes a) n))"
proof (cases "CHR ''/'' \<in> set (trimSpace v)")
  case True
  then show ?thesis
    by (auto simp: aclNetwork_def entrySpec_def parseCIDR_parts maskedNet_def cidrParts_length Let_def
          split: option.splits)
next
  case False
  show ?thesis
  proof (cases "parseAddr (trimSpace v)")
    case None
    with False show ?thesis by (simp add: aclNetwork_def entrySpec_def parseIP_def Let_def)
  next
    case (Some a)
    with False assms show ?thesis
      by (auto simp: aclNetwork_def entrySpec_def mappedEntry_def parseIP_def Let_def
            parseCIDR_parts cidrParts_append to4_def maskedNet_def elim!: parseAddr_cases)
  qed
qed

lemma entrySpec_bytes: "entrySpec v = Some (a, n) \<Longrightarrow> length (addrBytes a) * 8 = addrBitLen a"
  by (auto simp: entrySpec_def Let_def cidrParts_bounds split: if_splits option.splits elim!: parseAddr_cases)

lemma netContains_entry:
  assumes "length (addrBytes a) * 8 = addrBitLen a"
  shows "netContains (maskedNet (addrBytes a) n) x \<longleftrightarrow> matchesEntry (a, n) x"
proof (cases "\<exists>z. a = Addr6 (addrBytes a) z \<and> take 12 (addrBytes a) = v4InV6Prefix \<and> 96 \<le> n")
  case True
  then obtain b z where a: "a = Addr6 b z" "take 12 b = v4InV6Prefix" "96 \<le> n" by (cases a) auto
  then have l: "length b = 16" using assms by simp
  have "b = v4InV6Prefix @ drop 12 b" using a(2) by (metis append_take_drop_id)
  then have "netContains (maskedNet b n) x \<longleftrightarrow> netContains (maskedNet (drop 12 b) (n - 96)) x"
    using netContains_mapped [of "drop 12 b" n x] a(3) l by simp
  with a l show ?thesis by (simp add: matchesEntry_def unmapped_def netContains_maskedNet)
next
  case False
  then have "unmapped (a, n) = (a, n)" by (cases a) (auto simp: unmapped_def)
  moreover have "length (addrBytes a) = 4 \<or> length (addrBytes a) = 16 \<and> (take 12 (addrBytes a) \<noteq> v4InV6Prefix \<or> n < 96)"
    using False assms by (cases a) auto
  ultimately show ?thesis by (simp add: matchesEntry_def netContains_maskedNet)
qed

lemma aclNetwork_matches:
  assumes "aclNetwork v = Inr m" and plain: "\<not> mappedEntry v"
  shows "netContains m x \<longleftrightarrow> (\<exists>e. entrySpec v = Some e \<and> matchesEntry e x)"
proof -
  obtain a n where e: "entrySpec v = Some (a, n)" and m: "m = maskedNet (addrBytes a) n"
    using assms(1) by (auto simp: aclNetwork_spec [OF plain] split: option.splits)
  from entrySpec_bytes [OF e] show ?thesis by (simp add: m e netContains_entry)
qed

text \<open>
  Claim C26. The addresses a non-empty ACL admits are those that agree with one of its entries on all the
  entry's significant bits, where a range of IPv4-mapped addresses with a prefix length of at least 96 is
  the range of the IPv4 addresses; an address that could not be parsed is never admitted. The empty ACL admits every
  client. Lists with a single address in IPv4-mapped notation are left out: for them it does not hold.
\<close>

theorem acl_contains_iff:
  assumes "newClientACL values = Inr a" and "\<forall>v \<in> set values. \<not> mappedEntry v"
  shows "contains a x \<longleftrightarrow>
           values = [] \<or>
           (\<exists>b. x = Some b \<and> (\<exists>v \<in> set values. \<exists>e. entrySpec v = Some e \<and> matchesEntry e b))"
proof -
  have l: "list_all2 (\<lambda>v m. aclNetwork v = Inr m) values (networks a)"
    using assms(1) by (simp add: newClientACL_Inr)
  then have "list_ex (\<lambda>m. netContains m b) (networks a) \<longleftrightarrow>
             (\<exists>v \<in> set values. \<exists>e. entrySpec v = Some e \<and> matchesEntry e b)" for b
    using assms(2) by (induction rule: list_all2_induct) (auto simp: aclNetwork_matches)
  moreover have "networks a = [] \<longleftrightarrow> values = []"
    using l by auto
  ultimately show ?thesis
    by (auto simp: contains_def split: option.splits)
qed

lemma entry_examples:
  "entrySpec ''192.0.2.10'' = Some (Addr4 [192, 0, 2, 10], 32)"
  "entrySpec ''10.0.0.0/8'' = Some (Addr4 [10, 0, 0, 0], 8)"
  by (simp_all add: entrySpec_def cidrParts_def net_eval trim_eval)

theorem acl_contains_iff_witness:
  "\<exists>a. newClientACL [''192.0.2.10'', ''10.0.0.0/8''] = Inr a \<and>
       (\<forall>v \<in> set [''192.0.2.10'', ''10.0.0.0/8'']. \<not> mappedEntry v) \<and>
       contains a (Some (v4InV6Prefix @ [10, 1, 2, 3])) \<and> \<not> contains a None"
proof -
  let ?vs = "[''192.0.2.10'', ''10.0.0.0/8'']"
  have plain: "\<forall>v \<in> set ?vs. \<not> mappedEntry v"
    by code_simp
  then obtain a where a: "newClientACL ?vs = Inr a"
    by (simp add: newClientACL_def aclNetwork_spec entry_examples)
  have "matchesEntry (Addr4 [10, 0, 0, 0], 8) (v4InV6Prefix @ [10, 1, 2, 3])"
    by (simp add: matchesEntry_def unmapped_def canonicalIP_def ipBits_def byteBits_def)
  with acl_contains_iff [OF a plain] a plain show ?thesis
    by (intro exI [of _ a]) (auto simp: entry_examples)
qed

text \<open>
  Claim C39. A single address written as an IPv4-mapped IPv6 address, as in \<^verbatim>\<open>::ffff:192.0.2.1\<close>, is turned into a network with
  a prefix length of 32 that is counted from the start of the 16-byte form. Whatever the address is, an ACL of this one entry
  refuses it, and every other IPv4 address, and admits every IPv6 address that begins with four zero
  bytes, the loopback address among them.
\<close>

theorem mapped_entry_widens:
  assumes "CHR ''/'' \<notin> set (trimSpace v)" and "parseAddr (trimSpace v) = Some (Addr6 b [])" and "take 12 b = v4InV6Prefix"
  shows "\<exists>a. newClientACL [v] = Inr a \<and> \<not> contains a (parseIP (trimSpace v)) \<and>
           (\<forall>x. contains a (Some x) \<longleftrightarrow> length (canonicalIP x) = 16 \<and> take 4 (canonicalIP x) = [0, 0, 0, 0])"
proof -
  have l: "length b = 16" using assms(2) by (auto elim: parseAddr_cases)
  let ?a = "\<lparr>networks = [maskedNet b 32]\<rparr>"
  have "newClientACL [v] = Inr ?a"
    using assms l by (simp add: newClientACL_def aclNetwork_def parseIP_def Let_def to4_def parseCIDR_parts cidrParts_append maskedNet_def)
  moreover have in_net: "contains ?a (Some x) \<longleftrightarrow> length (canonicalIP x) = 16 \<and> take 4 (canonicalIP x) = [0, 0, 0, 0]" for x
  proof -
    have "take 4 b = take 4 (take 12 b)" by simp
    also have "\<dots> = [0, 0, 0, 0]" unfolding assms(3) by (simp add: v4InV6Prefix_def)
    finally have b4: "take 4 b = [0, 0, 0, 0]" .
    have t: "take 32 (ipBits y) = ipBits (take 4 y)" if "length y = 16" for y
    proof -
      have "ipBits y = ipBits (take 4 y) @ ipBits (drop 4 y)"
        unfolding ipBits_def by (metis append_take_drop_id concat_append map_append)
      then show ?thesis using that by simp
    qed
    have "contains ?a (Some x) \<longleftrightarrow> length (canonicalIP x) = 16 \<and> take 32 (ipBits b) = take 32 (ipBits (canonicalIP x))"
      using netContains_maskedNet [of b 32 x] l by (simp add: contains_def)
    also have "\<dots> \<longleftrightarrow> length (canonicalIP x) = 16 \<and> ipBits (take 4 b) = ipBits (take 4 (canonicalIP x))"
      using t [OF l] t [of "canonicalIP x"] by auto
    finally show ?thesis using ipBits_inject [of "take 4 b" "take 4 (canonicalIP x)"] l b4 by auto
  qed
  moreover have "parseIP (trimSpace v) = Some b" using assms(2) by (simp add: parseIP_def)
  moreover have "length (canonicalIP b) = 4" using l assms(3) by (simp add: canonicalIP_def to4_def)
  ultimately show ?thesis by (intro exI [of _ ?a]) (simp only: simp_thms, simp)
qed

theorem mapped_entry_widens_witness:
  "\<exists>a. newClientACL [''::ffff:192.0.2.1''] = Inr a \<and>
       \<not> allowed a ''192.0.2.1:443'' \<and> allowed a ''[::1]:443''"
proof -
  have "trimSpace ''::ffff:192.0.2.1'' = ''::ffff:192.0.2.1''"
    "parseAddr ''::ffff:192.0.2.1'' = Some (Addr6 (v4InV6Prefix @ [192, 0, 2, 1]) [])"
    by (simp_all add: net_eval trim_eval)
  with mapped_entry_widens [of "''::ffff:192.0.2.1''" "v4InV6Prefix @ [192, 0, 2, 1]"] obtain a where
    a: "newClientACL [''::ffff:192.0.2.1''] = Inr a"
      "\<And>x. contains a (Some x) \<longleftrightarrow> length (canonicalIP x) = 16 \<and> take 4 (canonicalIP x) = [0, 0, 0, 0]" by auto
  have "parseRemoteIP ''192.0.2.1:443'' = Some (v4InV6Prefix @ [192, 0, 2, 1])" "parseRemoteIP ''[::1]:443'' = Some (replicate 15 0 @ [1])"
    by (simp_all add: parseRemoteIP_def trimCut_def net_eval)
  then show ?thesis using a by (intro exI [of _ a]) (simp add: allowed_def canonicalIP_def to4_def v4InV6Prefix_def replicate_numeral_Cons)
qed

section \<open>The effective client address\<close>

text \<open>
  What \<^verbatim>\<open>forwardedClientIP\<close> relies on from the filter it walks with: an address that could not be
  parsed is never inside a filter that names at least one network.
\<close>

locale address_filter =
  fixes member :: "'f \<Rightarrow> ip option \<Rightarrow> bool" and proper :: "'f \<Rightarrow> bool"
  assumes unparsed_outside: "proper f \<Longrightarrow> \<not> member f None"
begin

lemma member_parsed: "proper f \<Longrightarrow> member f x \<Longrightarrow> \<exists>b. x = Some b"
  using unparsed_outside by (cases x) auto

lemma hop_cases:
  assumes "proper f"
  obtains "x = None" | b where "x = Some b" "member f x" | b where "x = Some b" "\<not> member f x"
  using assms by (cases x) auto

end

interpretation acl: address_filter contains "\<lambda>a. networks a \<noteq> []"
  by unfold_locales (simp add: contains_def)

definition parsedHops :: "string list \<Rightarrow> ip list" where
  "parsedHops parts = List.map_filter (\<lambda>p. parseIP (trimSpace p)) parts"

lemma forwardedWalk_find:
  "forwardedWalk t peer parts =
     (case find (\<lambda>b. \<not> contains t (Some b)) (parsedHops parts) of Some b \<Rightarrow> Some b | None \<Rightarrow> peer)"
  by (induction parts) (auto simp: parsedHops_def map_filter_def split: option.splits)

lemma forwardedWalk_skips_trusted:
  "(\<And>q. q \<in> set qs \<Longrightarrow> \<exists>b. parseIP (trimSpace q) = Some b \<and> contains t (Some b)) \<Longrightarrow>
   forwardedWalk t peer (qs @ parts) = forwardedWalk t peer parts"
  by (induction qs) force+

lemma forwarded_hops:
  assumes "CHR '','' \<notin> set hop"
    and "\<forall>q \<in> set proxies. CHR '','' \<notin> set q \<and> (\<exists>b. parseIP (trimSpace q) = Some b \<and> contains t (Some b))"
  shows "forwardedWalk t p (rev (splitOn CHR '','' (joinWith '','' (forged # hop # proxies)))) =
         forwardedWalk t p (hop # rev (splitOn CHR '','' forged))"
proof -
  have "splitOn CHR '','' (joinWith '','' (forged # hop # proxies)) = splitOn CHR '','' forged @ hop # proxies"
    using assms splitOn_joinWith [of "hop # proxies" "CHR '',''"] by (simp add: joinWith_Cons splitOn_append)
  moreover have "forwardedWalk t p (rev proxies @ rest) = forwardedWalk t p rest" for rest
    using assms(2) by (intro forwardedWalk_skips_trusted) auto
  ultimately show ?thesis by simp
qed

text \<open>
  Claim C27. Resistance to spoofing where the proxies append bare addresses: behind a trusted peer, when the hops appended after \<open>hop\<close> are all
  trusted proxies and \<open>hop\<close> is a well-formed untrusted address, the effective client is \<open>hop\<close>,
  whatever text \<open>forged\<close> the client itself put into the header.
\<close>

theorem forwarded_client_not_forgeable:
  assumes peer: "contains t (parseRemoteIP remoteAddr)"
    and hop: "CHR '','' \<notin> set hop" "parseIP (trimSpace hop) = Some c" "\<not> contains t (Some c)"
    and proxies: "\<forall>q \<in> set proxies. CHR '','' \<notin> set q \<and>
                    (\<exists>b. parseIP (trimSpace q) = Some b \<and> contains t (Some b))"
  shows "forwardedClientIP remoteAddr (joinWith '','' (forged # hop # proxies)) (Some t) = Some c"
  using peer hop by (simp add: forwarded_hops [OF hop(1) proxies] forwardedClientIP_def Let_def del: joinWith.simps)

theorem forwarded_client_not_forgeable_witness:
  "\<exists>t. newClientACL [''127.0.0.1'', ''10.0.0.0/8''] = Inr t \<and>
       forwardedClientIP ''127.0.0.1:80''
         (joinWith '','' [''8.8.8.8, 9.9.9.9'', '' 192.0.2.7'', '' 10.0.0.5'']) (Some t)
       = parseIP ''192.0.2.7''"
proof -
  let ?t = "\<lparr>networks = [maskedNet [127, 0, 0, 1] 32, maskedNet [10, 0, 0, 0] 8]\<rparr>"
  have t: "newClientACL [''127.0.0.1'', ''10.0.0.0/8''] = Inr ?t"
    by (simp add: newClientACL_def aclNetwork_def net_eval trim_eval maskedNet_def)
  have ips: "parseIP (trimSpace '' 192.0.2.7'') = parseIP ''192.0.2.7''"
    "parseIP ''192.0.2.7'' = Some (v4InV6Prefix @ [192, 0, 2, 7])"
    "parseIP (trimSpace '' 10.0.0.5'') = Some (v4InV6Prefix @ [10, 0, 0, 5])"
    by (simp_all add: net_eval trim_eval)
  have "contains ?t (parseRemoteIP ''127.0.0.1:80'')"
    by (simp add: contains_def parseRemoteIP_def trimCut_def net_eval maskedNet_def)
  moreover have "\<not> contains ?t (Some (v4InV6Prefix @ [192, 0, 2, 7]))"
    "contains ?t (Some (v4InV6Prefix @ [10, 0, 0, 5]))"
    by (simp_all add: contains_def net_eval maskedNet_def)
  ultimately show ?thesis
    using forwarded_client_not_forgeable [of ?t "''127.0.0.1:80''" "'' 192.0.2.7''"
        "v4InV6Prefix @ [192, 0, 2, 7]" "['' 10.0.0.5'']" "''8.8.8.8, 9.9.9.9''"] t ips
    by simp
qed

text \<open>
  Claim C40. A hop that is not a bare address is skipped rather than treated as the trust boundary: behind a trusted peer,
  when the hop \<open>hop\<close> that the outermost proxy appended does not parse (an address with a port, for instance) and
  only trusted proxies follow it, the effective client is the untrusted address that ends the text \<open>forged\<close> the client
  sent, whichever it chose.
\<close>

theorem unparsable_hop_exposes_forged_address:
  assumes peer: "contains t (parseRemoteIP remoteAddr)"
    and forged: "parseIP (trimSpace (last (splitOn CHR '','' forged))) = Some c" "\<not> contains t (Some c)"
    and hop: "CHR '','' \<notin> set hop" "parseIP (trimSpace hop) = None"
    and proxies: "\<forall>q \<in> set proxies. CHR '','' \<notin> set q \<and>
                    (\<exists>b. parseIP (trimSpace q) = Some b \<and> contains t (Some b))"
  shows "forwardedClientIP remoteAddr (joinWith '','' (forged # hop # proxies)) (Some t) = Some c"
proof -
  have "splitOn CHR '','' forged \<noteq> []" by (induction forged) (auto split: list.split)
  then obtain ps p where "splitOn CHR '','' forged = ps @ [p]" by (cases "splitOn CHR '','' forged" rule: rev_cases) auto
  with peer forged hop show ?thesis
    by (simp add: forwarded_hops [OF hop(1) proxies] forwardedClientIP_def Let_def del: joinWith.simps)
qed

theorem unparsable_hop_exposes_forged_address_witness:
  "\<exists>t. newClientACL [''127.0.0.1''] = Inr t \<and>
       forwardedClientIP ''127.0.0.1:80'' ''10.9.9.9, 203.0.113.7:5555'' (Some t) = parseIP ''10.9.9.9''"
proof -
  let ?t = "\<lparr>networks = [maskedNet [127, 0, 0, 1] 32]\<rparr>"
  have "newClientACL [''127.0.0.1''] = Inr ?t"
    by (simp add: newClientACL_def aclNetwork_def net_eval trim_eval maskedNet_def)
  moreover have "parseIP (trimSpace '' 203.0.113.7:5555'') = None"
    "parseIP (trimSpace ''10.9.9.9'') = Some (v4InV6Prefix @ [10, 9, 9, 9])"
    "parseIP ''10.9.9.9'' = Some (v4InV6Prefix @ [10, 9, 9, 9])"
    by (simp_all add: net_eval trim_eval)
  moreover have "contains ?t (parseRemoteIP ''127.0.0.1:80'')"
    "\<not> contains ?t (Some (v4InV6Prefix @ [10, 9, 9, 9]))"
    by (simp_all add: contains_def parseRemoteIP_def trimCut_def net_eval maskedNet_def)
  ultimately show ?thesis
    using unparsable_hop_exposes_forged_address [of ?t "''127.0.0.1:80''" "''10.9.9.9''" "v4InV6Prefix @ [10, 9, 9, 9]" "'' 203.0.113.7:5555''" "[]"]
    by simp
qed

text \<open>The effective client is the direct peer or an address outside the trusted networks.\<close>

lemma forwarded_client_peer_or_untrusted:
  "forwardedClientIP remoteAddr forwarded trusted = parseRemoteIP remoteAddr \<or>
   (\<exists>t b. trusted = Some t \<and> contains t (parseRemoteIP remoteAddr) \<and>
          forwardedClientIP remoteAddr forwarded trusted = Some b \<and> \<not> contains t (Some b))"
  by (auto simp: forwardedClientIP_def Let_def forwardedWalk_find find_Some_iff
           split: option.splits)

end
