(* ===== verification/GoSha.thy ===== *)
theory GoSha
  imports Prelude
begin

text \<open>
  SHA-256 (\<^verbatim>\<open>sha256.Sum256\<close>), by which the gateway turns credentials and addresses into pseudonyms:
  padding, message schedule and the sixty-four rounds of FIPS 180-4 on 32-bit words.
\<close>

unbundle bit_operations_syntax

type_synonym word32 = "32 word"

definition rotr :: "nat \<Rightarrow> word32 \<Rightarrow> word32" where
  "rotr n x = drop_bit n x OR push_bit (32 - n) x"

definition sigma0 :: "word32 \<Rightarrow> word32" where
  "sigma0 x = rotr 7 x XOR rotr 18 x XOR drop_bit 3 x"

definition sigma1 :: "word32 \<Rightarrow> word32" where
  "sigma1 x = rotr 17 x XOR rotr 19 x XOR drop_bit 10 x"

definition bigSigma0 :: "word32 \<Rightarrow> word32" where
  "bigSigma0 x = rotr 2 x XOR rotr 13 x XOR rotr 22 x"

definition bigSigma1 :: "word32 \<Rightarrow> word32" where
  "bigSigma1 x = rotr 6 x XOR rotr 11 x XOR rotr 25 x"

definition chooseBits :: "word32 \<Rightarrow> word32 \<Rightarrow> word32 \<Rightarrow> word32" where
  "chooseBits e f g = (e AND f) XOR (NOT e AND g)"

definition majority :: "word32 \<Rightarrow> word32 \<Rightarrow> word32 \<Rightarrow> word32" where
  "majority a b c = (a AND b) XOR (a AND c) XOR (b AND c)"

definition roundConstants :: "word32 list" where
  "roundConstants =
     [1116352408, 1899447441, 3049323471, 3921009573, 961987163, 1508970993, 2453635748, 2870763221,
      3624381080, 310598401, 607225278, 1426881987, 1925078388, 2162078206, 2614888103, 3248222580,
      3835390401, 4022224774, 264347078, 604807628, 770255983, 1249150122, 1555081692, 1996064986,
      2554220882, 2821834349, 2952996808, 3210313671, 3336571891, 3584528711, 113926993, 338241895,
      666307205, 773529912, 1294757372, 1396182291, 1695183700, 1986661051, 2177026350, 2456956037,
      2730485921, 2820302411, 3259730800, 3345764771, 3516065817, 3600352804, 4094571909, 275423344,
      430227734, 506948616, 659060556, 883997877, 958139571, 1322822218, 1537002063, 1747873779,
      1955562222, 2024104815, 2227730452, 2361852424, 2428436474, 2756734187, 3204031479, 3329325298]"

definition initialHash :: "word32 list" where
  "initialHash =
     [1779033703, 3144134277, 1013904242, 2773480762, 1359893119, 2600822924, 528734635, 1541459225]"

text \<open>The schedule, newest word first: each new word comes from the 2nd, 7th, 15th and 16th before it.\<close>

fun schedule :: "nat \<Rightarrow> word32 list \<Rightarrow> word32 list" where
  "schedule 0 ws = ws"
| "schedule (Suc n) ws = schedule n ((sigma1 (ws ! 1) + ws ! 6 + sigma0 (ws ! 14) + ws ! 15) # ws)"

fun shaRound :: "word32 \<times> word32 \<Rightarrow> word32 list \<Rightarrow> word32 list" where
  "shaRound (k, w) [a, b, c, d, e, f, g, h] =
     (let t1 = h + bigSigma1 e + chooseBits e f g + k + w; t2 = bigSigma0 a + majority a b c
      in [t1 + t2, a, b, c, d + t1, e, f, g])"
| "shaRound kw hs = hs"

definition shaBlock :: "word32 list \<Rightarrow> word32 list \<Rightarrow> word32 list" where
  "shaBlock ws hs = map2 (+) hs (fold shaRound (zip roundConstants (rev (schedule 48 (rev ws)))) hs)"

text \<open>Big-endian words of a byte sequence, and back.\<close>

fun beWords :: "word32 list \<Rightarrow> word32 list" where
  "beWords (a # b # c # d # bs) = (((a * 256 + b) * 256 + c) * 256 + d) # beWords bs"
| "beWords bs = []"

definition beBytes :: "word32 \<Rightarrow> byte list" where
  "beBytes w = [ucast (drop_bit 24 w), ucast (drop_bit 16 w), ucast (drop_bit 8 w), ucast w]"

text \<open>A one bit, zeros up to eight bytes before a block boundary, and the length in bits.\<close>

definition lengthBytes :: "64 word \<Rightarrow> word32 list" where
  "lengthBytes n = map (\<lambda>i. ucast (drop_bit i n AND 255)) [56, 48, 40, 32, 24, 16, 8, 0]"

definition shaPad :: "word32 list \<Rightarrow> word32 list" where
  "shaPad bs =
     bs @ 0x80 # replicate ((119 - length bs mod 64) mod 64) 0 @ lengthBytes (8 * of_nat (length bs))"

function shaBlocks :: "word32 list \<Rightarrow> word32 list \<Rightarrow> word32 list" where
  "shaBlocks ws hs = (if length ws < 16 then hs else shaBlocks (drop 16 ws) (shaBlock (take 16 ws) hs))"
  by pat_completeness auto
termination by (relation "measure (\<lambda>(ws, hs). length ws)") auto

declare shaBlocks.simps [simp del]

definition sha256 :: "string \<Rightarrow> byte list" where
  "sha256 s = concat (map beBytes (shaBlocks (beWords (shaPad (map of_char s))) initialHash))"

section \<open>Constants\<close>

text \<open>
  The constants are the first thirty-two bits of the fractional parts of the cube roots (rounds) and
  square roots (initial value) of the first primes. \<open>rootFraction e p k\<close> says that \<open>k\<close> is that for
  the \<open>e\<close>-th root of \<open>p\<close>, whose integral part is at most 6.
\<close>

definition rootFraction :: "nat \<Rightarrow> nat \<Rightarrow> nat \<Rightarrow> bool" where
  "rootFraction e p k =
     list_ex (\<lambda>i. (i * 2 ^ 32 + k) ^ e \<le> p * 2 ^ (32 * e) \<and> p * 2 ^ (32 * e) < (i * 2 ^ 32 + k + 1) ^ e) [1, 2, 3, 4, 5, 6]"

definition firstPrimes :: "nat list" where
  "firstPrimes =
     [2, 3, 5, 7, 11, 13, 17, 19, 23, 29, 31, 37, 41, 43, 47, 53, 59, 61, 67, 71, 73, 79, 83, 89, 97,
      101, 103, 107, 109, 113, 127, 131, 137, 139, 149, 151, 157, 163, 167, 173, 179, 181, 191, 193, 197, 199,
      211, 223, 227, 229, 233, 239, 241, 251, 257, 263, 269, 271, 277, 281, 283, 293, 307, 311]"

lemma roundConstants_roots: "list_all2 (rootFraction 3) firstPrimes (map unat roundConstants)"
  by (simp add: firstPrimes_def roundConstants_def rootFraction_def)

lemma initialHash_roots: "list_all2 (rootFraction 2) (take 8 firstPrimes) (map unat initialHash)"
  by (simp add: firstPrimes_def initialHash_def rootFraction_def)

section \<open>Length of the digest\<close>

lemma length_shaRound: "length hs = 8 \<Longrightarrow> length (shaRound kw hs) = 8"
  by (cases "(kw, hs)" rule: shaRound.cases) (simp_all add: Let_def)

lemma length_rounds: "length hs = 8 \<Longrightarrow> length (fold shaRound kws hs) = 8"
  by (induction kws arbitrary: hs) (simp_all add: length_shaRound)

lemma length_shaBlock: "length hs = 8 \<Longrightarrow> length (shaBlock ws hs) = 8"
  by (simp add: shaBlock_def length_rounds)

lemma length_shaBlocks: "length hs = 8 \<Longrightarrow> length (shaBlocks ws hs) = 8"
  by (induction ws hs rule: shaBlocks.induct) (simp add: shaBlocks.simps length_shaBlock)

lemma length_sha256: "length (sha256 s) = 32"
proof -
  have "length (concat (map beBytes ws)) = 4 * length ws" for ws
    by (induction ws) (simp_all add: beBytes_def)
  then show ?thesis by (simp add: sha256_def length_shaBlocks initialHash_def)
qed

text \<open>Padding fills whole blocks of sixty-four bytes, and the last eight are the length.\<close>

lemma length_shaPad: "length (shaPad bs) mod 64 = 0"
proof -
  have reduce: "(n + b mod m + c) mod m = (n mod m + b + c) mod m" for n b c m :: nat
    by (metis mod_add_left_eq mod_add_right_eq)
  have "n mod 64 + (119 - n mod 64) + 9 = 128" for n :: nat using mod_less_divisor [of 64 n] by simp
  then have "(n + (119 - n mod 64) mod 64 + 9) mod 64 = 0" for n :: nat by (simp only: reduce) simp
  then show ?thesis by (simp add: shaPad_def lengthBytes_def ac_simps)
qed

section \<open>Evaluation\<close>

named_theorems sha_eval

declare sigma0_def [sha_eval] sigma1_def [sha_eval] bigSigma0_def [sha_eval] bigSigma1_def [sha_eval]
  chooseBits_def [sha_eval] majority_def [sha_eval] roundConstants_def [sha_eval] initialHash_def [sha_eval]
  shaBlock_def [sha_eval] Let_def [sha_eval]

text \<open>Rotation of numerals: masking what is shifted up keeps the numerals small.\<close>

lemma rotr_eval [sha_eval]: "n \<le> 32 \<Longrightarrow> rotr n x = drop_bit n x OR push_bit (32 - n) (take_bit n x)"
  unfolding rotr_def
  by (rule arg_cong2 [of _ _ _ _ "(OR)"]; rule bit_word_eqI) (auto simp: bit_simps)

lemma schedule_numeral [sha_eval]:
  "schedule (numeral k) ws =
     schedule (pred_numeral k) ((sigma1 (ws ! 1) + ws ! 6 + sigma0 (ws ! 14) + ws ! 15) # ws)"
  by (simp add: numeral_eq_Suc)

lemma replicate_numeral [sha_eval]: "replicate (numeral k) x = x # replicate (pred_numeral k) x"
  by (simp add: numeral_eq_Suc)

lemma sha256_one_block:
  assumes "beWords (shaPad (map of_char s)) = ws" "length ws = 16"
  shows "sha256 s = concat (map beBytes (shaBlock ws initialHash))"
proof -
  have "shaBlocks ws initialHash = shaBlock ws initialHash"
    using assms(2) by (simp add: shaBlocks.simps [of ws] shaBlocks.simps [of "[]"])
  with assms(1) show ?thesis by (simp add: sha256_def)
qed

end
