(* ===== verification/Identity.thy ===== *)
theory Identity
  imports Acl Headers GoSha
begin

text \<open>
  Who a request comes from: bearer authentication (\<^verbatim>\<open>authorized\<close> of \<^verbatim>\<open>gateway.go\<close>) and the pseudonym
  under which a client is limited and accounted (\<^verbatim>\<open>clientIdentity\<close> and \<^verbatim>\<open>fingerprintIdentity\<close> of
  \<^verbatim>\<open>limiter.go\<close>): the first eight bytes of a SHA-256 digest in hexadecimal. The comparison in constant
  time is equality.
\<close>

definition authorized :: "header \<Rightarrow> string list \<Rightarrow> bool" where
  "authorized h keys =
     (if keys = [] then True
      else
        let auth = headerGet h ''Authorization'' in
        if \<not> hasPrefix auth ''Bearer '' then False
        else
          let given = trimSpace (trimPrefix auth ''Bearer '') in
          list_ex (\<lambda>expected. given = expected) keys)"

definition hexDigit :: "nat \<Rightarrow> char" where
  "hexDigit n = (if n < 10 then char_of (48 + n) else char_of (87 + n))"

definition hexByte :: "byte \<Rightarrow> string" where
  "hexByte b = [hexDigit (unat b div 16), hexDigit (unat b mod 16)]"

definition fingerprintIdentity :: "string \<Rightarrow> string \<Rightarrow> string" where
  "fingerprintIdentity kind v = kind @ '':'' @ concat (map hexByte (take 8 (sha256 v)))"

definition clientIdentity :: "string \<Rightarrow> header \<Rightarrow> clientACL option \<Rightarrow> string" where
  "clientIdentity remoteAddr h trusted =
     (let auth = headerGet h ''Authorization'' in
      if auth \<noteq> [] then fingerprintIdentity ''key'' auth
      else
        (case forwardedClientIP remoteAddr (headerGet h ''X-Forwarded-For'') trusted of
           Some i \<Rightarrow> fingerprintIdentity ''ip'' (ipString i)
         | None \<Rightarrow> fingerprintIdentity ''ip'' remoteAddr))"

section \<open>Fingerprints\<close>

lemma hexDigit_inj: "m < 16 \<Longrightarrow> n < 16 \<Longrightarrow> hexDigit m = hexDigit n \<longleftrightarrow> m = n"
proof -
  assume "m < 16" "n < 16"
  then have "(of_char (hexDigit m) :: nat) = of_char (hexDigit n) \<Longrightarrow> m = n"
    by (auto simp: hexDigit_def split: if_splits)
  then show ?thesis by metis
qed

lemma hexByte_inj: "hexByte a = hexByte b \<longleftrightarrow> a = b"
proof
  assume "hexByte a = hexByte b"
  moreover have "unat a < 256" "unat b < 256" using unsigned_less [of a] unsigned_less [of b] by simp_all
  ultimately have "unat a div 16 = unat b div 16" "unat a mod 16 = unat b mod 16"
    by (auto simp: hexByte_def hexDigit_inj)
  then have "unat a = unat b" by (metis mult_div_mod_eq)
  then show "a = b" by (rule unsigned_word_eqI)
qed simp

lemma hexBytes_inj: "concat (map hexByte as) = concat (map hexByte bs) \<longleftrightarrow> as = bs"
proof (induction as arbitrary: bs)
  case Nil
  show ?case by (cases bs) (auto simp: hexByte_def)
next
  case (Cons a as)
  show ?case
  proof (cases bs)
    case (Cons b bs')
    have "length (hexByte a) = length (hexByte b)" by (simp add: hexByte_def)
    then show ?thesis using Cons Cons.IH [of bs'] by (simp add: hexByte_inj)
  qed (simp add: hexByte_def)
qed

lemma fingerprint_eq:
  "fingerprintIdentity kind v = fingerprintIdentity kind v' \<longleftrightarrow> take 8 (sha256 v) = take 8 (sha256 v')"
  by (simp add: fingerprintIdentity_def hexBytes_inj)

lemma length_fingerprint: "length (fingerprintIdentity kind v) = length kind + 17"
proof -
  have "length (concat (map hexByte bs)) = 2 * length bs" for bs by (induction bs) (simp_all add: hexByte_def)
  then show ?thesis by (simp add: fingerprintIdentity_def length_sha256)
qed

lemma fingerprint_kinds: "fingerprintIdentity ''key'' v \<noteq> fingerprintIdentity ''ip'' v'"
  by (simp add: fingerprintIdentity_def)

section \<open>Authentication and identity\<close>

lemma stripRunes_space: "stripRunes spaceRunes (CHR 0x20 # s) = stripRunes spaceRunes s"
  by (subst stripRunes.simps) (simp add: spaceRunes_def)

lemma trimSpace_leading: "trimSpace (replicate n (CHR 0x20) @ s) = trimSpace s"
proof -
  have "trimLeftSpace (replicate n (CHR 0x20) @ s) = trimLeftSpace s"
    by (induction n) (simp_all add: trimLeftSpace_def stripRunes_space)
  then show ?thesis by (simp add: trimSpace_def)
qed

lemma headerGet_auth [simp]: "headerGet [(''Authorization'', [v])] ''Authorization'' = v"
proof -
  have "canonicalHeaderKey ''Authorization'' = ''Authorization''"
    by (simp add: canonicalHeaderKey_def tokenChar_def charBetween_def upperChar_def lowerChar_def less_eq_char_def Let_def)
  then show ?thesis by (simp add: headerGet_def headerValues_def)
qed

text \<open>
  With inbound keys configured a request is let through exactly when its
  \<^verbatim>\<open>Authorization\<close> header is \<^verbatim>\<open>Bearer\<close> and one of the keys, up to white space around the key; no
  prefix, extension or other spelling of a key is accepted.
\<close>

lemma authorized_iff_key:
  assumes "keys \<noteq> []"
  shows "authorized h keys \<longleftrightarrow>
           (\<exists>key \<in> set keys. \<exists>given. headerGet h ''Authorization'' = ''Bearer '' @ given \<and> trimSpace given = key)"
proof -
  let ?a = "headerGet h ''Authorization''"
  have iff: "authorized h keys \<longleftrightarrow> hasPrefix ?a ''Bearer '' \<and> trimSpace (trimPrefix ?a ''Bearer '') \<in> set keys"
    using assms by (simp add: authorized_def Let_def list_ex_iff)
  show ?thesis
  proof (cases "hasPrefix ?a ''Bearer ''")
    case True
    then obtain given where g: "?a = ''Bearer '' @ given" by (auto simp: hasPrefix_iff_prefix prefix_def)
    have "trimPrefix ?a ''Bearer '' = given" unfolding g by (rule trimPrefix_append)
    with iff True g show ?thesis by auto
  next
    case False
    then have "?a \<noteq> ''Bearer '' @ given" for given by (metis hasPrefix_append)
    with iff False show ?thesis by blast
  qed
qed

lemma authorized_iff_key_example:
  "authorized [(''Authorization'', [''Bearer k''])] [''k''] \<and> \<not> authorized [(''Authorization'', [''Bearer kk''])] [''k'']"
proof -
  have t: "trimSpace ''k'' = ''k''" "trimSpace ''kk'' = ''kk''" by (simp_all add: trim_eval)
  show ?thesis
    using authorized_iff_key [of "[''k'']" "[(''Authorization'', [''Bearer k''])]"]
      authorized_iff_key [of "[''k'']" "[(''Authorization'', [''Bearer kk''])]"] t by auto
qed

text \<open>
  The spellings of a key that differ in the blanks before it: authentication accepts them all, and the
  identity is that of the spelling.
\<close>

definition bearer :: "string \<Rightarrow> nat \<Rightarrow> string" where
  "bearer key n = ''Bearer '' @ replicate n (CHR 0x20) @ key"

lemma bearer_authorized: "trimSpace key = key \<Longrightarrow> authorized [(''Authorization'', [bearer key n])] [key]"
  using trimSpace_leading [of n key] trimPrefix_append [of "''Bearer ''"] by (simp add: authorized_def bearer_def)

lemma bearer_identity: "clientIdentity addr [(''Authorization'', [bearer key n])] trusted = fingerprintIdentity ''key'' (bearer key n)"
  by (simp add: clientIdentity_def bearer_def)

lemma bearer_padded:
  "beWords (shaPad (map of_char ''Bearer k'')) = 1113940338 # 1701978219 # 2147483648 # replicate 12 0 @ [64]"
  "beWords (shaPad (map of_char ''Bearer  k'')) = 1113940338 # 1701978144 # 1803550720 # replicate 12 0 @ [72]"
  by code_simp+

lemma bearer_digest: "take 8 (sha256 ''Bearer k'') = [204, 155, 21, 80, 212, 203, 93, 34]"
  unfolding sha256_one_block [OF bearer_padded(1), simplified] by (simp add: sha_eval beBytes_def)

lemma bearer_spaced_digest: "take 8 (sha256 ''Bearer  k'') = [184, 109, 250, 76, 157, 57, 89, 22]"
  unfolding sha256_one_block [OF bearer_padded(2), simplified] by (simp add: sha_eval beBytes_def)

end
