(* ===== verification/Proxy.thy ===== *)
theory Proxy
  imports Retry Streams Readiness Identity
begin

text \<open>
  The request path of \<^verbatim>\<open>gateway.go\<close>: the gateway's state and the handler \<^verbatim>\<open>proxy\<close>, cut at the points
  where it returns early and where a deferred function is registered. Every deferred release is
  performed by the stage that registered it, after the later stages have returned, which is the
  order in which Go runs deferred calls.

  The arguments of the handler that stand for what it does not control are collected in
  \<^verbatim>\<open>proxy_env\<close>: the events during the waits for admission, the network,
  the client's connection, the database and the clock. The result is \<open>None\<close> only when a wait for
  admission never ends.
\<close>

section \<open>State, requests and replies\<close>

record gateway =
  g_config :: config
  g_usage :: usageDB
  g_discovery :: discoveryStore
  g_readiness :: readinessCache
  g_limits :: limitStore
  g_queue :: requestQueue
  g_metrics :: metrics
  g_acl :: "clientACL option"
  g_trusted :: "clientACL option"
  g_usageDBPath :: string
  g_logs :: "log_record list"

record client_request =
  rq_method :: string
  rq_path :: string
  rq_rawQuery :: string
  rq_header :: header
  rq_remoteAddr :: string
  rq_host :: string
  rq_tls :: bool
  rq_reads :: "string list"
  rq_readFails :: bool

datatype reply_body =
    JsonBody any
  | StreamBody string
  | MetricsBody "(string \<times> metric_value) list"
  | UsageBody "(string \<times> modelRow) list"
  | PeriodBody string "(dayKey \<times> counters) list"

record reply =
  rp_status :: int
  rp_header :: header
  rp_body :: reply_body

definition writeJSONStatus :: "header \<Rightarrow> int \<Rightarrow> reply_body \<Rightarrow> reply" where
  "writeJSONStatus h status v =
     \<lparr>rp_status = status, rp_header = headerSet ''Content-Type'' ''application/json'' h, rp_body = v\<rparr>"

definition writeAPIError :: "header \<Rightarrow> int \<Rightarrow> string \<Rightarrow> reply" where
  "writeAPIError h status message =
     writeJSONStatus h status
       (JsonBody (AObj [(''error'', AObj [(''message'', AStr message), (''type'', AStr ''shepard_error'')])]))"

definition writeRateLimitError :: "header \<Rightarrow> reply" where
  "writeRateLimitError h = writeAPIError (headerSet ''Retry-After'' ''1'' h) 429 ''rate or concurrency limit exceeded''"

section \<open>Decoding the body\<close>

text \<open>\<^verbatim>\<open>io.ReadAll\<close> behind \<^verbatim>\<open>http.MaxBytesReader\<close>: one byte more than the limit is an error.\<close>

definition readBody :: "int \<Rightarrow> client_request \<Rightarrow> string option" where
  "readBody limit r =
     (let b = concat (rq_reads r) in if rq_readFails r \<or> int (length b) > max 0 limit then None else Some b)"

section \<open>The stages of proxy\<close>

record proxy_env =
  pe_world :: world
  pe_ingress :: "limitStore wait_env"
  pe_model :: "limitStore wait_env"
  pe_discovery :: "string \<Rightarrow> discovery_env"
  pe_attempt :: "nat \<Rightarrow> nat \<Rightarrow> attempt_env"
  pe_deadline :: bool
  pe_streaming :: "limitStore shared \<Rightarrow> limitStore shared"
  pe_write :: "nat \<Rightarrow> write_env"
  pe_stamp :: "string \<times> int"
  pe_fault :: db_fault
  pe_elapsed :: uint64

definition shared :: "gateway \<Rightarrow> limitStore shared" where
  "shared g = (g_queue g, g_limits g)"

definition setShared :: "limitStore shared \<Rightarrow> gateway \<Rightarrow> gateway" where
  "setShared sh g = g\<lparr>g_queue := fst sh, g_limits := snd sh\<rparr>"

definition releaseScopes :: "admissionScope list \<Rightarrow> gateway \<Rightarrow> gateway" where
  "releaseScopes scopes g = setShared (releaseShared scopes (shared g)) g"

definition usageRecord :: "proxy_env \<Rightarrow> string \<Rightarrow> string \<Rightarrow> int \<Rightarrow> string \<Rightarrow> gateway \<Rightarrow> gateway" where
  "usageRecord env client model status body g =
     g\<lparr>g_usage := fst (recordAt (pe_fault env) (pe_stamp env) client model status body (g_usage g))\<rparr>"

text \<open>From the selected response to the end of the stream.\<close>

definition proxyStream ::
    "proxy_env \<Rightarrow> config \<Rightarrow> string \<Rightarrow> string \<Rightarrow> http_response \<Rightarrow> targetConfig \<Rightarrow> gateway \<Rightarrow> gateway \<times> reply" where
  "proxyStream env cfg clientID model resp selected g =
     (let logCfg = newConfigLogging (srv_logging (cfg_server cfg));
          g1 = g\<lparr>g_metrics := (g_metrics g)\<lparr>m_completed := m_completed (g_metrics g) + 1\<rparr>\<rparr>;
          h = copyResponseHeaders [] (resp_header resp);
          reads = map (\<lambda>(i, p). (p, pe_write env i)) (List.enumerate 0 (resp_reads resp));
          (st, copyErr) = copyStream (clientWriter (isEventStream (resp_header resp)) (srv_writeIdleTimeout (cfg_server cfg)))
              (resp_readFails resp) reads (beginStream logCfg \<lparr>cc_sent = [], cc_flushed = 0, cc_deadline = None\<rparr>);
          g2 = setShared (pe_streaming env (shared g1)) g1;
          g3 = usageRecord env clientID model (resp_status resp) (tb_buf (ss_capture st)) g2;
          g4 = g3\<lparr>g_logs := g_logs g3 @
                 logResponse logCfg (resp_status resp) (resp_header resp) (tgt_provider selected) (tgt_model selected) (ss_log st)\<rparr>
      in (g4, \<lparr>rp_status = resp_status resp, rp_header = h, rp_body = StreamBody (cc_sent (ss_conn st))\<rparr>))"

text \<open>The target loop and what follows it; the last component says whether the request counts as completed.\<close>

definition proxyTargets ::
    "proxy_env \<Rightarrow> client_request \<Rightarrow> config \<Rightarrow> string \<Rightarrow> string \<Rightarrow> modelConfig \<Rightarrow> payload \<Rightarrow> gateway
     \<Rightarrow> (gateway \<times> reply \<times> bool) option" where
  "proxyTargets env r cfg clientID name model payload g =
     (let L = \<lparr>lc_world = pe_world env, lc_waitTimeout = q_waitTimeout (srv_queue (cfg_server cfg)),
               lc_path = rq_path r, lc_query = rq_rawQuery r, lc_header = rq_header r, lc_retries = mdl_retries model,
               lc_providers = cfg_providers cfg, lc_payload = payload\<rparr>;
          st0 = \<lparr>ls_shared = shared g, ls_calls = [], ls_metrics = g_metrics g, ls_lastErr = None, ls_limited = False\<rparr>
      in case targetLoop L (pe_attempt env) 0 (resolvedTargets model) st0 of
           None \<Rightarrow> None
         | Some (st, x) \<Rightarrow>
             let g1 = (setShared (ls_shared st) g)\<lparr>g_metrics := ls_metrics st\<rparr> in
             (case x of
                EncodeFailed \<Rightarrow> Some (g1, writeAPIError [] 500 ''could not encode upstream request'', False)
              | Exhausted \<Rightarrow>
                  (case exhaustedReply (pe_deadline env) st of (status, message) \<Rightarrow>
                     let h = (if status = 429 then headerSet ''Retry-After'' ''1'' [] else []) in
                     Some (usageRecord env clientID name status [] g1, writeAPIError h status message, False))
              | Selected resp selected scopes \<Rightarrow>
                  (case proxyStream env cfg clientID name resp selected g1 of
                     (g2, rep) \<Rightarrow> Some (releaseScopes scopes g2, rep, True))))"

definition modelScopes :: "string \<Rightarrow> modelConfig \<Rightarrow> admissionScope list" where
  "modelScopes name model = [\<lparr>scope_key = ''model:'' @ name, scope_limits = mdl_limits model\<rparr>]"

definition countQueue :: "bool \<Rightarrow> bool \<Rightarrow> gateway \<Rightarrow> gateway" where
  "countQueue queued admitted g =
     (let m = countQueueWait queued (g_metrics g) in
      g\<lparr>g_metrics := (if admitted then m else m\<lparr>m_queueRejected := m_queueRejected m + 1\<rparr>)\<rparr>)"

text \<open>Model admission, prompts and overrides.\<close>

definition proxyModel ::
    "proxy_env \<Rightarrow> client_request \<Rightarrow> config \<Rightarrow> string \<Rightarrow> string \<Rightarrow> modelConfig \<Rightarrow> payload \<Rightarrow> gateway
     \<Rightarrow> (gateway \<times> reply \<times> bool) option" where
  "proxyModel env r cfg clientID name model payload g =
     (case admitWithQueue (q_waitTimeout (srv_queue (cfg_server cfg))) (modelScopes name model) (pe_model env) (shared g) of
        None \<Rightarrow> None
      | Some (sh, admitted, queued) \<Rightarrow>
          let g1 = countQueue queued admitted (setShared sh g) in
          if \<not> admitted then Some (usageRecord env clientID name 429 [] g1, writeRateLimitError [], False)
          else
            (case applySystemPrompt payload (rq_path r) (mdl_prependSystemPrompt model) (mdl_appendSystemPrompt model) of
               Inl e \<Rightarrow> Some (releaseScopes (modelScopes name model) g1, writeAPIError [] 400 ''messages must be an array'', False)
             | Inr p1 \<Rightarrow>
                 map_option (\<lambda>(g2, rep, completed). (releaseScopes (modelScopes name model) g2, rep, completed))
                   (proxyTargets env r cfg clientID name model (applyRequestOverrides p1 (mdl_overrides model)) g1)))"

text \<open>
  Reading and decoding the body, and finding the model. The escapes that \<^verbatim>\<open>%q\<close> puts into a quoted
  name are left out.
\<close>

definition proxyBody ::
    "proxy_env \<Rightarrow> client_request \<Rightarrow> config \<Rightarrow> string \<Rightarrow> gateway \<Rightarrow> (gateway \<times> reply \<times> bool) option" where
  "proxyBody env r cfg clientID g =
     (case readBody (srv_maxRequestBytes (cfg_server cfg)) r of
        None \<Rightarrow> Some (g, writeAPIError [] 413 ''request body is too large'', False)
      | Some body \<Rightarrow>
          (case decodePayload body of
             None \<Rightarrow> Some (g, writeAPIError [] 400 ''request body must be valid JSON'', False)
           | Some payload \<Rightarrow>
               (case map_of payload ''model'' of
                  Some (AStr name) \<Rightarrow>
                    if name = [] then Some (g, writeAPIError [] 400 ''model must be a string'', False)
                    else
                      let g1 = g\<lparr>g_logs := g_logs g @
                                 logRequest (newConfigLogging (srv_logging (cfg_server cfg))) (rq_method r) (rq_path r) (rq_header r) name body\<rparr>
                      in (case map_of (cfg_models cfg) name of
                            Some model \<Rightarrow> proxyModel env r cfg clientID name model payload g1
                          | None \<Rightarrow>
                              (case resolveDiscoveredModel (pe_world env) (pe_discovery env) (cfg_providers cfg) name (g_discovery g1) of
                                 (d, Inl e) \<Rightarrow>
                                   Some (g1\<lparr>g_discovery := d\<rparr>, writeAPIError [] 502 ''could not query provider models'', False)
                               | (d, Inr None) \<Rightarrow>
                                   Some (g1\<lparr>g_discovery := d\<rparr>, writeAPIError [] 404 (''unknown model '' @ [CHR 0x22] @ name @ [CHR 0x22]), False)
                               | (d, Inr (Some model)) \<Rightarrow>
                                   proxyModel env r cfg clientID name model payload (g1\<lparr>g_discovery := d\<rparr>)))
                | _ \<Rightarrow> Some (g, writeAPIError [] 400 ''model must be a string'', False))))"

definition ingressScopes :: "config \<Rightarrow> string \<Rightarrow> admissionScope list" where
  "ingressScopes cfg clientID =
     [\<lparr>scope_key = ''ingress'',
       scope_limits = \<lparr>requestsPerMinute = 0, burst = 0, maxConcurrent = srv_maxConcurrentRequests (cfg_server cfg)\<rparr>\<rparr>,
      \<lparr>scope_key = ''client:'' @ clientID, scope_limits = srv_clientLimits (cfg_server cfg)\<rparr>]"

text \<open>The deferred function registered first, which runs last.\<close>

definition closeRequest :: "proxy_env \<Rightarrow> bool \<Rightarrow> gateway \<Rightarrow> gateway" where
  "closeRequest env completed g =
     (let m = g_metrics g;
          m1 = m\<lparr>m_active := m_active m - 1, m_durationNanos := m_durationNanos m + pe_elapsed env\<rparr>
      in g\<lparr>g_metrics := (if completed then m1 else m1\<lparr>m_failed := m_failed m1 + 1\<rparr>)\<rparr>)"

definition proxy :: "proxy_env \<Rightarrow> client_request \<Rightarrow> config \<Rightarrow> gateway \<Rightarrow> (gateway \<times> reply) option" where
  "proxy env r cfg g =
     (let m = g_metrics g;
          g1 = g\<lparr>g_metrics := m\<lparr>m_requests := m_requests m + 1, m_active := m_active m + 1\<rparr>\<rparr>;
          clientID = clientIdentity (rq_remoteAddr r) (rq_header r) (g_trusted g)
      in case admitWithQueue (q_waitTimeout (srv_queue (cfg_server cfg))) (ingressScopes cfg clientID) (pe_ingress env) (shared g1) of
           None \<Rightarrow> None
         | Some (sh, admitted, queued) \<Rightarrow>
             let g2 = countQueue queued admitted (setShared sh g1) in
             if \<not> admitted then Some (closeRequest env False g2, writeRateLimitError [])
             else
               (case proxyBody env r cfg clientID g2 of
                  None \<Rightarrow> None
                | Some (g3, rep, completed) \<Rightarrow>
                    Some (closeRequest env completed (releaseScopes (ingressScopes cfg clientID) g3), rep)))"

section \<open>Slots on every path\<close>

lemma shared_simps [gateway_simps]:
  "shared (setShared sh g) = sh"
  "shared (g\<lparr>g_metrics := m\<rparr>) = shared g"
  "shared (g\<lparr>g_logs := l\<rparr>) = shared g"
  "shared (g\<lparr>g_discovery := d\<rparr>) = shared g"
  "shared (g\<lparr>g_usage := u\<rparr>) = shared g"
  "shared (usageRecord env c n st body g) = shared g"
  "shared (countQueue q a g) = shared g"
  "shared (closeRequest env b g) = shared g"
  "shared (releaseScopes scopes g) = releaseShared scopes (shared g)"
  by (simp_all add: shared_def setShared_def usageRecord_def countQueue_def closeRequest_def releaseScopes_def Let_def)

definition neutralEnv :: "proxy_env \<Rightarrow> bool" where
  "neutralEnv env \<longleftrightarrow>
     neutralWait (pe_ingress env) \<and> neutralWait (pe_model env) \<and> (\<forall>i a. neutralAttempt (pe_attempt env i a)) \<and>
     neutral (pe_streaming env)"

lemma proxyStream_shared:
  "shared (fst (proxyStream env cfg c n resp t g)) = pe_streaming env (shared g)"
  by (simp add: proxyStream_def Let_def gateway_simps split: prod.split)

lemma proxyTargets_slots:
  assumes "proxyTargets env r cfg c n model p g = Some (g', rep, fin)" and "neutralEnv env"
    and "\<And>k. 0 \<le> countOf (shared g) k"
  shows "countOf (shared g') k = countOf (shared g) k"
proof -
  let ?L = "\<lparr>lc_world = pe_world env, lc_waitTimeout = q_waitTimeout (srv_queue (cfg_server cfg)),
               lc_path = rq_path r, lc_query = rq_rawQuery r, lc_header = rq_header r, lc_retries = mdl_retries model,
               lc_providers = cfg_providers cfg, lc_payload = p\<rparr>"
  let ?st0 = "\<lparr>ls_shared = shared g, ls_calls = [], ls_metrics = g_metrics g, ls_lastErr = None, ls_limited = False\<rparr>"
  obtain st x where loop: "targetLoop ?L (pe_attempt env) 0 (resolvedTargets model) ?st0 = Some (st, x)"
    using assms(1) by (auto simp: proxyTargets_def Let_def split: option.splits)
  have cnt: "countOf (ls_shared st) k = countOf (shared g) k + selectedSlots x k" for k
    using failover_slots [OF loop, of k] assms(2,3) by (simp add: neutralEnv_def)
  show ?thesis
  proof (cases x)
    case (Selected resp t scopes)
    let ?g1 = "(setShared (ls_shared st) g)\<lparr>g_metrics := ls_metrics st\<rparr>"
    have g': "g' = releaseScopes scopes (fst (proxyStream env cfg c n resp t ?g1))"
      using assms(1) loop Selected by (auto simp: proxyTargets_def Let_def split: prod.splits)
    have "countOf (shared (fst (proxyStream env cfg c n resp t ?g1))) k = countOf (shared g) k + slots k scopes" for k
      using cnt [of k] assms(2) Selected by (simp add: proxyStream_shared gateway_simps neutralEnv_def neutralD)
    then show ?thesis unfolding g' gateway_simps by (rule release_counts [OF _ assms(3)])
  qed (use assms(1) loop cnt in \<open>auto simp: proxyTargets_def Let_def gateway_simps split: prod.splits\<close>)
qed

lemma proxyModel_slots:
  assumes "proxyModel env r cfg c n model p g = Some (g', rep, fin)" and "neutralEnv env"
    and "\<And>k. 0 \<le> countOf (shared g) k"
  shows "countOf (shared g') k = countOf (shared g) k"
proof -
  obtain sh ok queued where w: "admitWithQueue (q_waitTimeout (srv_queue (cfg_server cfg))) (modelScopes n model) (pe_model env) (shared g)
      = Some (sh, ok, queued)"
    using assms(1) by (auto simp: proxyModel_def split: option.splits)
  have cnt: "countOf sh k = countOf (shared g) k + (if ok then slots k (modelScopes n model) else 0)" for k
    using admitWithQueue_counts [OF w] assms(2) by (simp add: neutralEnv_def)
  have nn: "0 \<le> countOf sh k" for k using cnt [of k] assms(3) [of k] slots_nonneg [of k "modelScopes n model"] by simp
  show ?thesis
  proof (cases ok)
    case False
    with assms(1) w cnt show ?thesis by (auto simp: proxyModel_def Let_def gateway_simps)
  next
    case True
    let ?g1 = "countQueue queued True (setShared sh g)"
    have undo: "countOf (releaseShared (modelScopes n model) sh2) k = countOf (shared g) k"
      if "\<And>k. countOf sh2 k = countOf sh k" for sh2
      using that cnt True by (intro release_counts [OF _ assms(3)]) simp
    show ?thesis
    proof (cases "applySystemPrompt p (rq_path r) (mdl_prependSystemPrompt model) (mdl_appendSystemPrompt model)")
      case (Inl e)
      with assms(1) w True undo [of sh] show ?thesis by (auto simp: proxyModel_def Let_def gateway_simps)
    next
      case (Inr p1)
      then obtain g2 where t: "proxyTargets env r cfg c n model (applyRequestOverrides p1 (mdl_overrides model)) ?g1 = Some (g2, rep, fin)"
        "g' = releaseScopes (modelScopes n model) g2"
        using assms(1) w True by (auto simp: proxyModel_def Let_def)
      have "countOf (shared g2) k = countOf sh k" for k
        using proxyTargets_slots [OF t(1) assms(2)] nn by (simp add: gateway_simps)
      from undo [OF this] show ?thesis by (simp add: t(2) gateway_simps)
    qed
  qed
qed

lemma proxyBody_slots:
  assumes "proxyBody env r cfg c g = Some (g', rep, fin)" and "neutralEnv env" and "\<And>k. 0 \<le> countOf (shared g) k"
  shows "countOf (shared g') k = countOf (shared g) k"
proof -
  have "countOf (shared g') k = countOf (shared g) k"
    if "proxyModel env r cfg c n model p g1 = Some (g', rep, fin)" "shared g1 = shared g" for n model p g1
    using proxyModel_slots [OF that(1) assms(2)] that(2) assms(3) by simp
  with assms(1) show ?thesis
    by (auto simp: proxyBody_def Let_def gateway_simps split: option.splits any.splits if_splits prod.splits sum.splits)
qed

lemma proxy_slots:
  assumes "proxy env r cfg g = Some (g', rep)" and "neutralEnv env" and "\<And>k. 0 \<le> countOf (shared g) k"
  shows "countOf (shared g') k = countOf (shared g) k"
proof -
  let ?id = "clientIdentity (rq_remoteAddr r) (rq_header r) (g_trusted g)"
  obtain sh ok queued where w: "admitWithQueue (q_waitTimeout (srv_queue (cfg_server cfg))) (ingressScopes cfg ?id) (pe_ingress env) (shared g)
      = Some (sh, ok, queued)"
    using assms(1) by (auto simp: proxy_def Let_def gateway_simps split: option.splits)
  have cnt: "countOf sh k = countOf (shared g) k + (if ok then slots k (ingressScopes cfg ?id) else 0)" for k
    using admitWithQueue_counts [OF w] assms(2) by (simp add: neutralEnv_def)
  have nn: "0 \<le> countOf sh k" for k using cnt [of k] assms(3) [of k] slots_nonneg [of k "ingressScopes cfg ?id"] by simp
  show ?thesis
  proof (cases ok)
    case False
    with assms(1) w cnt show ?thesis by (auto simp: proxy_def Let_def gateway_simps)
  next
    case True
    then obtain g2 g3 fin where t: "proxyBody env r cfg ?id g2 = Some (g3, rep, fin)" "shared g2 = sh"
      "g' = closeRequest env fin (releaseScopes (ingressScopes cfg ?id) g3)"
      using assms(1) w by (auto simp: proxy_def Let_def gateway_simps split: option.splits)
    have "countOf (shared g3) k = countOf sh k" for k
      using proxyBody_slots [OF t(1) assms(2)] nn t(2) by simp
    then have "countOf (releaseShared (ingressScopes cfg ?id) (shared g3)) k = countOf (shared g) k"
      using cnt True by (intro release_counts [OF _ assms(3)]) simp
    then show ?thesis by (simp add: t(3) gateway_simps)
  qed
qed

section \<open>Request counters\<close>

text \<open>The counters that only the beginning and the end of a request touch.\<close>

definition ledger :: "metrics \<Rightarrow> uint64 \<times> uint64 \<times> uint64 \<times> uint64" where
  "ledger m = (m_requests m, m_active m, m_completed m, m_failed m)"

lemma ledger_simps [gateway_simps]:
  "ledger (countQueueWait q m) = ledger m"
  "ledger (m\<lparr>m_upstreamRequests := a\<rparr>) = ledger m"
  "ledger (m\<lparr>m_upstreamErrors := a\<rparr>) = ledger m"
  "ledger (m\<lparr>m_queueRejected := a\<rparr>) = ledger m"
  "ledger (g_metrics (countQueue q ok g)) = ledger (g_metrics g)"
  "g_metrics (setShared sh g) = g_metrics g"
  "g_metrics (usageRecord env c n st body g) = g_metrics g"
  "g_metrics (releaseScopes scopes g) = g_metrics g"
  by (simp_all add: ledger_def countQueueWait_def countQueue_def setShared_def usageRecord_def releaseScopes_def Let_def)

lemma attemptLoop_ledger:
  "attemptLoop C E as st = Some (st', x) \<Longrightarrow> ledger (ls_metrics st') = ledger (ls_metrics st)"
proof (induction as arbitrary: st)
  case (Cons a as)
  have IH: "ledger (ls_metrics st') = l" if "attemptLoop C E as st1 = Some (st', x)" "ledger (ls_metrics st1) = l" for st1 l
    using Cons.IH [OF that(1)] that(2) by simp
  show ?case
    using Cons.prems
    by (auto simp: Let_def gateway_simps elim!: IH split: option.splits if_splits sum.splits)
qed simp

lemma targetLoop_ledger:
  "targetLoop L E i ts st = Some (st', x) \<Longrightarrow> ledger (ls_metrics st') = ledger (ls_metrics st)"
proof (induction ts arbitrary: i st)
  case (Cons t ts)
  from Cons.prems show ?case
  proof (cases rule: targetLoop_step)
    case (advance body st1)
    then show ?thesis using Cons.IH [OF advance(2)] attemptLoop_ledger [OF advance(1)] by simp
  qed (auto dest: attemptLoop_ledger)
qed simp

definition finished :: "bool \<Rightarrow> uint64 \<times> uint64 \<times> uint64 \<times> uint64 \<Rightarrow> uint64 \<times> uint64 \<times> uint64 \<times> uint64" where
  "finished b l = (case l of (r, a, c, f) \<Rightarrow> (r, a, if b then c + 1 else c, f))"

lemma finished_False [simp]: "finished False l = l"
  by (simp add: finished_def split: prod.split)

lemma proxyStream_ledger:
  "ledger (g_metrics (fst (proxyStream env cfg c n resp t g))) = finished True (ledger (g_metrics g))"
  by (simp add: proxyStream_def Let_def gateway_simps split: prod.split) (simp add: ledger_def finished_def)

lemma proxyTargets_ledger:
  assumes "proxyTargets env r cfg c n model p g = Some (g', rep, b)"
  shows "ledger (g_metrics g') = finished b (ledger (g_metrics g))"
  using assms
  by (auto simp: proxyTargets_def Let_def gateway_simps dest!: targetLoop_ledger
      split: option.splits target_exit.splits prod.splits)
     (metis fst_conv gateway.select_convs(7) gateway.surjective gateway.update_convs(7) proxyStream_ledger)+

lemma proxyModel_ledger:
  assumes "proxyModel env r cfg c n model p g = Some (g', rep, b)"
  shows "ledger (g_metrics g') = finished b (ledger (g_metrics g))"
  using assms
  by (auto simp: proxyModel_def Let_def gateway_simps dest!: proxyTargets_ledger
      split: option.splits if_splits sum.splits prod.splits)

lemma proxyBody_ledger:
  assumes "proxyBody env r cfg c g = Some (g', rep, b)"
  shows "ledger (g_metrics g') = finished b (ledger (g_metrics g))"
proof -
  have "ledger (g_metrics g') = finished b (ledger (g_metrics g))"
    if "proxyModel env r cfg c n model p g1 = Some (g', rep, b)" "g_metrics g1 = g_metrics g" for n model p g1
    using proxyModel_ledger [OF that(1)] that(2) by simp
  with assms show ?thesis
    by (auto simp: proxyBody_def Let_def split: option.splits any.splits if_splits prod.splits sum.splits)
qed


section \<open>Every request is answered\<close>

lemma attemptLoop_returns:
  assumes "\<And>a. boundedWait (tc_waitTimeout C) (ae_wait (E a))"
  shows "\<exists>st' x. attemptLoop C E as st = Some (st', x)"
proof (induction as arbitrary: st)
  case (Cons a as)
  obtain sh' ok queued where "admitWithQueue (tc_waitTimeout C) (tc_scopes C) (ae_wait (E a)) (ae_before (E a) (ls_shared st)) = Some (sh', ok, queued)"
    using admitWithQueue_bounded [OF assms] by blast
  then show ?case by (simp add: Let_def Cons.IH split: sum.split)
qed simp

lemma targetLoop_returns:
  assumes "\<And>i a. boundedWait (lc_waitTimeout L) (ae_wait (E i a))"
  shows "\<exists>st' x. targetLoop L E i ts st = Some (st', x)"
proof (induction ts arbitrary: i st)
  case (Cons t ts)
  have "\<exists>st' x. attemptLoop (targetCtx L i t body b) (E i) as st = Some (st', x)" for body b as
    using assms by (intro attemptLoop_returns) (simp add: targetCtx_def)
  then obtain st1 x where "attemptLoop (targetCtx L i t body b) (E i) as st = Some (st1 body b as, x body b as)" for body b as
    by metis
  then show ?case by (simp add: Cons.IH split: option.split attempt_exit.split)
qed simp

definition boundedEnv :: "config \<Rightarrow> proxy_env \<Rightarrow> bool" where
  "boundedEnv cfg env \<longleftrightarrow>
     (let t = q_waitTimeout (srv_queue (cfg_server cfg)) in
      boundedWait t (pe_ingress env) \<and> boundedWait t (pe_model env) \<and> (\<forall>i a. boundedWait t (ae_wait (pe_attempt env i a))))"

lemma proxyTargets_returns:
  assumes "boundedEnv cfg env"
  shows "\<exists>x. proxyTargets env r cfg c n model p g = Some x"
proof -
  have "\<exists>st' x. targetLoop \<lparr>lc_world = w, lc_waitTimeout = q_waitTimeout (srv_queue (cfg_server cfg)), lc_path = a,
      lc_query = q, lc_header = h, lc_retries = rt, lc_providers = ps, lc_payload = pl\<rparr> (pe_attempt env) i ts st
      = Some (st', x)" for w a q h rt ps pl i ts st
    using assms by (intro targetLoop_returns) (simp add: boundedEnv_def Let_def)
  then obtain st' x where "targetLoop \<lparr>lc_world = pe_world env, lc_waitTimeout = q_waitTimeout (srv_queue (cfg_server cfg)),
      lc_path = rq_path r, lc_query = rq_rawQuery r, lc_header = rq_header r, lc_retries = mdl_retries model,
      lc_providers = cfg_providers cfg, lc_payload = p\<rparr> (pe_attempt env) 0 (resolvedTargets model)
      \<lparr>ls_shared = shared g, ls_calls = [], ls_metrics = g_metrics g, ls_lastErr = None, ls_limited = False\<rparr> = Some (st', x)" by blast
  then show ?thesis by (auto simp: proxyTargets_def Let_def split: target_exit.split prod.split)
qed

lemma proxyModel_returns:
  assumes "boundedEnv cfg env"
  shows "\<exists>x. proxyModel env r cfg c n model p g = Some x"
proof -
  obtain sh ok queued where "admitWithQueue (q_waitTimeout (srv_queue (cfg_server cfg))) (modelScopes n model) (pe_model env) (shared g)
      = Some (sh, ok, queued)"
  proof -
    have "boundedWait (q_waitTimeout (srv_queue (cfg_server cfg))) (pe_model env)"
      using assms by (simp add: boundedEnv_def Let_def)
    from admitWithQueue_bounded [OF this] show thesis using that by blast
  qed
  moreover obtain t where "proxyTargets env r cfg c n model p' g' = Some (t p' g')" for p' g'
    using proxyTargets_returns [OF assms] by metis
  ultimately have "proxyModel env r cfg c n model p g \<noteq> None"
    by (simp only: proxyModel_def Let_def option.case prod.case option.map split: sum.split if_split) simp
  then show ?thesis by blast
qed

lemma proxyBody_returns: "boundedEnv cfg env \<Longrightarrow> \<exists>x. proxyBody env r cfg c g = Some x"
  using proxyModel_returns [of cfg env]
  by (auto simp: proxyBody_def Let_def split: option.split any.split prod.split sum.split)

lemma proxy_returns:
  assumes "boundedEnv cfg env"
  shows "\<exists>g' rep. proxy env r cfg g = Some (g', rep)"
proof -
  let ?id = "clientIdentity (rq_remoteAddr r) (rq_header r) (g_trusted g)"
  have "\<exists>sh ok queued. admitWithQueue (q_waitTimeout (srv_queue (cfg_server cfg))) (ingressScopes cfg ?id) (pe_ingress env) sh0
      = Some (sh, ok, queued)" for sh0
    using assms by (intro admitWithQueue_bounded) (simp add: boundedEnv_def Let_def)
  then obtain sh ok queued where "admitWithQueue (q_waitTimeout (srv_queue (cfg_server cfg))) (ingressScopes cfg ?id) (pe_ingress env) sh0
      = Some (sh sh0, ok sh0, queued sh0)" for sh0 by metis
  moreover obtain t where "proxyBody env r cfg ?id g' = Some (t g')" for g'
    using proxyBody_returns [OF assms] by metis
  ultimately show ?thesis by (auto simp: proxy_def Let_def split: prod.split)
qed

text \<open>
  Claim C1. Every request is answered and gives back what it took: when each wait for admission
  ends with its timeout or with the request's context, and what other goroutines do meanwhile leaves
  the concurrency counters as they were, the handler returns, and on every path through it (refusals at any of the three admissions, unreadable bodies, unknown models, failed,
  retried, timed out or streamed provider requests) all concurrency counters are what they were.
\<close>

theorem proxy_answers_and_gives_back:
  assumes "boundedEnv cfg env" and "neutralEnv env" and "\<And>k. 0 \<le> concCount (g_limits g) k"
  shows "\<exists>g' rep. proxy env r cfg g = Some (g', rep) \<and> (\<forall>k. concCount (g_limits g') k = concCount (g_limits g) k)"
proof -
  obtain g' rep where p: "proxy env r cfg g = Some (g', rep)" using proxy_returns [OF assms(1)] by blast
  then have "countOf (shared g') k = countOf (shared g) k" for k
    using proxy_slots [OF p assms(2)] assms(3) by (simp add: shared_def)
  with p show ?thesis by (auto simp: shared_def)
qed

section \<open>An example request\<close>

definition exampleGateway :: gateway where
  "exampleGateway = \<lparr>g_config = exampleConfig, g_usage = emptyDB, g_discovery = newDiscoveryStore,
     g_readiness = newReadinessCache, g_limits = newLimitStore, g_queue = newRequestQueue 0, g_metrics = zeroMetrics,
     g_acl = Some \<lparr>networks = []\<rparr>, g_trusted = None, g_usageDBPath = [], g_logs = []\<rparr>"

definition exampleRequest :: client_request where
  "exampleRequest = \<lparr>rq_method = ''POST'', rq_path = ''/v1/chat/completions'', rq_rawQuery = [],
     rq_header = [], rq_remoteAddr = ''10.0.0.1:4711'', rq_host = ''gw'', rq_tls = False, rq_reads = [render (JObj [(''model'', JStr ''stable'')])], rq_readFails = False\<rparr>"

definition exampleEnv :: "int \<Rightarrow> proxy_env" where
  "exampleEnv status = \<lparr>pe_world = quietWorld,
     pe_ingress = endingWait, pe_model = endingWait,
     pe_discovery = (\<lambda>_. answeringEnv id), pe_attempt = (\<lambda>_ _. answering status),
     pe_deadline = False, pe_streaming = (\<lambda>x. x),
     pe_write = (\<lambda>_. \<lparr>we_now = 0, we_deadline = DeadlineSet, we_accepts = 0, we_fails = False\<rparr>),
     pe_stamp = (''2026-07-01'', 0), pe_fault = NoFault, pe_elapsed = 1\<rparr>"

lemma example_bounded: "boundedEnv cfg (exampleEnv status)"
  by (simp add: boundedEnv_def boundedWait_def exampleEnv_def endingWait_def answering_def)

lemma example_neutral: "neutralEnv (exampleEnv status)"
  by (simp add: neutralEnv_def neutralWait_def neutralAttempt_def neutral_def exampleEnv_def endingWait_def answering_def)

theorem proxy_answers_and_gives_back_witness:
  "\<exists>g' rep. proxy (exampleEnv 200) exampleRequest exampleConfig exampleGateway = Some (g', rep) \<and>
     concCount (g_limits g') ''ingress'' = 0"
proof -
  have z: "concCount (g_limits exampleGateway) k = 0" for k
    by (simp add: exampleGateway_def newLimitStore_def concCount_def)
  have "\<exists>g' rep. proxy (exampleEnv 200) exampleRequest exampleConfig exampleGateway = Some (g', rep) \<and>
      (\<forall>k. concCount (g_limits g') k = concCount (g_limits exampleGateway) k)"
    by (rule proxy_answers_and_gives_back [OF example_bounded example_neutral]) (simp add: z)
  then show ?thesis by (auto simp: z)
qed


section \<open>Client limits and spellings of a key\<close>

text \<open>Requests that arrive one after another, none of which ends, each with its spelling of the same key.\<close>

fun admitSpellings ::
    "config \<Rightarrow> string \<Rightarrow> clientACL option \<Rightarrow> int \<Rightarrow> string \<Rightarrow> nat list \<Rightarrow> limitStore \<Rightarrow> bool list" where
  "admitSpellings cfg addr trusted now key [] s = []"
| "admitSpellings cfg addr trusted now key (n # ns) s =
     (case admit s now (ingressScopes cfg (clientIdentity addr [(''Authorization'', [bearer key n])] trusted)) of
        (s', ok) \<Rightarrow> ok # admitSpellings cfg addr trusted now key ns s')"

text \<open>A client that is not in the store is admitted while the gateway has room.\<close>

definition unseen :: "limitStore \<Rightarrow> string \<Rightarrow> bool" where
  "unseen s clientID \<longleftrightarrow> concCount s (''client:'' @ clientID) = 0 \<and> buckets s (''client:'' @ clientID) = None"

lemma unseen_admitted:
  assumes "unseen s clientID" and "1 \<le> burst (srv_clientLimits (cfg_server cfg))"
    and "srv_maxConcurrentRequests (cfg_server cfg) \<le> 0 \<or> concCount s ''ingress'' < srv_maxConcurrentRequests (cfg_server cfg)"
  shows "snd (admit s now (ingressScopes cfg clientID))"
proof -
  have "fl64 1 \<le> fl64 (of_int (burst (srv_clientLimits (cfg_server cfg))))" using assms(2) by (intro fl64_mono) simp
  then have "1 \<le> fl64 (of_int (burst (srv_clientLimits (cfg_server cfg))))" using fl64_of_int [of 1] by simp
  with assms(1,3) show ?thesis
    by (auto simp: admit_def ingressScopes_def unseen_def currentBucket_def Let_def)
qed

lemma unseen_other:
  assumes "admit s now (ingressScopes cfg clientID) = (s', ok)" and "clientID \<noteq> other" and "unseen s other"
  shows "unseen s' other"
proof -
  let ?k = "''client:'' @ other"
  have d: "distinct (map scope_key (ingressScopes cfg clientID))" by (simp add: ingressScopes_def)
  have "buckets s' ?k = buckets s ?k"
    by (rule admit_bucket [OF assms(1) d, of ?k]) (use assms(2) in \<open>auto simp: ingressScopes_def\<close>)
  moreover have "slots ?k (ingressScopes cfg clientID) = 0" using assms(2) by (simp add: ingressScopes_def)
  then have "concCount s' ?k = concCount s ?k"
    using lim.admit_bounds [OF assms(1), of ?k] by simp
  ultimately show ?thesis using assms(3) by (simp add: unseen_def)
qed

lemma spellings_admitted:
  assumes "1 \<le> burst (srv_clientLimits (cfg_server cfg))"
    and "distinct (map (\<lambda>n. take 8 (sha256 (bearer key n))) ns)"
    and "\<forall>n \<in> set ns. unseen s (fingerprintIdentity ''key'' (bearer key n))"
    and "srv_maxConcurrentRequests (cfg_server cfg) \<le> 0 \<or>
         concCount s ''ingress'' + int (length ns) \<le> srv_maxConcurrentRequests (cfg_server cfg)"
  shows "admitSpellings cfg addr trusted now key ns s = replicate (length ns) True"
  using assms(2-4)
proof (induction ns arbitrary: s)
  case (Cons n ns)
  let ?id = "fingerprintIdentity ''key'' (bearer key n)" and ?m = "srv_maxConcurrentRequests (cfg_server cfg)"
  have room: "?m \<le> 0 \<or> concCount s ''ingress'' < ?m" using Cons.prems(3) by auto
  obtain s' where a: "admit s now (ingressScopes cfg ?id) = (s', True)"
    using unseen_admitted [OF _ assms(1) room, of ?id now] Cons.prems(2) by (cases "admit s now (ingressScopes cfg ?id)") auto
  have "slots ''ingress'' (ingressScopes cfg ?id) \<le> 1" by (simp add: ingressScopes_def)
  then have "concCount s' ''ingress'' \<le> concCount s ''ingress'' + 1" using lim.admitted_takes [OF a] by simp
  then have "?m \<le> 0 \<or> concCount s' ''ingress'' + int (length ns) \<le> ?m" using Cons.prems(3) by auto
  moreover have "\<forall>m \<in> set ns. unseen s' (fingerprintIdentity ''key'' (bearer key m))"
    using Cons.prems(1,2) by (auto intro!: unseen_other [OF a] simp: fingerprint_eq)
  ultimately show ?case using Cons.IH [of s'] Cons.prems(1) a by (simp add: bearer_identity)
qed simp



end
