(* ===== verification/Gateway.thy ===== *)
theory Gateway
  imports Proxy
begin

text \<open>
  The gateway as a whole (\<^verbatim>\<open>gateway.go\<close>: \<^verbatim>\<open>New\<close>, \<^verbatim>\<open>Reload\<close>, \<^verbatim>\<open>ServeHTTP\<close> and the small handlers;
  \<^verbatim>\<open>usage.go\<close>: opening the store; \<^verbatim>\<open>cmd/shepard/main.go\<close>: start and reload). \<^verbatim>\<open>Reload\<close> stores several
  atomic pointers one after the other, and \<^verbatim>\<open>ServeHTTP\<close> loads them one after the other; both are split
  accordingly, and composed here without interference. Theory \<open>Program\<close> interleaves the parts.
\<close>

section \<open>Opening the usage store\<close>

text \<open>
  An empty path stands for a fresh database in memory, named with the next value of the
  process-wide counter. Opening a path gives the tables stored there, or empty ones. What fails
  while it is opened is the driver, or the \<open>n\<close>-th of the five set-up statements; they create only what
  does not exist, so tables that are there keep their rows.
\<close>

definition databasePath :: "string \<Rightarrow> uint64 \<Rightarrow> string \<times> uint64" where
  "databasePath path memoryDBCounter =
     (if path = [] then
        let n = memoryDBCounter + 1
        in (''file:shepard-memory-'' @ showNat (unat n) @ ''?mode=memory&cache=shared'', n)
      else (path, memoryDBCounter))"

datatype open_fault = OpenOk | OpenFails | StatementFails nat

datatype gateway_error = OpenUsage | InitUsage nat | BadNetwork acl_error | UsageDBChanged

definition usageStatements :: nat where
  "usageStatements = 5"

definition storedTables :: "(string \<rightharpoonup> usageDB) \<Rightarrow> string \<Rightarrow> usageDB" where
  "storedTables files path = (case files path of Some db \<Rightarrow> db | None \<Rightarrow> emptyDB)"

definition newUsageStore ::
    "open_fault \<Rightarrow> (string \<rightharpoonup> usageDB) \<Rightarrow> uint64 \<Rightarrow> string \<Rightarrow> uint64 \<times> (gateway_error + usageDB)" where
  "newUsageStore fault files memoryDBCounter path =
     (case databasePath path memoryDBCounter of (path', n) \<Rightarrow>
        (n, case fault of
              OpenFails \<Rightarrow> Inl OpenUsage
            | StatementFails i \<Rightarrow> if i < usageStatements then Inl (InitUsage i) else Inr (storedTables files path')
            | OpenOk \<Rightarrow> Inr (storedTables files path')))"

section \<open>Construction and reload\<close>

definition queueSize :: "serverConfig \<Rightarrow> int" where
  "queueSize s =
     (case q_enabled (srv_queue s) of Some True \<Rightarrow> q_maxSize (srv_queue s) | _ \<Rightarrow> 0)"

definition trustedOf :: "serverConfig \<Rightarrow> clientACL \<Rightarrow> clientACL option" where
  "trustedOf s trusted = (if srv_trustedProxyNetworks s \<noteq> [] then Some trusted else None)"

definition New :: "open_fault \<Rightarrow> (string \<rightharpoonup> usageDB) \<Rightarrow> uint64 \<Rightarrow> config \<Rightarrow> gateway_error + gateway" where
  "New fault files memoryDBCounter cfg =
     (case snd (newUsageStore fault files memoryDBCounter (srv_usageDB (cfg_server cfg))) of
        Inl e \<Rightarrow> Inl e
      | Inr db \<Rightarrow>
          (case newClientACL (srv_clientNetworks (cfg_server cfg)) of
             Inl e \<Rightarrow> Inl (BadNetwork e)
           | Inr acl \<Rightarrow>
               (case newClientACL (srv_trustedProxyNetworks (cfg_server cfg)) of
                  Inl e \<Rightarrow> Inl (BadNetwork e)
                | Inr trusted \<Rightarrow>
                    Inr \<lparr>g_config = cfg, g_usage = db, g_discovery = newDiscoveryStore, g_readiness = newReadinessCache,
                         g_limits = newLimitStore, g_queue = newRequestQueue (queueSize (cfg_server cfg)),
                         g_metrics = zeroMetrics, g_acl = Some acl, g_trusted = trustedOf (cfg_server cfg) trusted,
                         g_usageDBPath = srv_usageDB (cfg_server cfg), g_logs = []\<rparr>)))"

text \<open>
  What \<^verbatim>\<open>Reload\<close> does to the gateway once nothing can fail any more, one access to shared memory after
  the other: the atomic pointers are stored and the components take their locks one at a time.
\<close>

datatype reload_store =
    StoreConfig config
  | StoreACL clientACL
  | StoreTrusted "clientACL option"
  | SetQueueMax int
  | ClearDiscovery
  | ClearReadiness
  | ClearLimits

fun applyStore :: "reload_store \<Rightarrow> gateway \<Rightarrow> gateway" where
  "applyStore (StoreConfig cfg) g = g\<lparr>g_config := cfg\<rparr>"
| "applyStore (StoreACL acl) g = g\<lparr>g_acl := Some acl\<rparr>"
| "applyStore (StoreTrusted trusted) g = g\<lparr>g_trusted := trusted\<rparr>"
| "applyStore (SetQueueMax n) g = g\<lparr>g_queue := setMax n (g_queue g)\<rparr>"
| "applyStore ClearDiscovery g = g\<lparr>g_discovery := discovery_clear (g_discovery g)\<rparr>"
| "applyStore ClearReadiness g = g\<lparr>g_readiness := readiness_clear (g_readiness g)\<rparr>"
| "applyStore ClearLimits g = g\<lparr>g_limits := limits_clear (g_limits g)\<rparr>"

definition reloadStores :: "config \<Rightarrow> gateway \<Rightarrow> gateway_error + reload_store list" where
  "reloadStores cfg g =
     (if srv_usageDB (cfg_server cfg) \<noteq> g_usageDBPath g then Inl UsageDBChanged
      else
        (case newClientACL (srv_clientNetworks (cfg_server cfg)) of
           Inl e \<Rightarrow> Inl (BadNetwork e)
         | Inr acl \<Rightarrow>
             (case newClientACL (srv_trustedProxyNetworks (cfg_server cfg)) of
                Inl e \<Rightarrow> Inl (BadNetwork e)
              | Inr trusted \<Rightarrow>
                  Inr [StoreConfig cfg, StoreACL acl, StoreTrusted (trustedOf (cfg_server cfg) trusted),
                       SetQueueMax (queueSize (cfg_server cfg)), ClearDiscovery, ClearReadiness, ClearLimits])))"

definition Reload :: "config \<Rightarrow> gateway \<Rightarrow> gateway \<times> gateway_error option" where
  "Reload cfg g =
     (case reloadStores cfg g of
        Inl e \<Rightarrow> (g, Some e)
      | Inr stores \<Rightarrow> (fold applyStore stores g, None))"

section \<open>The small handlers\<close>

text \<open>One turn of \<^verbatim>\<open>cachedReadiness\<close>: what happens while it waits or probes.\<close>

record readiness_round =
  rd_now :: int
  rd_channel :: nat
  rd_cancelled :: bool
  rd_others :: "readinessCache \<Rightarrow> readinessCache"
  rd_send :: "string \<Rightarrow> transport"
  rd_arrivals :: "string list"
  rd_finishNow :: int

text \<open>\<open>None\<close>: still waiting when the rounds are used up; \<open>Some (c, None)\<close>: cancelled.\<close>

fun cachedReadiness ::
    "world \<Rightarrow> config \<Rightarrow> readiness_round list \<Rightarrow> readinessCache \<Rightarrow> (readinessCache \<times> readinessResult option) option" where
  "cachedReadiness w cfg [] c = None"
| "cachedReadiness w cfg (rd # rds) c =
     (case readiness_enter (rd_now rd) (rd_channel rd) c of
        (c1, Serve r) \<Rightarrow> Some (c1, Some r)
      | (c1, WaitFor ch) \<Rightarrow>
          if rd_cancelled rd then Some (rd_others rd c1, None) else cachedReadiness w cfg rds (rd_others rd c1)
      | (c1, Probe ch generation) \<Rightarrow>
          let result = checkReadiness w (rd_send rd) (cfg_providers cfg) (rd_arrivals rd) in
          Some (readiness_finish generation (rd_finishNow rd) (srv_readinessCacheTTL (cfg_server cfg)) result (rd_others rd c1),
                Some result))"

definition readyReply :: "readinessResult option \<Rightarrow> reply" where
  "readyReply r =
     (case r of
        None \<Rightarrow> writeAPIError [] 503 ''readiness check cancelled''
      | Some res \<Rightarrow>
          (case ready r of (httpCode, state, status) \<Rightarrow>
             writeJSONStatus [] httpCode
               (JsonBody (AObj [(''status'', AStr state), (''providers'', AObj (map (\<lambda>(n, v). (n, AStr v)) status))]))))"

definition requestBaseURL :: "client_request \<Rightarrow> string" where
  "requestBaseURL r =
     (let forwarded = headerGet (rq_header r) ''X-Forwarded-Proto'';
          scheme = (if forwarded = [] then (if rq_tls r then ''https'' else ''http'') else forwarded)
      in scheme @ ''://'' @ rq_host r)"

definition modelEntry :: "string \<Rightarrow> string \<Rightarrow> any" where
  "modelEntry name owner = AObj [(''id'', AStr name), (''object'', AStr ''model''), (''owned_by'', AStr owner)]"

text \<open>The second loop of \<^verbatim>\<open>models\<close>: discovered names that have not been seen.\<close>

fun addDiscovered :: "discoveredModel list \<Rightarrow> string list \<Rightarrow> any list \<Rightarrow> string list \<times> any list" where
  "addDiscovered [] seen data = (seen, data)"
| "addDiscovered (m # ms) seen data =
     (if d_alias m \<in> set seen then addDiscovered ms seen data
      else addDiscovered ms (seen @ [d_alias m]) (data @ [modelEntry (d_alias m) (d_provider m)]))"

definition models :: "world \<Rightarrow> (string \<Rightarrow> discovery_env) \<Rightarrow> config \<Rightarrow> gateway \<Rightarrow> gateway \<times> reply" where
  "models w E cfg g =
     (let aliases = sort (mapKeys (cfg_models cfg));
          data = map (\<lambda>a. modelEntry a ''shepard'') aliases
      in case discoverAll w E (cfg_providers cfg) (g_discovery g) of
           (d, discovered, errs) \<Rightarrow>
             (case addDiscovered discovered aliases data of
                (seen, data') \<Rightarrow>
                  (g\<lparr>g_discovery := d\<rparr>,
                   writeJSONStatus [] 200 (JsonBody (AObj [(''object'', AStr ''list''), (''data'', AArr data')])))))"

definition opencodeConfig :: "world \<Rightarrow> (string \<Rightarrow> discovery_env) \<Rightarrow> client_request \<Rightarrow> config \<Rightarrow> gateway \<Rightarrow> gateway \<times> reply" where
  "opencodeConfig w E r cfg g =
     (case discoverAll w E (cfg_providers cfg) (g_discovery g) of
        (d, discovered, errs) \<Rightarrow>
          let aliases = sort (remdups (mapKeys (cfg_models cfg) @ map d_alias discovered));
              g1 = g\<lparr>g_discovery := d\<rparr>
          in case aliases of
               [] \<Rightarrow> (g1, writeJSONStatus [] 500 (JsonBody (AObj [(''error'', AStr ''no models are configured'')])))
             | a # as \<Rightarrow>
                 (g1, writeJSONStatus [] 200 (JsonBody (AObj
                   [(''$schema'', AStr ''https://opencode.ai/config.json''),
                    (''model'', AStr (''shepard/'' @ a)),
                    (''provider'', AObj [(''shepard'', AObj
                       [(''npm'', AStr ''@ai-sdk/openai-compatible''), (''name'', AStr ''Shepard''),
                        (''options'', AObj [(''baseURL'', AStr (requestBaseURL r @ ''/v1''))]),
                        (''models'', AObj (map (\<lambda>n. (n, AObj [(''name'', AStr n)])) aliases))])])]))))"

definition usageReport :: "bool \<Rightarrow> (string \<Rightarrow> bool) \<Rightarrow> client_request \<Rightarrow> gateway \<Rightarrow> reply" where
  "usageReport queryFails scanFails r g =
     (let period = queryGet (rq_rawQuery r) ''period'' in
      if period = [] then writeJSONStatus [] 200 (UsageBody (snapshot queryFails scanFails (g_usage g)))
      else if period \<noteq> ''day'' \<and> period \<noteq> ''month'' then
        writeAPIError [] 400 (''period must be '' @ [CHR 0x22] @ ''day'' @ [CHR 0x22] @ '' or '' @ [CHR 0x22] @ ''month'' @ [CHR 0x22])
      else
        (case periodSnapshot queryFails period (queryGet (rq_rawQuery r) ''client'') (g_usage g) of
           Inl e \<Rightarrow> writeAPIError [] 500 ''could not read usage''
         | Inr items \<Rightarrow> writeJSONStatus [] 200 (PeriodBody period items)))"

section \<open>Routing\<close>

record serve_env =
  se_proxy :: proxy_env
  se_rounds :: "readiness_round list"
  se_queryFails :: bool
  se_scanFails :: "string \<Rightarrow> bool"

text \<open>
  The handler from the moment it has loaded the pointers to the configuration and to the trusted
  proxies; the pointer to the network list is loaded next.
\<close>

definition serveLoaded ::
    "serve_env \<Rightarrow> client_request \<Rightarrow> config \<Rightarrow> clientACL option \<Rightarrow> gateway \<Rightarrow> (gateway \<times> reply) option" where
  "serveLoaded env r cfg trusted g =
     (let w = pe_world (se_proxy env);
          E = pe_discovery (se_proxy env);
          clientIP = forwardedClientIP (rq_remoteAddr r) (headerGet (rq_header r) ''X-Forwarded-For'') trusted
      in if (case g_acl g of None \<Rightarrow> False | Some acl \<Rightarrow> \<not> contains acl clientIP) then
           Some (g, writeAPIError [] 403 ''client network is not allowed'')
         else if rq_path r = ''/healthz'' then
           Some (g, writeJSONStatus [] 200 (JsonBody (AObj [(''status'', AStr ''ok'')])))
         else if rq_path r = ''/readyz'' then
           (case cachedReadiness w cfg (se_rounds env) (g_readiness g) of
              None \<Rightarrow> None
            | Some (c, res) \<Rightarrow> Some (g\<lparr>g_readiness := c\<rparr>, readyReply res))
         else if \<not> authorized (rq_header r) (srv_inboundAPIKeys (cfg_server cfg)) then
           Some (g, writeAPIError (headerSet ''WWW-Authenticate'' ''Bearer'' []) 401 ''invalid API key'')
         else if rq_method r = ''GET'' \<and> rq_path r = ''/opencode.json'' then Some (opencodeConfig w E r cfg g)
         else if rq_method r = ''GET'' \<and> rq_path r = ''/v1/models'' then Some (models w E cfg g)
         else if rq_method r = ''GET'' \<and> rq_path r = ''/_shepard/usage'' then
           Some (g, usageReport (se_queryFails env) (se_scanFails env) r g)
         else if rq_method r = ''GET'' \<and> rq_path r = ''/_shepard/metrics'' then
           Some (g, \<lparr>rp_status = 200, rp_header = headerSet ''Content-Type'' ''text/plain; version=0.0.4'' [],
                     rp_body = MetricsBody (writePrometheus (g_metrics g) (depth (g_queue g)))\<rparr>)
         else if rq_method r = ''POST'' \<and> (rq_path r = ''/v1/chat/completions'' \<or> rq_path r = ''/v1/responses'') then
           proxy (se_proxy env) r cfg g
         else Some (g, writeAPIError [] 404 ''route not found''))"

definition serveHTTP :: "serve_env \<Rightarrow> client_request \<Rightarrow> gateway \<Rightarrow> (gateway \<times> reply) option" where
  "serveHTTP env r g = serveLoaded env r (g_config g) (g_trusted g) g"

section \<open>The program\<close>

text \<open>The warnings about an open listener, and the body of the reload loop of \<^verbatim>\<open>main\<close>.\<close>

datatype exposure_warning = WildcardWithoutControls | AuthenticationDisabled

definition logExposureWarnings :: "config \<Rightarrow> exposure_warning list" where
  "logExposureWarnings cfg =
     (if broadlyExposedWithoutAccessControls (cfg_server cfg) then [WildcardWithoutControls]
      else if srv_inboundAPIKeys (cfg_server cfg) = [] then [AuthenticationDisabled] else [])"

datatype program_error = LoadError load_error | GatewayError gateway_error

text \<open>The fields of \<^verbatim>\<open>http.Server\<close> that \<^verbatim>\<open>main\<close> sets.\<close>

record http_server =
  hs_addr :: string
  hs_readHeaderTimeout :: duration
  hs_readTimeout :: duration
  hs_idleTimeout :: duration
  hs_maxHeaderBytes :: int

text \<open>
  How \<^verbatim>\<open>main\<close> starts: exit with status 1 after an error, return after a successful check, or serve
  with the gateway as handler after logging the warnings.
\<close>

datatype startup =
    ExitFailure program_error
  | CheckPassed
  | Serve_on "exposure_warning list" http_server gateway

definition startProgram ::
    "bool \<Rightarrow> load_error + config \<Rightarrow> open_fault \<Rightarrow> (string \<rightharpoonup> usageDB) \<Rightarrow> startup" where
  "startProgram check loaded fault files =
     (case loaded of
        Inl e \<Rightarrow> ExitFailure (LoadError e)
      | Inr cfg \<Rightarrow>
          if check then CheckPassed
          else
            let warnings = logExposureWarnings cfg in
            (case New fault files 0 cfg of
               Inl e \<Rightarrow> ExitFailure (GatewayError e)
             | Inr gw \<Rightarrow>
                 Serve_on warnings
                   \<lparr>hs_addr = srv_listen (cfg_server cfg), hs_readHeaderTimeout = srv_readHeaderTimeout (cfg_server cfg),
                    hs_readTimeout = srv_readTimeout (cfg_server cfg), hs_idleTimeout = srv_idleTimeout (cfg_server cfg),
                    hs_maxHeaderBytes = srv_maxHeaderBytes (cfg_server cfg)\<rparr> gw))"

text \<open>One round of the reload loop: the gateway afterwards, and the error or the warnings logged.\<close>

definition reloadSignal :: "load_error + config \<Rightarrow> gateway \<Rightarrow> gateway \<times> (program_error + exposure_warning list)" where
  "reloadSignal loaded g =
     (case loaded of
        Inl e \<Rightarrow> (g, Inl (LoadError e))
      | Inr next \<Rightarrow>
          (case Reload next g of
             (g', Some e) \<Rightarrow> (g', Inl (GatewayError e))
           | (g', None) \<Rightarrow> (g', Inr (logExposureWarnings next))))"

section \<open>Configuration changes\<close>

lemma validNetwork_acl:
  assumes "validNetwork v"
  shows "\<exists>m. aclNetwork v = Inr m"
proof (cases "CHR ''/'' \<in> set (trimSpace v)")
  case True
  with assms show ?thesis by (auto simp: validNetwork_def aclNetwork_def Let_def split: option.splits)
next
  case False
  with assms obtain b where b: "parseIP (trimSpace v) = Some b" by (auto simp: validNetwork_def)
  then obtain a where a: "parseAddr (trimSpace v) = Some a" "addrZone a = []" "b = addrAs16 a"
    by (auto simp: parseIP_Some_iff)
  from a(1) show ?thesis
  proof (cases rule: parseAddr_cases)
    case (1 q)
    with a b False show ?thesis by (simp add: aclNetwork_def Let_def parseCIDR_parts cidrParts_append)
  next
    case (2 q z)
    with a b False show ?thesis
      by (auto simp: aclNetwork_def Let_def parseCIDR_parts cidrParts_append split: option.split)
  qed
qed

lemma valid_newClientACL:
  assumes "\<forall>v \<in> set vs. validNetwork v"
  shows "\<exists>a. newClientACL vs = Inr a"
proof -
  have "\<exists>ms. list_all2 (\<lambda>v m. aclNetwork v = Inr m) vs ms"
    using assms
  proof (induction vs)
    case (Cons v vs)
    then obtain m where m: "aclNetwork v = Inr m" using validNetwork_acl [of v] by auto
    obtain ms where "list_all2 (\<lambda>v m. aclNetwork v = Inr m) vs ms" using Cons by auto
    with m have "aclNetwork v = Inr m" "list_all2 (\<lambda>v m. aclNetwork v = Inr m) vs ms" by auto
    then show ?case by (intro exI [of _ "m # ms"]) simp
  qed auto
  then show ?thesis by (metis newClientACL_Inr clientACL.select_convs(1))
qed

lemma valid_networks:
  assumes "validConfig cfg"
  obtains a t where "newClientACL (srv_clientNetworks (cfg_server cfg)) = Inr a"
    "newClientACL (srv_trustedProxyNetworks (cfg_server cfg)) = Inr t"
  using assms valid_newClientACL by (metis validConfig_def)

lemma New_valid:
  assumes "validConfig cfg"
  shows "\<exists>g. New OpenOk files n cfg = Inr g \<and> g_config g = cfg"
proof -
  obtain a t where "newClientACL (srv_clientNetworks (cfg_server cfg)) = Inr a"
    "newClientACL (srv_trustedProxyNetworks (cfg_server cfg)) = Inr t" by (rule valid_networks [OF assms])
  then show ?thesis by (simp add: New_def newUsageStore_def split: prod.split)
qed

lemma load_valid: "load readFile decodeYAML path = Inr cfg \<Longrightarrow> validConfig cfg"
  by (auto simp: load_def Let_def validate_valid split: option.splits sum.splits)

text \<open>
  What \<^verbatim>\<open>Load\<close> accepts, the gateway accepts: with a loaded configuration \<^verbatim>\<open>New\<close> succeeds
  whenever the database opens, and \<^verbatim>\<open>Reload\<close> succeeds whenever the database path is unchanged, so a
  validated configuration is never refused later because of its networks.
\<close>

lemma loaded_config_accepted:
  assumes "load readFile decodeYAML path = Inr cfg"
  shows "(\<exists>g. New OpenOk files n cfg = Inr g \<and> g_config g = cfg) \<and>
         (srv_usageDB (cfg_server cfg) = g_usageDBPath g0 \<longrightarrow> snd (Reload cfg g0) = None)"
proof -
  obtain a t where "newClientACL (srv_clientNetworks (cfg_server cfg)) = Inr a"
    "newClientACL (srv_trustedProxyNetworks (cfg_server cfg)) = Inr t" by (rule valid_networks [OF load_valid [OF assms]])
  then show ?thesis using New_valid [OF load_valid [OF assms]] by (simp add: Reload_def reloadStores_def)
qed

lemma loaded_config_accepted_example:
  "\<exists>g. New OpenOk Map.empty 0 (config_defaults exampleConfig) = Inr g \<and> g_config g = config_defaults exampleConfig"
  using loaded_config_accepted [OF example_load, of Map.empty 0] by blast

text \<open>
  Claim C21. A reload is all or nothing. When the new file cannot be loaded or applied the gateway
  is exactly what it was; when it is applied, the configuration and the network lists are the new
  ones, the caches and the rate history are empty, while the concurrency slots in use, the
  requests in the queue, the counters and the usage tables are untouched.
\<close>

theorem reload_all_or_nothing:
  "case reloadSignal loaded g of
     (g', Inl e) \<Rightarrow> g' = g
   | (g', Inr warnings) \<Rightarrow>
       (\<exists>cfg acl trusted. loaded = Inr cfg \<and> g_config g' = cfg \<and> warnings = logExposureWarnings cfg \<and>
          newClientACL (srv_clientNetworks (cfg_server cfg)) = Inr acl \<and> g_acl g' = Some acl \<and>
          newClientACL (srv_trustedProxyNetworks (cfg_server cfg)) = Inr trusted \<and>
          g_trusted g' = trustedOf (cfg_server cfg) trusted \<and>
          concurrent (g_limits g') = concurrent (g_limits g) \<and> buckets (g_limits g') = Map.empty \<and>
          waiting (g_queue g') = waiting (g_queue g) \<and> qmax (g_queue g') = queueSize (cfg_server cfg) \<and>
          entries (g_discovery g') = Map.empty \<and> rc_expires (g_readiness g') = None \<and>
          g_metrics g' = g_metrics g \<and> g_usage g' = g_usage g)"
  by (auto simp: reloadSignal_def Reload_def reloadStores_def limits_clear_def setMax_def discovery_clear_def readiness_clear_def
      split: sum.split option.split)

section \<open>Who gets in\<close>

definition effectiveIP :: "client_request \<Rightarrow> gateway \<Rightarrow> ip option" where
  "effectiveIP r g = forwardedClientIP (rq_remoteAddr r) (headerGet (rq_header r) ''X-Forwarded-For'') (g_trusted g)"

text \<open>
  Claim C4. Nothing happens for a client outside the network list: whatever the route, the method,
  the headers and the body, the answer is 403 and the gateway's state is unchanged. And behind it
  nothing but the two health routes happens for a client without a key: the answer is 401 and the
  state is unchanged.
\<close>

theorem gate_before_everything:
  assumes "g_acl g = Some a"
  shows "(\<not> contains a (effectiveIP r g) \<longrightarrow>
            (\<exists>rep. serveHTTP env r g = Some (g, rep) \<and> rp_status rep = 403)) \<and>
         (contains a (effectiveIP r g) \<and> rq_path r \<notin> {''/healthz'', ''/readyz''} \<and>
          \<not> authorized (rq_header r) (srv_inboundAPIKeys (cfg_server (g_config g))) \<longrightarrow>
            (\<exists>rep. serveHTTP env r g = Some (g, rep) \<and> rp_status rep = 401))"
  using assms by (simp add: serveHTTP_def serveLoaded_def effectiveIP_def Let_def writeAPIError_def writeJSONStatus_def)

text \<open>A peer whose address cannot be parsed, with a network list in force.\<close>

theorem gate_before_everything_witness:
  "(let g = exampleGateway\<lparr>g_acl := Some \<lparr>networks = [\<lparr>net_ip = [10, 0, 0, 0], net_mask = [255, 0, 0, 0]\<rparr>]\<rparr>\<rparr>;
        r = exampleRequest\<lparr>rq_remoteAddr := ''x''\<rparr>;
        env = \<lparr>se_proxy = exampleEnv 200, se_rounds = [], se_queryFails = False, se_scanFails = (\<lambda>_. False)\<rparr>
    in \<exists>rep. serveHTTP env r g = Some (g, rep) \<and> rp_status rep = 403)"
proof -
  let ?a = "\<lparr>networks = [\<lparr>net_ip = [10, 0, 0, 0], net_mask = [255, 0, 0, 0]\<rparr>]\<rparr>"
  let ?g = "exampleGateway\<lparr>g_acl := Some ?a\<rparr>" and ?r = "exampleRequest\<lparr>rq_remoteAddr := ''x''\<rparr>"
  have "parseRemoteIP ''x'' = None" by (simp add: parseRemoteIP_def trimCut_def net_eval)
  then have "\<not> contains ?a (effectiveIP ?r ?g)"
    by (simp add: effectiveIP_def forwardedClientIP_def contains_def exampleGateway_def)
  moreover have "g_acl ?g = Some ?a" by simp
  ultimately show ?thesis unfolding Let_def using gate_before_everything [of ?g ?a ?r] by blast
qed

end
