(* ===== verification/GoFlag.thy ===== *)
theory GoFlag
  imports GoUrl
begin

text \<open>
  Package \<^verbatim>\<open>flag\<close> as \<^verbatim>\<open>main\<close> uses it: string and boolean flags with one or two dashes, a value after an
  equals sign or, for strings, in the next argument. The result is the sequence of values that are
  set, or the error at which parsing stops.
\<close>

datatype flag_kind = StringFlag | BoolFlag

datatype flag_error = HelpRequested | BadSyntax string | NotDefined string | NeedsArgument string | InvalidBoolean string

text \<open>\<^verbatim>\<open>strconv.ParseBool\<close>.\<close>

definition parseBool :: "string \<Rightarrow> bool option" where
  "parseBool s =
     (if s \<in> set [''1'', ''t'', ''T'', ''true'', ''TRUE'', ''True''] then Some True
      else if s \<in> set [''0'', ''f'', ''F'', ''false'', ''FALSE'', ''False''] then Some False
      else None)"

definition flagName :: "string \<Rightarrow> string" where
  "flagName s = (if s ! 1 = CHR ''-'' then drop 2 s else drop 1 s)"

fun parseFlags :: "(string \<times> flag_kind) list \<Rightarrow> string list \<Rightarrow> flag_error + (string \<times> string) list" where
  "parseFlags formal [] = Inr []"
| "parseFlags formal (s # args) =
     (if length s < 2 \<or> hd s \<noteq> CHR ''-'' \<or> s = ''--'' then Inr []
      else if flagName s = [] \<or> hd (flagName s) = CHR ''-'' \<or> hd (flagName s) = CHR ''='' then Inl (BadSyntax s)
      else
        (case cutByte (CHR ''='') (flagName s) of (name, v) \<Rightarrow>
           let hasValue = CHR ''='' \<in> set (flagName s) in
           (case map_of formal name of
              None \<Rightarrow> Inl (if name = ''help'' \<or> name = ''h'' then HelpRequested else NotDefined name)
            | Some BoolFlag \<Rightarrow>
                let w = (if hasValue then v else ''true'') in
                if parseBool w = None then Inl (InvalidBoolean name)
                else map_sum id ((#) (name, w)) (parseFlags formal args)
            | Some StringFlag \<Rightarrow>
                if hasValue then map_sum id ((#) (name, v)) (parseFlags formal args)
                else
                  (case args of
                     [] \<Rightarrow> Inl (NeedsArgument name)
                   | w # args' \<Rightarrow> map_sum id ((#) (name, w)) (parseFlags formal args')))))"

text \<open>The value of a flag: the last one set, or its default.\<close>

definition flagValue :: "string \<Rightarrow> string \<Rightarrow> (string \<times> string) list \<Rightarrow> string" where
  "flagValue name def sets = (case map_of (rev sets) name of Some v \<Rightarrow> v | None \<Rightarrow> def)"

text \<open>Whatever is set was declared, and what is set for a boolean flag is a boolean.\<close>

lemma parseFlags_declared:
  "parseFlags formal args = Inr sets \<Longrightarrow> (name, v) \<in> set sets \<Longrightarrow>
   \<exists>k. map_of formal name = Some k \<and> (k = BoolFlag \<longrightarrow> parseBool v \<noteq> None)"
proof (induction args arbitrary: sets rule: length_induct)
  case (1 args)
  show ?case
  proof (cases "sets = []")
    case False
    with "1.prems"(1) obtain s rest where args: "args = s # rest" by (cases args) auto
    obtain n w where cut: "cutByte (CHR ''='') (flagName s) = (n, w)" by force
    note step = "1.prems"(1) [unfolded args parseFlags.simps(2) cut prod.case Let_def]
    from False step obtain k where k: "map_of formal n = Some k"
      by (cases "map_of formal n") (auto split: if_splits)
    have "\<exists>x sets' args'. sets = (n, x) # sets' \<and> parseFlags formal args' = Inr sets' \<and> length args' < length args \<and>
        (k = BoolFlag \<longrightarrow> parseBool x \<noteq> None)"
    proof -
      have tail: ?thesis if "map_sum id ((#) (n, x)) (parseFlags formal rest') = Inr sets" "length rest' < length args"
          "k = BoolFlag \<longrightarrow> parseBool x \<noteq> None" for x rest'
        using that by (cases "parseFlags formal rest'") auto
      show ?thesis
        using False step k tail [of w rest] tail [of "''true''" rest] tail [of "hd rest" "tl rest"]
        by (cases k; cases rest) (auto simp: args simp del: parseFlags.simps split: if_split_asm)
    qed
    then obtain x sets' args' where
      "sets = (n, x) # sets'" "parseFlags formal args' = Inr sets'" "length args' < length args" "k = BoolFlag \<longrightarrow> parseBool x \<noteq> None"
      by blast
    with "1.IH" "1.prems"(2) k show ?thesis by auto
  qed (use "1.prems" in simp)
qed

end
