(* ===== verification/Program.thy ===== *)
theory Program
  imports Gateway GoFlag
begin

text \<open>
  The process (\<^verbatim>\<open>cmd/shepard/main.go\<close>) from its command line on: the goroutine that reloads the configuration
  on \<^verbatim>\<open>SIGHUP\<close>, the one that shuts the server down on a stop signal, and \<^verbatim>\<open>main\<close> itself, which waits
  for \<^verbatim>\<open>ListenAndServe\<close>. The steps of all of them and of the requests interleave.
\<close>

section \<open>What a request cannot change\<close>

text \<open>The parts of the gateway that belong to the configuration in force.\<close>

definition settings :: "gateway \<Rightarrow> config \<times> clientACL option \<times> clientACL option \<times> string" where
  "settings g = (g_config g, g_acl g, g_trusted g, g_usageDBPath g)"

lemma settings_simps [gateway_simps]:
  "settings (setShared sh g) = settings g"
  "settings (g\<lparr>g_metrics := m\<rparr>) = settings g"
  "settings (g\<lparr>g_logs := l\<rparr>) = settings g"
  "settings (g\<lparr>g_discovery := d\<rparr>) = settings g"
  "settings (g\<lparr>g_readiness := rc\<rparr>) = settings g"
  "settings (usageRecord env c n st body g) = settings g"
  "settings (countQueue q a g) = settings g"
  "settings (closeRequest env b g) = settings g"
  "settings (releaseScopes scopes g) = settings g"
  by (simp_all add: settings_def setShared_def usageRecord_def countQueue_def closeRequest_def releaseScopes_def Let_def)

lemma proxyStream_settings: "settings (fst (proxyStream env cfg c n resp t g)) = settings g"
  by (simp add: proxyStream_def Let_def gateway_simps split: prod.split)

lemma proxyTargets_settings:
  assumes "proxyTargets env r cfg c n model p g = Some (g', rep, fin)"
  shows "settings g' = settings g"
proof -
  have "settings g2 = settings g1" if "proxyStream env cfg c n resp t g1 = (g2, rep2)" for resp t g1 g2 rep2
    using proxyStream_settings [of env cfg c n resp t g1] that by simp
  with assms show ?thesis
    by (auto simp: proxyTargets_def Let_def gateway_simps split: option.splits prod.splits target_exit.splits)
qed

lemma proxyModel_settings:
  "proxyModel env r cfg c n model p g = Some (g', rep, fin) \<Longrightarrow> settings g' = settings g"
  by (auto simp: proxyModel_def Let_def gateway_simps split: option.splits prod.splits sum.splits if_splits
      dest!: proxyTargets_settings)

lemma proxyBody_settings:
  assumes "proxyBody env r cfg c g = Some (g', rep, fin)"
  shows "settings g' = settings g"
  using assms unfolding proxyBody_def Let_def
  by (auto simp: gateway_simps split: option.splits prod.splits sum.splits any.splits if_splits dest!: proxyModel_settings)

lemma proxy_settings: "proxy env r cfg g = Some (g', rep) \<Longrightarrow> settings g' = settings g"
  by (auto simp: proxy_def Let_def gateway_simps split: option.splits prod.splits if_splits dest!: proxyBody_settings)

lemma serveLoaded_settings:
  assumes "serveLoaded env r cfg trusted g = Some (g', rep)"
  shows "settings g' = settings g"
proof -
  have "settings (fst (models w E cfg g)) = settings g" for w E cfg
    by (simp add: models_def Let_def gateway_simps split: prod.split)
  moreover have "settings (fst (opencodeConfig w E r cfg g)) = settings g" for w E cfg
    by (simp add: opencodeConfig_def Let_def gateway_simps split: prod.split list.split)
  ultimately show ?thesis
    using assms unfolding serveLoaded_def Let_def
    by (auto simp: gateway_simps split: if_splits option.splits prod.splits dest: proxy_settings)
      (metis fst_conv)+
qed

section \<open>The command line\<close>

definition commandLine :: "(string \<times> flag_kind) list" where
  "commandLine = [(''config'', StringFlag), (''check'', BoolFlag)]"

text \<open>The path of the configuration and whether to check only, or the status with which \<^verbatim>\<open>flag.Parse\<close> exits.\<close>

definition parseCommand :: "string list \<Rightarrow> int + string \<times> bool" where
  "parseCommand args =
     (case parseFlags commandLine args of
        Inl e \<Rightarrow> Inl (if e = HelpRequested then 0 else 2)
      | Inr sets \<Rightarrow> Inr (flagValue ''config'' ''shepard.yaml'' sets, parseBool (flagValue ''check'' ''false'' sets) = Some True))"

datatype main_start = FlagExit int | Started string startup

definition runMain ::
    "string list \<Rightarrow> (string \<Rightarrow> string option) \<Rightarrow> (string \<Rightarrow> string + config) \<Rightarrow> open_fault \<Rightarrow> (string \<rightharpoonup> usageDB) \<Rightarrow> main_start" where
  "runMain args readFile decodeYAML fault files =
     (case parseCommand args of
        Inl status \<Rightarrow> FlagExit status
      | Inr (configPath, check) \<Rightarrow>
          Started configPath (startProgram check (load readFile decodeYAML configPath) fault files))"

lemma parseCommand_examples:
  "parseCommand [] = Inr (''shepard.yaml'', False)"
  "parseCommand [''-config'', path, ''--check''] = Inr (path, True)"
  "parseCommand [''-help''] = Inl 0"
  "parseCommand [''-check=yes''] = Inl 2"
  by (simp_all add: parseCommand_def commandLine_def flagName_def cutByte_def flagValue_def parseBool_def Let_def)

section \<open>The running process\<close>

text \<open>
  \<open>NoShutdown\<close> until the goroutine has received a stop signal, \<open>Draining\<close> while \<^verbatim>\<open>server.Shutdown\<close> waits
  for the open connections, and then whether it found them all idle within its fifteen seconds.
\<close>

datatype shutdown = NoShutdown | Draining | ShutdownReturned bool

text \<open>
  Each request is served by a goroutine of its own, which loads the pointers to the configuration,
  to the trusted proxies and to the network list one after the other.
\<close>

datatype request_phase =
    Arrived client_request
  | GotConfig client_request config
  | GotTrusted client_request config "clientACL option"

text \<open>
  The two signal channels have room for one signal, so a flag tells whether one is waiting.
  \<open>ps_stores\<close> is what the reload under way has still to do, \<open>ps_requests\<close> are the requests being served,
  \<open>ps_answers\<close> the answers given so far, \<open>ps_exit\<close> is the exit status once \<^verbatim>\<open>main\<close> has ended.
\<close>

record process =
  ps_gateway :: gateway
  ps_reload :: bool
  ps_stores :: "reload_store list"
  ps_stop :: bool
  ps_shutdown :: shutdown
  ps_requests :: "request_phase list"
  ps_answers :: "(client_request \<times> reply) list"
  ps_exit :: "int option"

definition serving :: "gateway \<Rightarrow> process" where
  "serving g = \<lparr>ps_gateway = g, ps_reload = False, ps_stores = [], ps_stop = False, ps_shutdown = NoShutdown,
     ps_requests = [], ps_answers = [], ps_exit = None\<rparr>"

text \<open>What a round of the reload loop sets out to do: nothing when the file cannot be loaded or applied.\<close>

definition beginReload :: "load_error + config \<Rightarrow> gateway \<Rightarrow> reload_store list" where
  "beginReload loaded g =
     (case loaded of
        Inl e \<Rightarrow> []
      | Inr next \<Rightarrow> (case reloadStores next g of Inl e \<Rightarrow> [] | Inr stores \<Rightarrow> stores))"

lemma reloadSignal_stores: "fst (reloadSignal loaded g) = fold applyStore (beginReload loaded g) g"
  by (simp add: reloadSignal_def beginReload_def Reload_def split: sum.split)

text \<open>
  Signals arrive at any time, and a further one is dropped while one is waiting. A reload reads the
  file as it is then. \<^verbatim>\<open>server.Shutdown\<close> closes the listener first; from then on no connection is accepted,
  and \<^verbatim>\<open>ListenAndServe\<close> returns \<^verbatim>\<open>http.ErrServerClosed\<close> at once, as documented in \<^verbatim>\<open>net/http\<close>; \<^verbatim>\<open>main\<close> then ends with
  status 0. Any other error of \<^verbatim>\<open>ListenAndServe\<close> ends it with status 1. What a request does after it has loaded
  the network list takes effect in one step; what others do meanwhile is a part of its environment.
\<close>

inductive program_step :: "(string \<Rightarrow> string + config) \<Rightarrow> string \<Rightarrow> process \<Rightarrow> process \<Rightarrow> bool"
  for decodeYAML :: "string \<Rightarrow> string + config" and configPath :: string
where
  Hangup: "ps_exit p = None \<Longrightarrow> program_step decodeYAML configPath p (p\<lparr>ps_reload := True\<rparr>)"
| Reloading:
    "ps_exit p = None \<Longrightarrow> ps_reload p \<Longrightarrow> ps_stores p = [] \<Longrightarrow>
     program_step decodeYAML configPath p
       (p\<lparr>ps_reload := False, ps_stores := beginReload (load readFile decodeYAML configPath) (ps_gateway p)\<rparr>)"
| Storing:
    "ps_exit p = None \<Longrightarrow> ps_stores p = st # sts \<Longrightarrow>
     program_step decodeYAML configPath p (p\<lparr>ps_stores := sts, ps_gateway := applyStore st (ps_gateway p)\<rparr>)"
| Interrupt: "ps_exit p = None \<Longrightarrow> program_step decodeYAML configPath p (p\<lparr>ps_stop := True\<rparr>)"
| Shutdown:
    "ps_exit p = None \<Longrightarrow> ps_stop p \<Longrightarrow> ps_shutdown p = NoShutdown \<Longrightarrow>
     program_step decodeYAML configPath p (p\<lparr>ps_stop := False, ps_shutdown := Draining\<rparr>)"
| Accept:
    "ps_exit p = None \<Longrightarrow> ps_shutdown p = NoShutdown \<Longrightarrow>
     program_step decodeYAML configPath p (p\<lparr>ps_requests := ps_requests p @ [Arrived r]\<rparr>)"
| LoadConfig:
    "ps_exit p = None \<Longrightarrow> i < length (ps_requests p) \<Longrightarrow> ps_requests p ! i = Arrived r \<Longrightarrow>
     program_step decodeYAML configPath p
       (p\<lparr>ps_requests := (ps_requests p)[i := GotConfig r (g_config (ps_gateway p))]\<rparr>)"
| LoadTrusted:
    "ps_exit p = None \<Longrightarrow> i < length (ps_requests p) \<Longrightarrow> ps_requests p ! i = GotConfig r cfg \<Longrightarrow>
     program_step decodeYAML configPath p
       (p\<lparr>ps_requests := (ps_requests p)[i := GotTrusted r cfg (g_trusted (ps_gateway p))]\<rparr>)"
| Answer:
    "ps_exit p = None \<Longrightarrow> i < length (ps_requests p) \<Longrightarrow> ps_requests p ! i = GotTrusted r cfg trusted \<Longrightarrow>
     serveLoaded env r cfg trusted (ps_gateway p) = Some (g, rep) \<Longrightarrow>
     program_step decodeYAML configPath p
       (p\<lparr>ps_requests := take i (ps_requests p) @ drop (Suc i) (ps_requests p), ps_gateway := g,
          ps_answers := ps_answers p @ [(r, rep)]\<rparr>)"
| Drained:
    "ps_exit p = None \<Longrightarrow> ps_shutdown p = Draining \<Longrightarrow> ps_requests p = [] \<Longrightarrow>
     program_step decodeYAML configPath p (p\<lparr>ps_shutdown := ShutdownReturned True\<rparr>)"
| Expired:
    "ps_exit p = None \<Longrightarrow> ps_shutdown p = Draining \<Longrightarrow>
     program_step decodeYAML configPath p (p\<lparr>ps_shutdown := ShutdownReturned False\<rparr>)"
| ServerClosed:
    "ps_exit p = None \<Longrightarrow> ps_shutdown p \<noteq> NoShutdown \<Longrightarrow>
     program_step decodeYAML configPath p (p\<lparr>ps_exit := Some 0\<rparr>)"
| ListenFailed:
    "ps_exit p = None \<Longrightarrow> ps_shutdown p = NoShutdown \<Longrightarrow>
     program_step decodeYAML configPath p (p\<lparr>ps_exit := Some 1\<rparr>)"

inductive_cases program_stepE: "program_step decodeYAML configPath p p'"

section \<open>The configuration in force\<close>

text \<open>The network lists and the database path are those of the configuration, which is a valid one.\<close>

definition coherent :: "gateway \<Rightarrow> bool" where
  "coherent g \<longleftrightarrow>
     validConfig (g_config g) \<and>
     (\<exists>acl trusted.
        newClientACL (srv_clientNetworks (cfg_server (g_config g))) = Inr acl \<and> g_acl g = Some acl \<and>
        newClientACL (srv_trustedProxyNetworks (cfg_server (g_config g))) = Inr trusted \<and>
        g_trusted g = trustedOf (cfg_server (g_config g)) trusted) \<and>
     g_usageDBPath g = srv_usageDB (cfg_server (g_config g))"

lemma coherent_settings: "settings g' = settings g \<Longrightarrow> coherent g' = coherent g"
  by (simp add: settings_def coherent_def)

lemma applyStore_settings: "settings g' = settings g \<Longrightarrow> settings (applyStore st g') = settings (applyStore st g)"
  by (cases st) (simp_all add: settings_def)

lemma applyStores_settings: "settings g' = settings g \<Longrightarrow> settings (fold applyStore sts g') = settings (fold applyStore sts g)"
proof (induction sts arbitrary: g g')
  case (Cons st sts)
  from Cons.IH [OF applyStore_settings [OF Cons.prems]] show ?case by simp
qed simp

lemma New_coherent: "validConfig cfg \<Longrightarrow> New fault files n cfg = Inr g \<Longrightarrow> coherent g"
  by (auto simp: New_def coherent_def split: sum.splits)

lemma reloadStores_cases:
  assumes "reloadStores cfg g = Inr sts"
  obtains acl trusted where "srv_usageDB (cfg_server cfg) = g_usageDBPath g"
    "newClientACL (srv_clientNetworks (cfg_server cfg)) = Inr acl"
    "newClientACL (srv_trustedProxyNetworks (cfg_server cfg)) = Inr trusted"
    "sts = [StoreConfig cfg, StoreACL acl, StoreTrusted (trustedOf (cfg_server cfg) trusted),
            SetQueueMax (queueSize (cfg_server cfg)), ClearDiscovery, ClearReadiness, ClearLimits]"
  using assms unfolding reloadStores_def
  by (cases "newClientACL (srv_clientNetworks (cfg_server cfg))";
      cases "newClientACL (srv_trustedProxyNetworks (cfg_server cfg))") (auto split: if_splits)

lemma reloadStores_coherent: "validConfig cfg \<Longrightarrow> reloadStores cfg g = Inr sts \<Longrightarrow> coherent (fold applyStore sts g)"
  by (erule reloadStores_cases) (simp add: coherent_def)

lemma beginReload_coherent:
  assumes "coherent g"
  shows "coherent (fold applyStore (beginReload (load readFile decodeYAML path) g) g)"
proof (cases "load readFile decodeYAML path")
  case (Inr cfg)
  with assms reloadStores_coherent [OF load_valid [OF this]] show ?thesis
    by (simp add: beginReload_def split: sum.split)
qed (simp add: beginReload_def assms)

text \<open>The configurations that are around: the one in force, the one about to be stored, those requests hold.\<close>

fun heldConfig :: "request_phase \<Rightarrow> config list" where
  "heldConfig (Arrived r) = []"
| "heldConfig (GotConfig r cfg) = [cfg]"
| "heldConfig (GotTrusted r cfg trusted) = [cfg]"

fun storedConfig :: "reload_store \<Rightarrow> config list" where
  "storedConfig (StoreConfig cfg) = [cfg]"
| "storedConfig _ = []"

definition configsValid :: "process \<Rightarrow> bool" where
  "configsValid p \<longleftrightarrow>
     validConfig (g_config (ps_gateway p)) \<and>
     (\<forall>ph \<in> set (ps_requests p). list_all validConfig (heldConfig ph)) \<and>
     (\<forall>st \<in> set (ps_stores p). list_all validConfig (storedConfig st))"

definition processInv :: "process \<Rightarrow> bool" where
  "processInv p \<longleftrightarrow> coherent (fold applyStore (ps_stores p) (ps_gateway p)) \<and> configsValid p"

lemma beginReload_valid:
  assumes "st \<in> set (beginReload (load readFile decodeYAML path) g)"
  shows "list_all validConfig (storedConfig st)"
proof -
  from assms obtain cfg sts where c: "load readFile decodeYAML path = Inr cfg" "reloadStores cfg g = Inr sts" "st \<in> set sts"
    unfolding beginReload_def by (auto split: sum.split_asm dest: sym)
  from c(2) show ?thesis by (rule reloadStores_cases) (use c(3) load_valid [OF c(1)] in auto)
qed

lemma applyStore_valid:
  "list_all validConfig (storedConfig st) \<Longrightarrow> validConfig (g_config g) \<Longrightarrow> validConfig (g_config (applyStore st g))"
  by (cases st) auto

lemma processInv_step:
  assumes "program_step decodeYAML configPath p p'" "processInv p"
  shows "processInv p'"
  using assms
proof cases
  case (Reloading readFile)
  with assms(2) show ?thesis
    by (auto simp: processInv_def configsValid_def beginReload_coherent dest: beginReload_valid)
next
  case (Storing st sts)
  with assms(2) show ?thesis by (auto simp: processInv_def configsValid_def applyStore_valid)
next
  case (LoadConfig i r)
  with assms(2) show ?thesis by (auto simp: processInv_def configsValid_def dest!: set_update_subset_insert [THEN subsetD])
next
  case (LoadTrusted i r cfg)
  then have "GotConfig r cfg \<in> set (ps_requests p)" by (metis nth_mem)
  with assms(2) have "validConfig cfg" by (auto simp: processInv_def configsValid_def)
  with LoadTrusted assms(2) show ?thesis
    by (auto simp: processInv_def configsValid_def dest!: set_update_subset_insert [THEN subsetD])
next
  case (Answer i r cfg trusted env g rep)
  note same = serveLoaded_settings [OF Answer(5)]
  then have "coherent (fold applyStore (ps_stores p) g) = coherent (fold applyStore (ps_stores p) (ps_gateway p))"
    by (intro coherent_settings applyStores_settings)
  with same Answer(1) assms(2) show ?thesis
    by (auto simp: processInv_def configsValid_def settings_def dest: in_set_takeD in_set_dropD)
qed (use assms(2) in \<open>auto simp: processInv_def configsValid_def\<close>)

text \<open>
  Claim C22. However signals, reloads, requests and failures interleave, step by step: whenever no reload
  is under way the gateway has one valid configuration, and the network lists and the database are the ones it
  names; a reload under way ends in such a state whatever happens meanwhile; and every request is
  served with a configuration that was validated.
\<close>

theorem running_configuration_coherent:
  assumes "runMain args readFile decodeYAML fault files = Started configPath (Serve_on warnings server g)"
    and "(program_step decodeYAML configPath)\<^sup>*\<^sup>* (serving g) p"
  shows "(ps_stores p = [] \<longrightarrow> coherent (ps_gateway p)) \<and>
         coherent (fold applyStore (ps_stores p) (ps_gateway p)) \<and>
         (\<forall>ph \<in> set (ps_requests p). list_all validConfig (heldConfig ph))"
proof -
  obtain cfg where "load readFile decodeYAML configPath = Inr cfg" "New fault files 0 cfg = Inr g"
    using assms(1) by (auto simp: runMain_def startProgram_def Let_def split: sum.splits if_splits)
  then have "coherent g" using New_coherent [OF load_valid] by blast
  then have "processInv (serving g)" by (simp add: processInv_def configsValid_def serving_def coherent_def)
  with assms(2) have "processInv p" by (induction rule: rtranclp_induct) (auto intro: processInv_step)
  then show ?thesis by (auto simp: processInv_def configsValid_def)
qed

theorem running_configuration_coherent_witness:
  "\<exists>warnings server g. runMain [] (\<lambda>_. Some []) (\<lambda>_. Inr exampleConfig) OpenOk Map.empty =
     Started ''shepard.yaml'' (Serve_on warnings server g) \<and> coherent (ps_gateway ((serving g)\<lparr>ps_reload := True\<rparr>))"
proof -
  obtain warnings server g where s: "runMain [] (\<lambda>_. Some []) (\<lambda>_. Inr exampleConfig) OpenOk Map.empty =
      Started ''shepard.yaml'' (Serve_on warnings server g)"
    using New_valid [OF load_valid [OF example_load], of Map.empty 0]
    by (auto simp: runMain_def parseCommand_examples startProgram_def example_load Let_def)
  have "(program_step (\<lambda>_. Inr exampleConfig) ''shepard.yaml'')\<^sup>*\<^sup>* (serving g) ((serving g)\<lparr>ps_reload := True\<rparr>)"
    by (rule r_into_rtranclp, rule Hangup) (simp add: serving_def)
  from running_configuration_coherent [OF s this] s show ?thesis by (simp add: serving_def)
qed

section \<open>Requests during a reload\<close>

declare rtranclp.rtrancl_into_rtrancl [trans] rtranclp_trans [trans]

lemma stores_complete:
  "ps_exit p = None \<Longrightarrow>
   (program_step decodeYAML configPath)\<^sup>*\<^sup>* p (p\<lparr>ps_stores := [], ps_gateway := fold applyStore (ps_stores p) (ps_gateway p)\<rparr>)"
proof (induction "ps_stores p" arbitrary: p)
  case Nil
  then have "p\<lparr>ps_stores := [], ps_gateway := fold applyStore (ps_stores p) (ps_gateway p)\<rparr> = p" by (cases p) simp
  then show ?case by simp
next
  case (Cons st sts)
  let ?p = "p\<lparr>ps_stores := sts, ps_gateway := applyStore st (ps_gateway p)\<rparr>"
  have "program_step decodeYAML configPath p ?p" using Storing [OF Cons.prems Cons.hyps(2) [symmetric]] .
  moreover have "(program_step decodeYAML configPath)\<^sup>*\<^sup>* ?p (?p\<lparr>ps_stores := [], ps_gateway := fold applyStore (ps_stores ?p) (ps_gateway ?p)\<rparr>)"
    using Cons.hyps(1) [of ?p] Cons.prems by simp
  ultimately show ?case unfolding Cons.hyps(2) [symmetric] by (simp add: converse_rtranclp_into_rtranclp)
qed

text \<open>A request that loads the configuration before a reload, and the other pointers after it.\<close>

lemma straddling_request:
  assumes "reloadStores new g = Inr stores" "load readFile decodeYAML configPath = Inr new"
    and "serveLoaded env r (g_config g) (g_trusted (fold applyStore stores g)) (fold applyStore stores g) = Some (g', rep)"
  shows "\<exists>p. (program_step decodeYAML configPath)\<^sup>*\<^sup>* (serving g) p \<and> (r, rep) \<in> set (ps_answers p)"
proof -
  let ?step = "program_step decodeYAML configPath" and ?new = "fold applyStore stores g"
  let ?p1 = "(serving g)\<lparr>ps_requests := [Arrived r]\<rparr>" and ?p2 = "(serving g)\<lparr>ps_requests := [GotConfig r (g_config g)]\<rparr>"
  let ?p3 = "?p2\<lparr>ps_reload := True\<rparr>" and ?p4 = "?p2\<lparr>ps_stores := stores\<rparr>"
  let ?p5 = "?p2\<lparr>ps_gateway := ?new\<rparr>" and ?p6 = "(serving ?new)\<lparr>ps_requests := [GotTrusted r (g_config g) (g_trusted ?new)]\<rparr>"
  have "?step\<^sup>*\<^sup>* (serving g) (serving g)" by simp
  also have "?step (serving g) ?p1" using Accept [of "serving g" decodeYAML configPath r] by (simp add: serving_def)
  also have "?step ?p1 ?p2" using LoadConfig [of ?p1 0 r] by (simp add: serving_def)
  also have "?step ?p2 ?p3" using Hangup [of ?p2] by (simp add: serving_def)
  also have "?step ?p3 ?p4" using Reloading [of ?p3 decodeYAML configPath readFile] assms(1,2) by (simp add: serving_def beginReload_def)
  also have "?step\<^sup>*\<^sup>* ?p4 ?p5" using stores_complete [of ?p4] by (simp add: serving_def)
  also have "?step ?p5 ?p6" using LoadTrusted [of ?p5 0 r "g_config g"] by (simp add: serving_def)
  also have "?step ?p6 (?p6\<lparr>ps_requests := [], ps_gateway := g', ps_answers := [(r, rep)]\<rparr>)"
    using Answer [of ?p6 0 r "g_config g" "g_trusted ?new" env g' rep] assms(3) by (simp add: serving_def)
  finally show ?thesis by (intro exI [of _ "?p6\<lparr>ps_requests := [], ps_gateway := g', ps_answers := [(r, rep)]\<rparr>"]) simp
qed

text \<open>
  Claim C23. A request that overlaps a reload is judged by parts of both configurations. Let the
  old configuration exclude the network of a client and ask for no key, and the new one admit all networks
  and ask for a key the client does not have: under the old one the client is answered with 403, under
  the new one with 401, but in a run of the process in which the reload happens between the loads of
  its request the client is given the usage report.
\<close>

theorem reload_lets_client_in:
  assumes "load readFile decodeYAML configPath = Inr new" and "srv_usageDB (cfg_server new) = g_usageDBPath g"
    and "g_acl g = Some acl" and "\<not> contains acl (effectiveIP r g)" and "srv_inboundAPIKeys (cfg_server (g_config g)) = []"
    and "srv_clientNetworks (cfg_server new) = []" and "\<not> authorized (rq_header r) (srv_inboundAPIKeys (cfg_server new))"
    and "rq_method r = ''GET''" and "rq_path r = ''/_shepard/usage''"
  shows "(\<exists>rep. serveHTTP env r g = Some (g, rep) \<and> rp_status rep = 403) \<and>
         (\<exists>g' rep. serveHTTP env r (fst (Reload new g)) = Some (g', rep) \<and> rp_status rep = 401) \<and>
         (\<exists>p g'. (program_step decodeYAML configPath)\<^sup>*\<^sup>* (serving g) p \<and>
                 (r, usageReport (se_queryFails env) (se_scanFails env) r g') \<in> set (ps_answers p))"
proof -
  obtain a t where nets: "newClientACL (srv_clientNetworks (cfg_server new)) = Inr a"
    "newClientACL (srv_trustedProxyNetworks (cfg_server new)) = Inr t" by (rule valid_networks [OF load_valid [OF assms(1)]])
  have "networks a = []" using nets(1) assms(6) by (auto simp: newClientACL_def)
  then have all: "contains a ip" for ip by (simp add: contains_def)
  obtain stores where stores: "reloadStores new g = Inr stores" using nets assms(2) by (simp add: reloadStores_def)
  let ?new = "fold applyStore stores g"
  have new: "g_acl ?new = Some a" "g_config ?new = new" "Reload new g = (?new, None)"
    using stores nets by (auto simp: Reload_def elim!: reloadStores_cases)
  have "serveLoaded env r (g_config g) (g_trusted ?new) ?new =
      Some (?new, usageReport (se_queryFails env) (se_scanFails env) r ?new)"
    using assms(5,8,9) new(1) all by (simp add: serveLoaded_def authorized_def Let_def)
  from straddling_request [OF stores assms(1) this] have
    "\<exists>p g'. (program_step decodeYAML configPath)\<^sup>*\<^sup>* (serving g) p \<and>
            (r, usageReport (se_queryFails env) (se_scanFails env) r g') \<in> set (ps_answers p)" by blast
  moreover have "\<exists>rep. serveHTTP env r g = Some (g, rep) \<and> rp_status rep = 403"
    using assms(3,4) by (simp add: serveHTTP_def serveLoaded_def effectiveIP_def Let_def writeAPIError_def writeJSONStatus_def)
  moreover have "\<exists>g' rep. serveHTTP env r (fst (Reload new g)) = Some (g', rep) \<and> rp_status rep = 401"
    using assms(7,9) new all by (simp add: serveHTTP_def serveLoaded_def Let_def writeAPIError_def writeJSONStatus_def)
  ultimately show ?thesis by blast
qed

text \<open>The network list 10.0.0.0/8 without keys, and afterwards one key for all networks.\<close>

definition exampleNew :: config where
  "exampleNew = exampleConfig\<lparr>cfg_server := zeroServer\<lparr>srv_inboundAPIKeys := [''k'']\<rparr>\<rparr>"

lemma exampleNew_load: "load (\<lambda>_. Some []) (\<lambda>_. Inr exampleNew) ''shepard.yaml'' = Inr (config_defaults exampleNew)"
  by (simp add: load_def validate_defs defaults_defs example_defs exampleNew_def)

theorem reload_lets_client_in_witness:
  "(let g = exampleGateway\<lparr>g_acl := Some \<lparr>networks = [\<lparr>net_ip = [10, 0, 0, 0], net_mask = [255, 0, 0, 0]\<rparr>]\<rparr>,
                                 g_usageDBPath := ''shepard-usage.db''\<rparr>;
        r = exampleRequest\<lparr>rq_method := ''GET'', rq_path := ''/_shepard/usage'', rq_remoteAddr := ''x''\<rparr>
    in \<exists>p g'. (program_step (\<lambda>_. Inr exampleNew) ''shepard.yaml'')\<^sup>*\<^sup>* (serving g) p \<and>
              (r, usageReport False (\<lambda>_. False) r g') \<in> set (ps_answers p))"
proof -
  let ?a = "\<lparr>networks = [\<lparr>net_ip = [10, 0, 0, 0], net_mask = [255, 0, 0, 0]\<rparr>]\<rparr>"
  let ?g = "exampleGateway\<lparr>g_acl := Some ?a, g_usageDBPath := ''shepard-usage.db''\<rparr>"
  let ?r = "exampleRequest\<lparr>rq_method := ''GET'', rq_path := ''/_shepard/usage'', rq_remoteAddr := ''x''\<rparr>"
  let ?env = "\<lparr>se_proxy = exampleEnv 200, se_rounds = [], se_queryFails = False, se_scanFails = (\<lambda>_. False)\<rparr>"
  have "parseRemoteIP ''x'' = None" by (simp add: parseRemoteIP_def trimCut_def net_eval)
  then have out: "\<not> contains ?a (effectiveIP ?r ?g)"
    by (simp add: effectiveIP_def forwardedClientIP_def contains_def exampleGateway_def)
  have "\<not> authorized [] [''k'']" by (simp add: authorized_def headerGet_def headerValues_def hasPrefix_def)
  then have keys: "\<not> authorized (rq_header ?r) (srv_inboundAPIKeys (cfg_server (config_defaults exampleNew)))"
    by (simp add: exampleRequest_def exampleNew_def defaults_defs)
  have new: "srv_usageDB (cfg_server (config_defaults exampleNew)) = g_usageDBPath ?g"
    "srv_clientNetworks (cfg_server (config_defaults exampleNew)) = []"
    "srv_inboundAPIKeys (cfg_server (g_config ?g)) = []"
    by (simp_all add: exampleNew_def exampleGateway_def defaults_defs example_defs)
  have "g_acl ?g = Some ?a" "rq_method ?r = ''GET''" "rq_path ?r = ''/_shepard/usage''" by simp_all
  with reload_lets_client_in [OF exampleNew_load new(1) _ out new(3,2) keys, of ?env] show ?thesis by (simp add: Let_def)
qed

section \<open>Shutdown\<close>

text \<open>
  Claim C24. The window for open streams is not kept: after a stop signal \<^verbatim>\<open>main\<close> can end, and the
  process with it, as soon as the listener is closed, while \<^verbatim>\<open>Shutdown\<close> still waits, with every request that
  was being served cut off. No step of any other part of the process is needed in between.
\<close>

theorem shutdown_cuts_requests:
  assumes "ps_exit p = None" and "ps_shutdown p = NoShutdown"
  shows "\<exists>p'. (program_step decodeYAML configPath)\<^sup>*\<^sup>* p p' \<and>
              ps_exit p' = Some 0 \<and> ps_shutdown p' = Draining \<and> ps_requests p' = ps_requests p"
proof -
  let ?step = "program_step decodeYAML configPath"
  let ?p1 = "p\<lparr>ps_stop := True\<rparr>" and ?p2 = "p\<lparr>ps_stop := False, ps_shutdown := Draining\<rparr>"
  have "?step\<^sup>*\<^sup>* p p" by simp
  also have "?step p ?p1" by (rule Interrupt [OF assms(1)])
  also have "?step ?p1 ?p2" using Shutdown [of ?p1] assms by simp
  also have "?step ?p2 (?p2\<lparr>ps_exit := Some 0\<rparr>)" using ServerClosed [of ?p2] assms(1) by simp
  finally show ?thesis by (intro exI [of _ "?p2\<lparr>ps_exit := Some 0\<rparr>"]) simp
qed

theorem shutdown_cuts_requests_witness:
  "\<exists>p'. (program_step (\<lambda>_. Inl []) [])\<^sup>*\<^sup>* ((serving exampleGateway)\<lparr>ps_requests := [Arrived exampleRequest]\<rparr>) p' \<and>
        ps_exit p' = Some 0 \<and> ps_shutdown p' = Draining \<and> ps_requests p' = [Arrived exampleRequest]"
  using shutdown_cuts_requests [of "(serving exampleGateway)\<lparr>ps_requests := [Arrived exampleRequest]\<rparr>" "\<lambda>_. Inl []" "[]"]
  by (simp add: serving_def)

end
