(* ===== verification/Spec2Isabelle.thy ===== *)
theory Spec2Isabelle
  imports Program
begin

text \<open>
  \<^bold>\<open>Shepard\<close> is a gateway in Go between clients of the OpenAI interface and model providers. It has
  one process-wide state, the struct \<^verbatim>\<open>Gateway\<close>, and serves requests concurrently: a request passes
  the network list, authentication, admission (rates, concurrency and a bounded queue), is decoded and
  rewritten, is sent to one provider after the other until one answers, and the answer is streamed
  back while its token usage is recorded in SQLite.

  \<^bold>\<open>Theories and sources.\<close> The packages are under \<^verbatim>\<open>src/internal\<close> and \<^verbatim>\<open>src/cmd\<close>.

  \<^item> \<open>Prelude\<close>: Go strings, package \<^verbatim>\<open>strings\<close>, maps that are ranged over (association lists with
    distinct keys, whose order stands for Go's unspecified iteration order), decoded JSON values.
  \<^item> \<open>GoNet\<close>: \<^verbatim>\<open>net.ParseIP\<close>, \<^verbatim>\<open>net.ParseCIDR\<close>, \<^verbatim>\<open>netip\<close> addresses and their text form.
  \<^item> \<open>GoFloat\<close>: rounding to \<^verbatim>\<open>float64\<close>, to nearest with ties to even: \<open>fl64\<close> with an unbounded exponent for the
    arithmetic of limiter and metrics, \<open>roundFloat64\<close> with gradual underflow for the numbers of JSON texts.
  \<^item> \<open>GoJson\<close>, \<open>JsonCodec\<close>, \<open>JsonNumber\<close>: \<^verbatim>\<open>encoding/json\<close>: UTF-8, lexer, scanner with its depth limit,
    conversion to \<^verbatim>\<open>any\<close> (overflow is an error, small numbers are subnormal or zero, minus zero is kept), shortest decimal printing of \<^verbatim>\<open>float64\<close>, and the proof that printing and
    reading back gives the same value.
  \<^item> \<open>GoSha\<close>: \<^verbatim>\<open>crypto/sha256\<close> on 32-bit words.
  \<^item> \<open>GoUrl\<close>: \<^verbatim>\<open>url.Parse\<close> and \<^verbatim>\<open>URL.String\<close>, query parameters; \<open>GoTime\<close>: \<^verbatim>\<open>time.ParseDuration\<close> on
    64-bit words; \<open>GoFlag\<close>: package \<^verbatim>\<open>flag\<close>.
  \<^item> \<open>Config\<close>: \<^verbatim>\<open>config/config.go\<close>: records, \<^verbatim>\<open>defaults\<close>, \<^verbatim>\<open>Validate\<close>, \<^verbatim>\<open>Load\<close>.
  \<^item> \<open>Acl\<close>: \<^verbatim>\<open>gateway/acl.go\<close>: network lists, the effective client address behind proxies.
  \<^item> \<open>Limiter\<close>: \<^verbatim>\<open>gateway/limiter.go\<close>: token buckets and concurrency counters.
  \<^item> \<open>Queue\<close>: \<^verbatim>\<open>gateway/queue.go\<close> and \<^verbatim>\<open>admitWithQueue\<close>.
  \<^item> \<open>GoHttp\<close>: \<^verbatim>\<open>http.NewRequest\<close> and \<^verbatim>\<open>http.Client.Do\<close> with the redirects it follows, up to ten requests, which methods,
    headers and bodies it keeps, and the references it resolves.
  \<^item> \<open>Headers\<close>, \<open>Upstream\<close>: header maps, allowlists, provider credentials, redaction, provider URLs and
    requests of \<^verbatim>\<open>gateway/gateway.go\<close> and \<^verbatim>\<open>gateway/logging.go\<close>.
  \<^item> \<open>Streams\<close>: the bounded buffers, the flushing writer, log records and the copy to the client.
  \<^item> \<open>Payload\<close>: system prompts, overrides and provider compatibility.
  \<^item> \<open>Usage\<close>: \<^verbatim>\<open>gateway/usage.go\<close>: token extraction, the two tables, the reports.
  \<^item> \<open>Discovery\<close>: \<^verbatim>\<open>gateway/discovery.go\<close>; \<open>Readiness\<close>: \<^verbatim>\<open>gateway/readiness.go\<close>.
  \<^item> \<open>Identity\<close>: \<^verbatim>\<open>authorized\<close>, \<^verbatim>\<open>clientIdentity\<close>, \<^verbatim>\<open>fingerprintIdentity\<close>.
  \<^item> \<open>Retry\<close>: \<^verbatim>\<open>gateway/metrics.go\<close> and the target and attempt loops of \<^verbatim>\<open>proxy\<close>, whose state also lists the calls
    of \<^verbatim>\<open>doUpstreamRequest\<close> they make.
  \<^item> \<open>Proxy\<close>: the struct \<^verbatim>\<open>Gateway\<close> and the handler \<^verbatim>\<open>proxy\<close>, stage by stage.
  \<^item> \<open>Gateway\<close>: \<^verbatim>\<open>New\<close>, \<^verbatim>\<open>Reload\<close>, \<^verbatim>\<open>ServeHTTP\<close>, the other handlers, and how \<^verbatim>\<open>main\<close> starts and reloads.
  \<^item> \<open>Program\<close>: \<^verbatim>\<open>cmd/shepard/main.go\<close> from the command line on, its goroutines and the requests as a step
    relation on the process, in which the pointer stores of \<^verbatim>\<open>Reload\<close> and the pointer loads of \<^verbatim>\<open>ServeHTTP\<close>
    are steps of their own.

  \<^bold>\<open>How the code is represented.\<close> A struct is a record, an error a value of a sum type, a method a
  function from the state before to the state after. A critical section is one step. Where a call
  blocks or takes time, what happens meanwhile is an argument (an \<^emph>\<open>environment\<close>): the instants read
  from the clock, what the network answers, what other goroutines do to the shared state, which writes
  succeed, which database operation fails. Statements quantify over all environments, or say what
  they need of them. Interleavings of whole components are inductive step relations with an
  invariant over all reachable states: the limiter, the queue with any number of goroutines, the
  readiness cache, the process with its signals. Deferred calls are performed by the stage that registered them after the later
  stages have returned.

  \<^bold>\<open>Interfaces.\<close> What one component relies on in another is a locale, interpreted on the model's
  definitions: \<open>address_filter\<close> (network lists), \<open>float_rounding\<close> (\<^verbatim>\<open>float64\<close>), \<open>admission_control\<close> (the
  limiter, used by queue and retry), \<open>ttl_cache\<close> (discovery), \<open>byte_sink\<close> and \<open>client_writer\<close> (streams).

  \<^bold>\<open>What is shown.\<close> Requests: every request is answered, gives back all slots on every path and is
  counted once; nothing happens for a client that is not allowed in; client credentials do not reach
  providers, and no client can direct a request to another host than the provider's, which only a redirect of the provider can leave. Limits: in every interleaving concurrency stays within its limits and is accounted
  exactly; an admission is all or nothing; the rate of admissions is bounded with the rounding error of
  \<^verbatim>\<open>float64\<close> accounted for; blocked requests recover and waits end. Failover: a working target is
  reached, retryable answers are passed on only as a last resort, the calls that are made are
  bounded, in order and counted, exactly the selected provider's slot is held. Data: streams, prompts, overrides, headers,
  usage counts, tables and reports are exactly what the code promises; exactly the JSON objects and \<^verbatim>\<open>null\<close> are accepted as bodies, and what
  is sent to a provider decodes to exactly the payload that was built. Configuration: validation is equivalent
  to a declarative predicate and independent of map order, loaded configurations are accepted, a
  reload is all or nothing, durations are read exactly, and in every interleaving of signals and requests
  the gateway has one coherent configuration whenever no reload is under way. Some theorems prove defects of the code: network entries that are
  IPv4-mapped addresses, unparsable proxy hops, overlapping discovery prefixes, discovery lists that
  survive a reload, client identities that depend on blanks and so evade the limits per client, redirects that take body and keys to another host, a misleading 429, a reload that lets in a
  client which both configurations refuse, and a shutdown that does not wait for open requests.

  \<^bold>\<open>Bounds.\<close> No definition has fuel. Loops over data are structural; a loop that waits consumes a list
  of events and gives \<open>None\<close> when they are used up, and the theorems on termination say which event
  ends it. Counters have their width in Go (64-bit words) where wrap-around can be observed;
  durations, sizes and table columns are integers.

  \<^bold>\<open>Not modelled.\<close> The listener of \<^verbatim>\<open>main\<close>, whose connections and failures are steps of the environment; the output
  format of \<^verbatim>\<open>slog\<close>; the decimal form of the last metric; the escapes \<^verbatim>\<open>%q\<close> puts into the name of an unknown
  model; the exponent range of \<^verbatim>\<open>float64\<close> in the limiter, whose rates are rational numbers and so neither \<^verbatim>\<open>.nan\<close> nor \<^verbatim>\<open>.inf\<close>;
  SQLite's 64-bit bound on sums; warnings that go to the log beside the records of requests and responses, such as the one for a refused client; the
  cookie jar, proxies and Punycode host names of \<^verbatim>\<open>net/http\<close>; the order of equal elements after \<^verbatim>\<open>sort.Slice\<close>. The decoder of YAML (package \<^verbatim>\<open>yaml.v3\<close>) is an argument of the definitions that use it.
\<close>

end
